(* ===== verification/Prelude.thy ===== *)
theory Prelude
  imports Main "HOL-Library.Word"
begin

text \<open>
  Shared vocabulary of the development: the fixed-width integer types of the C
  code (\<open>include/types.h\<close>), the simp collections the component theories
  extend, and generic facts on lists, function update and words that more
  than one component needs.
\<close>

unbundle bit_operations_syntax

type_synonym u8 = "8 word"
type_synonym u16 = "16 word"
type_synonym u32 = "32 word"
type_synonym u64 = "64 word"

text \<open>Pointers that only serve as object identities are natural numbers.\<close>

type_synonym addr = nat

named_theorems heap_simps
  \<open>unfolding rules of the pointer-level list operations\<close>
named_theorems op_defs
  \<open>definitions of operations that preserve a component invariant\<close>

subsection \<open>Error numbers and configuration\<close>

text \<open>\<open>include/lib/errno.h\<close>, and the number of virtual machines of \<open>vm_config.h\<close>.\<close>

definition EPERM :: int where "EPERM = 1"
definition EIO :: int where "EIO = 5"
definition EACCES :: int where "EACCES = 13"
definition EFAULT :: int where "EFAULT = 14"
definition EBUSY :: int where "EBUSY = 16"
definition ENODEV :: int where "ENODEV = 19"
definition EINVAL :: int where "EINVAL = 22"

lemmas errno_defs = EPERM_def EIO_def EACCES_def EFAULT_def EBUSY_def ENODEV_def EINVAL_def

definition CONFIG_MAX_VM_NUM :: nat where "CONFIG_MAX_VM_NUM = 6"

subsection \<open>Lists\<close>

lemma last_in_Cons_set [simp]: "last (x # xs) \<in> set (x # xs)"
  using last_in_set by blast

lemma last_takeWhile_in: "last (x # takeWhile P xs) \<in> set (x # xs)"
proof -
  have "set (takeWhile P xs) \<subseteq> set xs" by (auto dest: set_takeWhileD)
  moreover have "last (x # takeWhile P xs) \<in> set (x # takeWhile P xs)" by (rule last_in_Cons_set)
  ultimately show ?thesis by auto
qed

lemma in_set_tlD: "x \<in> set (tl xs) \<Longrightarrow> x \<in> set xs"
  by (cases xs) auto

lemma takeWhile_eq_prefix:
  assumes "\<And>x. x \<in> set xs \<Longrightarrow> P x" and "ys = [] \<or> \<not> P (hd ys)"
  shows "takeWhile P (xs @ ys) = xs"
  using assms by (induction xs) (cases ys; auto)+

lemma dropWhile_eq_suffix:
  assumes "\<And>x. x \<in> set xs \<Longrightarrow> P x" and "ys = [] \<or> \<not> P (hd ys)"
  shows "dropWhile P (xs @ ys) = ys"
  using assms by (induction xs) (cases ys; auto)+

lemma remove1_append_mid:
  "e \<notin> set xs \<Longrightarrow> remove1 e (xs @ e # ys) = xs @ ys"
  by (simp add: remove1_append)

subsection \<open>Words\<close>

lemma unat_add_no_wrap:
  fixes a b :: "'a::len word"
  assumes "unat a + unat b < 2 ^ LENGTH('a)"
  shows "unat (a + b) = unat a + unat b"
  using assms by (simp add: unat_word_ariths)

lemma unat_sub_le:
  fixes a b :: "'a::len word"
  assumes "b \<le> a"
  shows "unat (a - b) = unat a - unat b"
  using assms by (simp add: unat_sub)

lemma of_nat_word_eq_iff:
  assumes "i < 2 ^ LENGTH('a)" and "j < 2 ^ LENGTH('a)"
  shows "(of_nat i :: 'a::len word) = of_nat j \<longleftrightarrow> i = j"
proof
  assume "(of_nat i :: 'a word) = of_nat j"
  hence "unat (of_nat i :: 'a word) = unat (of_nat j :: 'a word)" by simp
  thus "i = j" using assms by (simp add: unsigned_of_nat take_bit_nat_eq_self)
qed simp

lemma unat_ucast_up:
  "LENGTH('a) \<le> LENGTH('b) \<Longrightarrow> unat (ucast (x :: 'a::len word) :: 'b::len word) = unat x"
proof -
  assume "LENGTH('a) \<le> LENGTH('b)"
  hence "unat x < 2 ^ LENGTH('b)" by (intro less_le_trans [OF unsigned_less power_increasing]) simp_all
  thus ?thesis by (simp add: unsigned_ucast_eq take_bit_nat_eq_self)
qed

end
