(* ===== verification/List_Head.thy ===== *)
theory List_Head
  imports Prelude
begin

text \<open>
  The intrusive circular doubly linked list of \<open>include/lib/list.h\<close> at the
  pointer level.  A \<open>struct list_head\<close> is an address; the two pointer fields of
  all nodes form a heap, the base of the state records of the components that
  keep objects on such lists.  Every operation performs the assignments of the C
  code in their order, each reading the heap left by the previous one.

  \<open>dll h hd xs\<close> is the abstraction relation: starting from the list head
  \<open>hd\<close>, the nodes \<open>xs\<close> are linked in this order in both directions and the
  ring closes at \<open>hd\<close>.  The lemmas show that the operations implement the
  insertion, deletion and concatenation of HOL lists, leave every disjoint
  ring alone, and that the iteration macro visits exactly \<open>xs\<close>.
\<close>

subsection \<open>Heap and operations\<close>

record list_heap =
  lnext :: "addr \<Rightarrow> addr"
  lprev :: "addr \<Rightarrow> addr"

definition set_next :: "addr \<Rightarrow> addr \<Rightarrow> 'a list_heap_scheme \<Rightarrow> 'a list_heap_scheme" where
  "set_next p v h = h\<lparr>lnext := (lnext h)(p := v)\<rparr>"

definition set_prev :: "addr \<Rightarrow> addr \<Rightarrow> 'a list_heap_scheme \<Rightarrow> 'a list_heap_scheme" where
  "set_prev p v h = h\<lparr>lprev := (lprev h)(p := v)\<rparr>"

definition INIT_LIST_HEAD :: "addr \<Rightarrow> 'a list_heap_scheme \<Rightarrow> 'a list_heap_scheme" where
  "INIT_LIST_HEAD p h = set_prev p p (set_next p p h)"

definition list_add_node :: "addr \<Rightarrow> addr \<Rightarrow> addr \<Rightarrow> 'a list_heap_scheme \<Rightarrow> 'a list_heap_scheme" where
  "list_add_node new_node prev nxt h =
    (let h = set_prev nxt new_node h;
         h = set_next new_node nxt h;
         h = set_prev new_node prev h
     in set_next prev new_node h)"

definition list_add :: "addr \<Rightarrow> addr \<Rightarrow> 'a list_heap_scheme \<Rightarrow> 'a list_heap_scheme" where
  "list_add new_node head h = list_add_node new_node head (lnext h head) h"

definition list_add_tail :: "addr \<Rightarrow> addr \<Rightarrow> 'a list_heap_scheme \<Rightarrow> 'a list_heap_scheme" where
  "list_add_tail new_node head h = list_add_node new_node (lprev h head) head h"

definition list_del_node :: "addr \<Rightarrow> addr \<Rightarrow> 'a list_heap_scheme \<Rightarrow> 'a list_heap_scheme" where
  "list_del_node prev nxt h = set_next prev nxt (set_prev nxt prev h)"

definition list_del :: "addr \<Rightarrow> 'a list_heap_scheme \<Rightarrow> 'a list_heap_scheme" where
  "list_del entry h = list_del_node (lprev h entry) (lnext h entry) h"

definition list_del_init :: "addr \<Rightarrow> 'a list_heap_scheme \<Rightarrow> 'a list_heap_scheme" where
  "list_del_init entry h =
    INIT_LIST_HEAD entry (list_del_node (lprev h entry) (lnext h entry) h)"

definition list_empty :: "'a list_heap_scheme \<Rightarrow> addr \<Rightarrow> bool" where
  "list_empty h head = (lnext h head = head)"

definition list_splice_node :: "addr \<Rightarrow> addr \<Rightarrow> 'a list_heap_scheme \<Rightarrow> 'a list_heap_scheme" where
  "list_splice_node lst head h =
    (let first = lnext h lst; lst_last = lprev h lst; at = lnext h head;
         h = set_prev first head h;
         h = set_next head first h;
         h = set_next lst_last at h
     in set_prev at lst_last h)"

definition list_splice :: "addr \<Rightarrow> addr \<Rightarrow> 'a list_heap_scheme \<Rightarrow> 'a list_heap_scheme" where
  "list_splice lst head h =
    (if \<not> list_empty h lst then list_splice_node lst head h else h)"

definition list_splice_init :: "addr \<Rightarrow> addr \<Rightarrow> 'a list_heap_scheme \<Rightarrow> 'a list_heap_scheme" where
  "list_splice_init lst head h =
    (if \<not> list_empty h lst
     then INIT_LIST_HEAD lst (list_splice_node lst head h) else h)"

text \<open>
  The iteration macro.  A ring that does not close at \<open>head\<close> makes the C loop
  run forever, which is the value \<open>None\<close>.
\<close>

partial_function (option) list_from :: "'a list_heap_scheme \<Rightarrow> addr \<Rightarrow> addr \<Rightarrow> addr list option" where
  "list_from h head pos =
    (if pos = head then Some []
     else Option.bind (list_from h head (lnext h pos)) (\<lambda>xs. Some (pos # xs)))"

declare list_from.simps [code]

definition list_for_each :: "'a list_heap_scheme \<Rightarrow> addr \<Rightarrow> addr list option" where
  "list_for_each h head = list_from h head (lnext h head)"

subsection \<open>Abstraction relation\<close>

fun links :: "'a list_heap_scheme \<Rightarrow> addr list \<Rightarrow> bool" where
  "links h (a # b # xs) = (lnext h a = b \<and> lprev h b = a \<and> links h (b # xs))"
| "links h _ = True"

definition dll :: "'a list_heap_scheme \<Rightarrow> addr \<Rightarrow> addr list \<Rightarrow> bool" where
  "dll h l xs \<longleftrightarrow> distinct (l # xs) \<and> links h (l # xs @ [l])"

text \<open>A node outside every list is linked to itself.\<close>

abbreviation unlinked :: "'a list_heap_scheme \<Rightarrow> addr \<Rightarrow> bool" where
  "unlinked h e \<equiv> dll h e []"

lemmas [heap_simps] = set_next_def set_prev_def INIT_LIST_HEAD_def list_add_node_def
  list_del_node_def Let_def

lemma links_append:
  "links h (xs @ a # ys) \<longleftrightarrow> links h (xs @ [a]) \<and> links h (a # ys)"
proof (induction xs)
  case (Cons x xs)
  thus ?case by (cases xs) auto
qed simp

lemma links_cong:
  assumes "\<And>a. a \<in> set (butlast xs) \<Longrightarrow> lnext h' a = lnext h a"
    and "\<And>a. a \<in> set (tl xs) \<Longrightarrow> lprev h' a = lprev h a"
  shows "links h' xs = links h xs"
  using assms by (induction h xs rule: links.induct) auto

lemma dll_distinct: "dll h l xs \<Longrightarrow> distinct (l # xs)"
  by (simp add: dll_def)

lemma dll_frame:
  assumes "dll h l xs"
    and "\<And>a. a \<in> set (l # xs) \<Longrightarrow> lnext h' a = lnext h a \<and> lprev h' a = lprev h a"
  shows "dll h' l xs"
proof -
  have "links h' (l # xs @ [l]) = links h (l # xs @ [l])"
    by (rule links_cong) (use assms(2) in \<open>auto simp: butlast_append\<close>)
  thus ?thesis using assms(1) by (simp add: dll_def)
qed

text \<open>
  The neighbours of a position: \<open>dll\<close> split at the last node before it and the
  first node after it, both of which may be the list head.
\<close>

lemma dll_split:
  "dll h l (xs @ ys) \<longleftrightarrow> distinct (l # xs @ ys) \<and>
     links h (l # xs) \<and> links h (ys @ [l]) \<and>
     lnext h (last (l # xs)) = hd (ys @ [l]) \<and> lprev h (hd (ys @ [l])) = last (l # xs)"
proof -
  obtain n t where n: "ys @ [l] = n # t" by (cases ys) auto
  obtain b p where p: "l # xs = b @ [p]" by (metis append_butlast_last_id list.discI)
  have "l # (xs @ ys) @ [l] = b @ p # n # t"
    using n p by (metis append.assoc append_Cons append_Nil)
  hence "links h (l # (xs @ ys) @ [l]) \<longleftrightarrow>
      links h (l # xs) \<and> lnext h p = n \<and> lprev h n = p \<and> links h (ys @ [l])"
    unfolding n p by (simp add: links_append [of h b p "n # t"])
  moreover have "last (l # xs) = p" "hd (ys @ [l]) = n" unfolding n p by simp_all
  ultimately show ?thesis by (auto simp: dll_def)
qed

lemma last_notin_butlast: "distinct xs \<Longrightarrow> last xs \<notin> set (butlast xs)"
  by (induction xs) (auto dest: in_set_butlastD)

lemma hd_notin_tl: "distinct xs \<Longrightarrow> xs \<noteq> [] \<Longrightarrow> hd xs \<notin> set (tl xs)"
  by (cases xs) auto

subsection \<open>Reading the heap after an operation\<close>

lemma lnext_list_add_node [simp]:
  "lnext (list_add_node n p q h) a = (if a = p then n else if a = n then q else lnext h a)"
  by (simp add: heap_simps)

lemma lprev_list_add_node [simp]:
  "lprev (list_add_node n p q h) a = (if a = n then p else if a = q then n else lprev h a)"
  by (simp add: heap_simps)

lemma lnext_list_del_node [simp]:
  "lnext (list_del_node p q h) a = (if a = p then q else lnext h a)"
  by (simp add: heap_simps)

lemma lprev_list_del_node [simp]:
  "lprev (list_del_node p q h) a = (if a = q then p else lprev h a)"
  by (simp add: heap_simps)

lemma lnext_INIT_LIST_HEAD [simp]:
  "lnext (INIT_LIST_HEAD e h) a = (if a = e then e else lnext h a)"
  by (simp add: heap_simps)

lemma lprev_INIT_LIST_HEAD [simp]:
  "lprev (INIT_LIST_HEAD e h) a = (if a = e then e else lprev h a)"
  by (simp add: heap_simps)

subsection \<open>Correctness of the operations\<close>

lemma INIT_LIST_HEAD_unlinked: "unlinked (INIT_LIST_HEAD p h) p"
  by (simp add: dll_def)

lemma list_empty_iff:
  assumes "dll h l xs" shows "list_empty h l \<longleftrightarrow> xs = []"
  using assms by (cases xs) (auto simp: dll_def list_empty_def)

text \<open>
  The boundary nodes of a split and where they may occur: \<open>p\<close> is the last node
  of the left part, \<open>q\<close> the first of the right part.
\<close>

lemma split_bounds:
  assumes "distinct (l # xs @ ys)"
  shows "last (l # xs) \<in> set (l # xs)" and "hd (ys @ [l]) \<in> set (l # ys)"
    and "last (l # xs) \<notin> set ys" and "hd (ys @ [l]) \<notin> set xs"
    and "last (l # xs) \<notin> set (butlast (l # xs))"
    and "hd (ys @ [l]) \<notin> set (tl (ys @ [l]))"
proof -
  show "hd (ys @ [l]) \<in> set (l # ys)" "hd (ys @ [l]) \<notin> set xs"
    using assms by (cases ys; auto)+
  show "last (l # xs) \<notin> set ys" using assms by (auto dest: last_in_set)
  show "last (l # xs) \<notin> set (butlast (l # xs))"
    using assms by (intro last_notin_butlast) auto
  show "hd (ys @ [l]) \<notin> set (tl (ys @ [l]))"
    using assms by (intro hd_notin_tl) auto
qed (rule last_in_Cons_set)

lemma list_add_node_dll:
  assumes d: "dll h l (xs @ ys)" and n: "n \<notin> set (l # xs @ ys)"
  shows "dll (list_add_node n (last (l # xs)) (hd (ys @ [l])) h) l (xs @ n # ys)"
proof -
  let ?p = "last (l # xs)" and ?q = "hd (ys @ [l])"
  let ?h = "list_add_node n ?p ?q h"
  note d' = d [unfolded dll_split]
  note b = split_bounds [OF conjunct1 [OF d']]
  have nb: "n \<notin> set (butlast (l # xs))" "n \<noteq> ?q" "n \<noteq> ?p"
    using n b(1,2) by (auto dest: in_set_butlastD simp del: last.simps)
  have nt: "n \<notin> set (tl (ys @ [l]))" using n by (cases ys) auto
  have "links ?h (l # xs) = links h (l # xs)"
    by (rule links_cong) (use n b nb in \<open>auto simp del: last.simps butlast.simps\<close>)
  moreover have "links ?h (ys @ [l]) = links h (ys @ [l])"
    by (rule links_cong)
      (use n b nb nt in \<open>auto simp: butlast_append simp del: last.simps\<close>)
  moreover obtain q t where "ys @ [l] = q # t" by (cases ys) auto
  ultimately have "links ?h (l # xs)" "links ?h (n # ys @ [l])"
    using d' nb by auto
  thus ?thesis
    using d' n nb unfolding dll_split by auto
qed

lemma list_add_dll:
  assumes "dll h l (xs @ ys)" and "n \<notin> set (l # xs @ ys)"
  shows "dll (list_add n (last (l # xs)) h) l (xs @ n # ys)"
  using list_add_node_dll [OF assms] assms(1) by (simp add: list_add_def dll_split)

lemma list_add_tail_dll:
  assumes "dll h l xs" and "n \<notin> set (l # xs)"
  shows "dll (list_add_tail n l h) l (xs @ [n])"
  using list_add_node_dll [of h l xs "[]"] assms dll_split [of h l xs "[]"]
  by (simp add: list_add_tail_def del: last.simps)

lemma list_del_node_dll:
  assumes d: "dll h l (xs @ e # ys)"
  shows "lprev h e = last (l # xs)" and "lnext h e = hd (ys @ [l])"
    and "dll (list_del_node (last (l # xs)) (hd (ys @ [l])) h) l (xs @ ys)"
proof -
  let ?p = "last (l # xs)" and ?q = "hd (ys @ [l])"
  let ?h = "list_del_node ?p ?q h"
  have dist: "distinct (l # xs @ ys)" using d by (auto simp: dll_def)
  note b = split_bounds [OF dist]
  obtain q t where q: "ys @ [l] = q # t" by (cases ys) auto
  have d': "links h (l # xs)" "links h (e # ys @ [l])" "lprev h e = ?p"
    using d unfolding dll_split by auto
  thus "lprev h e = ?p" and "lnext h e = ?q" using q by auto
  have "links ?h (l # xs) = links h (l # xs)"
    by (rule links_cong) (use b in \<open>auto simp del: last.simps butlast.simps\<close>)
  moreover have "links ?h (ys @ [l]) = links h (ys @ [l])"
    by (rule links_cong) (use b in \<open>auto simp: butlast_append simp del: last.simps\<close>)
  moreover have "links h (ys @ [l])" using d'(2) q by auto
  ultimately show "dll ?h l (xs @ ys)"
    using d' dist unfolding dll_split by simp
qed

lemma list_del_dll:
  assumes "dll h l (xs @ e # ys)"
  shows "dll (list_del e h) l (xs @ ys)"
  using list_del_node_dll [OF assms] by (simp add: list_del_def)

lemma list_del_init_dll:
  assumes "dll h l (xs @ e # ys)"
  shows "dll (list_del_init e h) l (xs @ ys)" and "unlinked (list_del_init e h) e"
proof -
  have "e \<notin> set (l # xs @ ys)" using assms by (auto simp: dll_def)
  thus "dll (list_del_init e h) l (xs @ ys)"
    using list_del_dll [OF assms]
    by (auto simp: list_del_def list_del_init_def elim!: dll_frame)
qed (simp add: list_del_init_def INIT_LIST_HEAD_unlinked)

text \<open>
  Frame rules: an operation on one ring leaves every disjoint ring alone.
\<close>

lemma list_add_frame:
  assumes "dll h m zs" and "dll h l (xs @ ys)"
    and "set (m # zs) \<inter> set (n # l # xs @ ys) = {}"
  shows "dll (list_add n (last (l # xs)) h) m zs"
proof -
  have "hd (ys @ [l]) \<in> set (l # ys)" by (cases ys) auto
  moreover have "lnext h (last (l # xs)) = hd (ys @ [l])"
    using assms(2) by (simp add: dll_split)
  moreover have "last (l # xs) \<in> set (l # xs)" by (rule last_in_Cons_set)
  ultimately show ?thesis
    using assms(3) by (intro dll_frame [OF assms(1)])
      (auto simp: list_add_def simp del: last.simps)
qed

lemma list_add_tail_frame:
  assumes "dll h m zs" and "dll h l xs"
    and "set (m # zs) \<inter> set (n # l # xs) = {}"
  shows "dll (list_add_tail n l h) m zs"
proof -
  have "lprev h l = last (l # xs)"
    using assms(2) dll_split [of h l xs "[]"] by simp
  moreover have "last (l # xs) \<in> set (l # xs)" by (rule last_in_Cons_set)
  ultimately show ?thesis
    using assms(3) by (intro dll_frame [OF assms(1)])
      (auto simp: list_add_tail_def simp del: last.simps)
qed

lemma list_del_init_frame:
  assumes "dll h m zs" and "dll h l (xs @ e # ys)"
    and "set (m # zs) \<inter> set (l # xs @ e # ys) = {}"
  shows "dll (list_del_init e h) m zs"
proof -
  have "hd (ys @ [l]) \<in> set (l # ys)" by (cases ys) auto
  moreover have "last (l # xs) \<in> set (l # xs)" by (rule last_in_Cons_set)
  ultimately show ?thesis
    using assms(3) list_del_node_dll [OF assms(2)]
    by (intro dll_frame [OF assms(1)])
      (auto simp: list_del_init_def simp del: last.simps)
qed

text \<open>Unlinking a node that is in no list is harmless.\<close>

lemma list_del_init_unlinked: "unlinked h e \<Longrightarrow> list_del_init e h = h"
  by (simp add: dll_def list_del_init_def heap_simps fun_upd_idem)

subsection \<open>Splicing\<close>

lemma list_splice_node_dll:
  assumes a: "dll h a xs" and b: "dll h b ys" and ne: "xs \<noteq> []"
    and dj: "set (a # xs) \<inter> set (b # ys) = {}"
  shows "dll (list_splice_node a b h) b (xs @ ys)"
proof -
  let ?h = "list_splice_node a b h"
  let ?at = "hd (ys @ [b])"
  have la: "lnext h a = hd xs" "lprev h a = last xs" "links h xs"
    using a ne dll_split [of h a xs "[]"] dll_split [of h a "[]" xs] by (cases xs; auto)+
  have lb: "lnext h b = ?at" "links h (ys @ [b])" "distinct (b # ys)"
    using b dll_split [of h b "[]" ys] by auto
  have nx: "lnext ?h c = (if c = last xs then ?at else if c = b then hd xs else lnext h c)"
    and pv: "lprev ?h c = (if c = ?at then last xs else if c = hd xs then b else lprev h c)" for c
    by (simp_all add: list_splice_node_def Let_def la lb set_next_def set_prev_def)
  have at: "?at \<in> set (b # ys)" "?at \<notin> set (tl (ys @ [b]))" "?at \<notin> set xs"
    using lb(3) dj by (cases ys; auto)+
  have hx: "hd xs \<notin> set (tl (ys @ [b]))"
    using dj in_set_tlD [of "hd xs" "ys @ [b]"] hd_in_set [OF ne]
    by (auto simp del: list.set_sel hd_in_set)
  have xs: "last xs \<in> set xs" "hd xs \<in> set xs" "last xs \<notin> set (butlast xs)" "hd xs \<notin> set (tl xs)"
    using ne a by (auto simp: dll_def last_notin_butlast hd_notin_tl)
  have "links ?h xs = links h xs"
    by (rule links_cong) (use at xs dj in \<open>auto simp: nx pv dest: in_set_butlastD in_set_tlD\<close>)
  moreover have "links ?h (ys @ [b]) = links h (ys @ [b])"
    by (rule links_cong)
      (use at xs hx dj lb(3) in \<open>auto simp: nx pv butlast_append dest: in_set_tlD\<close>)
  moreover have "lnext ?h b = hd xs" "lprev ?h (hd xs) = b"
    "lnext ?h (last xs) = ?at" "lprev ?h ?at = last xs"
    using at xs dj by (auto simp: nx pv)
  moreover have "distinct (b # xs @ ys)" using a lb(3) dj by (auto simp: dll_def)
  ultimately show ?thesis
    unfolding dll_split using la(3) lb(2) ne by (cases xs) simp_all
qed

lemma list_splice_init_dll:
  assumes "dll h a xs" and "dll h b ys" and "set (a # xs) \<inter> set (b # ys) = {}"
  shows "dll (list_splice_init a b h) b (xs @ ys)"
    and "unlinked (list_splice_init a b h) a"
proof -
  show "dll (list_splice_init a b h) b (xs @ ys)"
  proof (cases "xs = []")
    case False
    have "dll (list_splice_node a b h) b (xs @ ys)"
      by (rule list_splice_node_dll [OF assms(1,2) False assms(3)])
    moreover have "a \<notin> set (b # xs @ ys)" using assms(1,3) by (auto simp: dll_def)
    ultimately have "dll (INIT_LIST_HEAD a (list_splice_node a b h)) b (xs @ ys)"
      by (elim dll_frame) auto
    thus ?thesis using False list_empty_iff [OF assms(1)] by (simp add: list_splice_init_def)
  qed (use assms list_empty_iff [OF assms(1)] in \<open>simp add: list_splice_init_def\<close>)
  show "unlinked (list_splice_init a b h) a"
    using assms(1) list_empty_iff [OF assms(1)]
    by (auto simp: list_splice_init_def INIT_LIST_HEAD_unlinked)
qed

lemma list_splice_dll:
  assumes "dll h a xs" and "dll h b ys" and "set (a # xs) \<inter> set (b # ys) = {}"
  shows "dll (list_splice a b h) b (xs @ ys)"
  using list_splice_node_dll [OF assms(1,2) _ assms(3)] assms list_empty_iff [OF assms(1)]
  by (auto simp: list_splice_def)

subsection \<open>Iteration\<close>

lemma list_from_suffix:
  assumes "dll h l (xs @ ys)"
  shows "list_from h l (hd (ys @ [l])) = Some ys"
  using assms
proof (induction ys arbitrary: xs)
  case Nil
  show ?case by (simp add: list_from.simps)
next
  case (Cons y ys)
  have "dll h l ((xs @ [y]) @ ys)" using Cons.prems by simp
  hence "list_from h l (hd (ys @ [l])) = Some ys" by (rule Cons.IH)
  moreover have "lnext h y = hd (ys @ [l])" using Cons.prems by (rule list_del_node_dll(2))
  moreover have "y \<noteq> l" using Cons.prems by (auto simp: dll_def)
  ultimately show ?case by (simp add: list_from.simps [of h l y])
qed

lemma list_for_each_dll: "dll h l xs \<Longrightarrow> list_for_each h l = Some xs"
  using list_from_suffix [of h l "[]" xs] dll_split [of h l "[]" xs]
  by (simp add: list_for_each_def)

lemma dll_functional: "dll h l xs \<Longrightarrow> dll h l ys \<Longrightarrow> xs = ys"
  by (auto dest!: list_for_each_dll)

lemma dll_next_in:
  assumes "dll h l xs" and "x \<in> set (l # xs)" shows "lnext h x \<in> set (l # xs)"
proof -
  obtain as bs where "l # xs = as @ x # bs" using assms(2) by (meson split_list)
  moreover from this obtain c cs where "bs @ [l] = c # cs" by (cases bs) auto
  ultimately have "l # xs @ [l] = as @ x # c # cs" by (metis append.assoc append_Cons)
  hence "links h (as @ x # c # cs)" "c \<in> set (l # xs @ [l])" using assms(1) by (auto simp: dll_def)
  thus ?thesis using links_append [of h as x "c # cs"] by auto
qed

lemma dll_first: "dll h l (x # xs) \<Longrightarrow> lnext h l = x"
  by (simp add: dll_def)

subsection \<open>The list contract\<close>

text \<open>
  What the users of the list rely on.  \<open>rel h l xs\<close> says that the list at \<open>l\<close>
  holds \<open>xs\<close>; the laws give the effect of the operations on the list itself
  and that detached nodes stay detached.
\<close>

locale linked_list =
  fixes rel :: "'h \<Rightarrow> 'n \<Rightarrow> 'n list \<Rightarrow> bool"
    and isempty :: "'h \<Rightarrow> 'n \<Rightarrow> bool"
    and insert_after :: "'n \<Rightarrow> 'n \<Rightarrow> 'h \<Rightarrow> 'h"
    and insert_tail :: "'n \<Rightarrow> 'n \<Rightarrow> 'h \<Rightarrow> 'h"
    and unlink :: "'n \<Rightarrow> 'h \<Rightarrow> 'h"
  assumes rel_distinct: "rel h l xs \<Longrightarrow> distinct (l # xs)"
    and isempty_iff: "rel h l xs \<Longrightarrow> isempty h l \<longleftrightarrow> xs = []"
    and insert_after_rel: "rel h l (xs @ ys) \<Longrightarrow> n \<notin> set (l # xs @ ys) \<Longrightarrow>
      rel (insert_after n (last (l # xs)) h) l (xs @ n # ys)"
    and insert_tail_rel: "rel h l xs \<Longrightarrow> n \<notin> set (l # xs) \<Longrightarrow>
      rel (insert_tail n l h) l (xs @ [n])"
    and unlink_rel: "rel h l (xs @ e # ys) \<Longrightarrow> rel (unlink e h) l (xs @ ys)"
    and unlink_detached: "rel h l (xs @ e # ys) \<Longrightarrow> rel (unlink e h) e []"
    and unlink_frame: "rel h m zs \<Longrightarrow> rel h l (xs @ e # ys) \<Longrightarrow>
      set (m # zs) \<inter> set (l # xs @ e # ys) = {} \<Longrightarrow> rel (unlink e h) m zs"
begin

lemma insert_head_rel:
  assumes "rel h l xs" and "n \<notin> set (l # xs)"
  shows "rel (insert_after n l h) l (n # xs)"
  using insert_after_rel [of h l "[]" xs n] assms by simp

lemma linked_not_empty:
  assumes "rel h l xs" and "e \<in> set xs"
  shows "\<not> isempty h l"
  using isempty_iff [OF assms(1)] assms(2) by auto

lemma unlink_remove1:
  assumes "rel h l xs" and "e \<in> set xs"
  shows "rel (unlink e h) l (remove1 e xs)"
proof -
  obtain as bs where "xs = as @ e # bs" "e \<notin> set as"
    using assms(2) by (meson split_list_first)
  thus ?thesis using unlink_rel assms(1) by (simp add: remove1_append_mid)
qed

lemma unlink_isempty:
  assumes "rel h l xs" and "e \<in> set xs"
  shows "isempty (unlink e h) e"
proof -
  obtain as bs where "xs = as @ e # bs" using assms(2) by (meson split_list)
  thus ?thesis using unlink_detached assms(1) isempty_iff by blast
qed

text \<open>Taking a node off the list and queueing it again at either end.\<close>

lemma requeue_tail:
  assumes "rel h l xs" and "e \<in> set xs"
  shows "rel (insert_tail e l (unlink e h)) l (remove1 e xs @ [e])"
proof -
  have "distinct (l # xs)" using assms(1) by (rule rel_distinct)
  thus ?thesis using assms by (intro insert_tail_rel unlink_remove1) auto
qed

lemma requeue_head:
  assumes "rel h l xs" and "e \<in> set xs"
  shows "rel (insert_after e l (unlink e h)) l (e # remove1 e xs)"
proof -
  have "distinct (l # xs)" using assms(1) by (rule rel_distinct)
  thus ?thesis using assms by (intro insert_head_rel unlink_remove1) auto
qed

end

interpretation dl: linked_list dll list_empty list_add list_add_tail list_del_init
proof unfold_locales
  fix h m zs l xs e ys
  assume "dll h m zs" "dll h l (xs @ e # ys)" "set (m # zs) \<inter> set (l # xs @ e # ys) = {}"
  thus "dll (list_del_init e h) m zs" by (rule list_del_init_frame)
qed (simp_all add: dll_distinct list_empty_iff list_add_dll list_add_tail_dll list_del_init_dll
      del: last.simps set_simps distinct.simps)

end
