(* ===== verification/Bits.thy ===== *)
theory Bits
  imports Prelude
begin

text \<open>
  Bit operations of the RISC-V port: \<open>include/arch/riscv/asm/lib/bits.h\<close> and
  \<open>arch/riscv/lib/bits.c\<close>.

  Every single-bit operation builds its mask with \<open>1 << nr\<close>, an \<open>int\<close> shift
  whose result is converted to \<open>uint64_t\<close>.  \<open>shl1\<close> is that 32-bit shift
  and the conversion is the sign extension \<open>scast\<close>; C leaves \<open>nr \<ge> 32\<close>
  undefined, so the lemmas only speak about \<open>nr < 32\<close>.  The operations
  implement single-bit update for \<open>nr < 31\<close>; at 31 the sign extension
  drags the upper half along.

  The bitmap searches work on an array of 64-bit words; their index
  arithmetic never exceeds \<open>size\<close>, so it is modelled on \<open>nat\<close>.  Both are
  shown equal to the obvious scan \<open>next_index\<close>.
\<close>

subsection \<open>Single bits\<close>

definition shl1 :: "nat \<Rightarrow> 32 word" where
  "shl1 nr = push_bit nr 1"

definition set_bit_u64 :: "nat \<Rightarrow> u64 \<Rightarrow> u64" where
  "set_bit_u64 nr p = p OR scast (shl1 nr)"

definition clear_bit :: "nat \<Rightarrow> u64 \<Rightarrow> u64" where
  "clear_bit nr p = p AND scast (NOT (shl1 nr))"

definition test_bit :: "nat \<Rightarrow> u64 \<Rightarrow> bool" where
  "test_bit nr bits = (bits AND scast (shl1 nr) \<noteq> 0)"

definition bitmap_set_lock :: "nat \<Rightarrow> u64 \<Rightarrow> u64" where
  "bitmap_set_lock nr_arg w = w OR scast (shl1 nr_arg)"

definition bitmap_clear_lock :: "nat \<Rightarrow> u64 \<Rightarrow> u64" where
  "bitmap_clear_lock nr_arg w = w AND scast (NOT (shl1 nr_arg))"

definition bitmap_set_nolock :: "nat \<Rightarrow> u64 \<Rightarrow> u64" where
  "bitmap_set_nolock nr_arg w = w"

definition bitmap_clear_nolock :: "nat \<Rightarrow> u64 \<Rightarrow> bool \<times> u64" where
  "bitmap_clear_nolock nr_arg w = (True, w)"

definition bitmap_test_and_set_lock :: "nat \<Rightarrow> u64 \<Rightarrow> bool \<times> u64" where
  "bitmap_test_and_set_lock nr_arg w = (True, w)"

definition bitmap_test_and_clear_lock :: "nat \<Rightarrow> u64 \<Rightarrow> bool \<times> u64" where
  "bitmap_test_and_clear_lock nr_arg w =
    (if w AND scast (shl1 nr_arg) \<noteq> 0
     then (True, w AND scast (NOT (shl1 nr_arg)))
     else (False, w))"

definition bitmap_test :: "nat \<Rightarrow> u64 \<Rightarrow> bool" where
  "bitmap_test nr w = (w AND scast (shl1 nr) \<noteq> 0)"

subsection \<open>Bit scans\<close>

text \<open>The \<open>ctz\<close> and \<open>clz\<close> instructions; both give the word length on zero.\<close>

definition ctz :: "'a::len word \<Rightarrow> nat" where
  "ctz w = length (takeWhile (\<lambda>i. \<not> bit w i) [0..<LENGTH('a)])"

definition clz :: "'a::len word \<Rightarrow> nat" where
  "clz w = length (takeWhile (\<lambda>i. \<not> bit w i) (rev [0..<LENGTH('a)]))"

definition ffsl :: "u64 \<Rightarrow> nat" where
  "ffsl x = ctz x"

definition ffz :: "u64 \<Rightarrow> nat" where
  "ffz x = ffsl (NOT x)"

definition flsl :: "u64 \<Rightarrow> int" where
  "flsl x = 64 - 1 - int (clz x)"

definition ffs :: "u32 \<Rightarrow> nat" where
  "ffs x = ctz x + 1"

definition fls :: "u32 \<Rightarrow> int" where
  "fls x = 32 - int (clz x)"

definition find_first_set_bit :: "u64 \<Rightarrow> u32" where
  "find_first_set_bit w = of_nat (ffsl w) - 1"

definition ffs64 :: "u64 \<Rightarrow> nat" where
  "ffs64 x = ffsl x"

definition ffz64 :: "u64 \<Rightarrow> nat" where
  "ffz64 x = ffs64 (NOT x)"

function ffz64_ex_loop :: "(nat \<Rightarrow> u64) \<Rightarrow> nat \<Rightarrow> nat \<Rightarrow> nat" where
  "ffz64_ex_loop a sz idx =
    (if idx * 64 < sz
     then if a idx \<noteq> NOT 0 then idx * 64 + ffz64 (a idx) else ffz64_ex_loop a sz (idx + 1)
     else sz)"
  by pat_completeness auto
termination
  by (relation "measure (\<lambda>(a, sz, idx). sz - idx * 64)") auto

definition ffz64_ex :: "(nat \<Rightarrow> u64) \<Rightarrow> nat \<Rightarrow> nat" where
  "ffz64_ex a sz = ffz64_ex_loop a sz 0"

declare ffz64_ex_loop.simps [simp del]

subsection \<open>Searching a bitmap\<close>

text \<open>
  \<open>found_first\<close> and \<open>found_middle\<close> are the labels of the C functions; the
  loops start at word \<open>p\<close> with \<open>result = 64 * p\<close> and \<open>sz\<close> bits left.
  \<open>sz & ~63\<close> is non-zero iff \<open>sz div 64 \<noteq> 0\<close>.
\<close>

definition found_middle :: "nat \<Rightarrow> u64 \<Rightarrow> nat" where
  "found_middle result tmp = result + ffsl tmp"

definition found_first :: "nat \<Rightarrow> nat \<Rightarrow> u64 \<Rightarrow> nat" where
  "found_first result sz tmp =
    (let tmp = tmp AND drop_bit (64 - sz) (NOT 0)
     in if tmp = 0 then result + sz else found_middle result tmp)"

function find_bit_loop :: "(nat \<Rightarrow> u64) \<Rightarrow> nat \<Rightarrow> nat \<Rightarrow> nat \<Rightarrow> nat" where
  "find_bit_loop a p result sz =
    (if sz div 64 \<noteq> 0
     then if a p \<noteq> 0 then found_middle result (a p)
          else find_bit_loop a (p + 1) (result + 64) (sz - 64)
     else if sz = 0 then result else found_first result sz (a p))"
  by pat_completeness auto
termination
  by (relation "measure (\<lambda>(a, p, result, sz). sz)") auto

declare find_bit_loop.simps [simp del]

definition find_next_bit :: "(nat \<Rightarrow> u64) \<Rightarrow> nat \<Rightarrow> nat \<Rightarrow> nat" where
  "find_next_bit a sz offset =
    (let p = offset div 64; result = 64 * (offset div 64) in
     if offset \<ge> sz then sz
     else let sz = sz - result; offset = offset mod 64 in
     if offset \<noteq> 0
     then let tmp = a p AND push_bit offset (NOT 0) in
          if sz < 64 then found_first result sz tmp
          else if tmp \<noteq> 0 then found_middle result tmp
          else find_bit_loop a (p + 1) (result + 64) (sz - 64)
     else find_bit_loop a p result sz)"

definition find_first_bit :: "(nat \<Rightarrow> u64) \<Rightarrow> nat \<Rightarrow> nat" where
  "find_first_bit a sz = find_bit_loop a 0 0 sz"

definition found_first_zero :: "nat \<Rightarrow> nat \<Rightarrow> u64 \<Rightarrow> nat" where
  "found_first_zero result sz tmp =
    (let tmp = tmp OR push_bit sz (NOT 0)
     in if tmp = NOT 0 then result + sz else result + ffz tmp)"

function find_zero_bit_loop :: "(nat \<Rightarrow> u64) \<Rightarrow> nat \<Rightarrow> nat \<Rightarrow> nat \<Rightarrow> nat" where
  "find_zero_bit_loop a p result sz =
    (if sz div 64 \<noteq> 0
     then if NOT (a p) \<noteq> 0 then result + ffz (a p)
          else find_zero_bit_loop a (p + 1) (result + 64) (sz - 64)
     else if sz = 0 then result else found_first_zero result sz (a p))"
  by pat_completeness auto
termination
  by (relation "measure (\<lambda>(a, p, result, sz). sz)") auto

declare find_zero_bit_loop.simps [simp del]

definition find_next_zero_bit :: "(nat \<Rightarrow> u64) \<Rightarrow> nat \<Rightarrow> nat \<Rightarrow> nat" where
  "find_next_zero_bit a sz offset =
    (let p = offset div 64; result = 64 * (offset div 64) in
     if offset \<ge> sz then sz
     else let sz = sz - result; offset = offset mod 64 in
     if offset \<noteq> 0
     then let tmp = a p OR drop_bit (64 - offset) (NOT 0) in
          if sz < 64 then found_first_zero result sz tmp
          else if NOT tmp \<noteq> 0 then result + ffz tmp
          else find_zero_bit_loop a (p + 1) (result + 64) (sz - 64)
     else find_zero_bit_loop a p result sz)"

definition find_first_zero_bit :: "(nat \<Rightarrow> u64) \<Rightarrow> nat \<Rightarrow> nat" where
  "find_first_zero_bit a sz = find_zero_bit_loop a 0 0 sz"

subsection \<open>Single-bit updates\<close>

lemma bit_scast_shl1:
  "nr < 32 \<Longrightarrow> bit (scast (shl1 nr) :: u64) n \<longleftrightarrow> n = nr \<or> (nr = 31 \<and> 31 \<le> n \<and> n < 64)"
  by (auto simp: shl1_def bit_simps min_def)

lemma bit_scast_not_shl1:
  "nr < 32 \<Longrightarrow> bit (scast (NOT (shl1 nr)) :: u64) n
     \<longleftrightarrow> n < 64 \<and> \<not> (n = nr \<or> (nr = 31 \<and> 31 \<le> n))"
  by (auto simp: shl1_def bit_simps min_def)

lemma scast_shl1 [simp]:
  assumes "nr < 31" shows "scast (shl1 nr) = (2 ^ nr :: u64)"
  using assms by (intro bit_eqI) (auto simp: bit_scast_shl1 bit_exp_iff)

lemma scast_not_shl1 [simp]:
  assumes "nr < 31" shows "scast (NOT (shl1 nr)) = (NOT (2 ^ nr) :: u64)"
  using assms by (intro bit_eqI) (auto simp: bit_scast_not_shl1 bit_exp_iff bit_not_iff)

lemma and_exp_nonzero: "w AND 2 ^ nr \<noteq> 0 \<longleftrightarrow> bit w nr"
  for w :: "'a::len word"
  by (simp add: bit_iff_and_push_bit_not_eq_0)

lemmas bit_op_defs = set_bit_u64_def clear_bit_def test_bit_def bitmap_set_lock_def
  bitmap_clear_lock_def bitmap_test_def bitmap_test_and_clear_lock_def

lemma bit_bitmap_set_lock:
  "nr < 31 \<Longrightarrow> bit (bitmap_set_lock nr w) n \<longleftrightarrow> n = nr \<or> bit w n"
  by (auto simp: bit_op_defs bit_simps)

lemma bit_bitmap_clear_lock:
  "nr < 31 \<Longrightarrow> bit (bitmap_clear_lock nr w) n \<longleftrightarrow> n \<noteq> nr \<and> bit w n"
  by (auto simp: bit_op_defs bit_simps dest: bit_imp_le_length)

lemma bitmap_test_bit: "nr < 31 \<Longrightarrow> bitmap_test nr w \<longleftrightarrow> bit w nr"
  by (simp add: bit_op_defs and_exp_nonzero)

lemma test_and_clear_eq:
  "nr < 31 \<Longrightarrow> bitmap_test_and_clear_lock nr w = (bit w nr, bitmap_clear_lock nr w)"
proof (cases "bitmap_test nr w")
  case False
  moreover assume "nr < 31"
  moreover from this False have "bitmap_clear_lock nr w = w"
    by (intro bit_word_eqI) (auto simp: bit_bitmap_clear_lock bitmap_test_bit)
  ultimately show ?thesis by (simp add: bitmap_test_and_clear_lock_def bitmap_test_bit [symmetric]) (simp add: bitmap_test_def)
qed (simp add: bitmap_test_and_clear_lock_def bitmap_test_bit [symmetric], simp add: bitmap_test_def bitmap_clear_lock_def)

lemma set_bit_u64_lock: "set_bit_u64 = bitmap_set_lock" "clear_bit = bitmap_clear_lock"
  "test_bit = bitmap_test"
  by (auto simp: bit_op_defs fun_eq_iff)

text \<open>
  The contract of a bitmap: testing after setting or clearing.  \<open>lim\<close> bounds the
  bit numbers for which it holds.
\<close>

locale bitmap =
  fixes lim :: nat
    and setb :: "nat \<Rightarrow> 'w \<Rightarrow> 'w"
    and clrb :: "nat \<Rightarrow> 'w \<Rightarrow> 'w"
    and tstb :: "nat \<Rightarrow> 'w \<Rightarrow> bool"
  assumes test_set: "i < lim \<Longrightarrow> j < lim \<Longrightarrow> tstb j (setb i w) \<longleftrightarrow> j = i \<or> tstb j w"
    and test_clear: "i < lim \<Longrightarrow> j < lim \<Longrightarrow> tstb j (clrb i w) \<longleftrightarrow> j \<noteq> i \<and> tstb j w"
begin

lemma set_clear_roundtrip:
  "i < lim \<Longrightarrow> j < lim \<Longrightarrow> \<not> tstb i w \<Longrightarrow> tstb j (clrb i (setb i w)) \<longleftrightarrow> tstb j w"
  by (auto simp: test_set test_clear)

lemma test_set_all:
  "\<forall>i \<in> set is. i < lim \<Longrightarrow> j < lim \<Longrightarrow>
    tstb j (foldr setb is w) \<longleftrightarrow> j \<in> set is \<or> tstb j w"
  by (induction "is") (auto simp: test_set)

lemma test_clear_all:
  "\<forall>i \<in> set is. i < lim \<Longrightarrow> j < lim \<Longrightarrow>
    tstb j (foldr clrb is w) \<longleftrightarrow> j \<notin> set is \<and> tstb j w"
  by (induction "is") (auto simp: test_clear)

end

interpretation lockmap: bitmap 31 bitmap_set_lock bitmap_clear_lock bitmap_test
  by unfold_locales (auto simp: bitmap_test_bit bit_bitmap_set_lock bit_bitmap_clear_lock)

interpretation bitsc: bitmap 31 set_bit_u64 clear_bit test_bit
  unfolding set_bit_u64_lock by (rule lockmap.bitmap_axioms)

text \<open>Bit 31 is sign-extended: setting it sets the whole upper half.\<close>

lemma bitmap_set_lock_31: "bitmap_set_lock 31 w = w OR 0xFFFFFFFF80000000"
proof -
  have "scast (shl1 31) = (0xFFFFFFFF80000000 :: u64)"
    by (simp add: shl1_def push_bit_eq_mult)
  thus ?thesis by (simp only: bitmap_set_lock_def)
qed

subsection \<open>Bit scans\<close>

lemma ctz_le: "ctz (w :: 'a::len word) \<le> LENGTH('a)"
  unfolding ctz_def by (metis diff_zero length_takeWhile_le length_upt)

lemma ctz_below: "i < ctz (w :: 'a::len word) \<Longrightarrow> \<not> bit w i"
  using nth_mem takeWhile_nth [of i "\<lambda>i. \<not> bit w i" "[0..<LENGTH('a)]"] ctz_le [of w]
    set_takeWhileD [of i "\<lambda>i. \<not> bit w i" "[0..<LENGTH('a)]"]
  unfolding ctz_def by (metis add_0 diff_zero length_takeWhile_le length_upt nth_upt order_less_le_trans)

lemma ctz_at: "ctz (w :: 'a::len word) < LENGTH('a) \<Longrightarrow> bit w (ctz w)"
  using nth_length_takeWhile [of "\<lambda>i. \<not> bit w i" "[0..<LENGTH('a)]"]
  unfolding ctz_def by simp

lemma ctz_nonzero: "w \<noteq> 0 \<longleftrightarrow> ctz (w :: 'a::len word) < LENGTH('a)"
proof
  assume "w \<noteq> 0"
  then obtain i where i: "bit w i" by (auto simp: bit_eq_iff)
  hence "i < LENGTH('a)" by (rule bit_imp_le_length)
  moreover have "ctz w \<le> i" using i ctz_below not_less by blast
  ultimately show "ctz w < LENGTH('a)" by simp
qed (auto dest: ctz_at)

lemma ctz_eqI: "bit w k \<Longrightarrow> (\<And>i. i < k \<Longrightarrow> \<not> bit w i) \<Longrightarrow> ctz w = k"
proof -
  assume k: "bit w k" and lt: "\<And>i. i < k \<Longrightarrow> \<not> bit w i"
  have "w \<noteq> 0" using k by auto
  hence "bit w (ctz w)" using ctz_nonzero ctz_at by blast
  thus ?thesis using k lt ctz_below by (meson linorder_neqE_nat)
qed

subsection \<open>Bitmap searches\<close>

text \<open>The reference: the first index of a range that satisfies \<open>P\<close>, or its end.\<close>

definition next_index :: "(nat \<Rightarrow> bool) \<Rightarrow> nat \<Rightarrow> nat \<Rightarrow> nat" where
  "next_index P from sz = from + length (takeWhile (\<lambda>i. \<not> P i) [from..<sz])"

lemma next_index_eqI:
  assumes "from \<le> r" "r \<le> sz" "\<And>i. from \<le> i \<Longrightarrow> i < r \<Longrightarrow> \<not> P i" "r < sz \<Longrightarrow> P r"
  shows "next_index P from sz = r"
proof -
  have "[from..<sz] = [from..<r] @ [r..<sz]"
    using assms(1,2) by (metis le_add_diff_inverse upt_add_eq_append)
  moreover have "[r..<sz] = [] \<or> P (hd [r..<sz])"
    using assms(4) by (cases "r < sz") auto
  ultimately have "takeWhile (\<lambda>i. \<not> P i) [from..<sz] = [from..<r]"
    using assms(3) takeWhile_eq_prefix [of "[from..<r]" "\<lambda>i. \<not> P i" "[r..<sz]"] by auto
  thus ?thesis using assms(1) by (simp add: next_index_def)
qed

lemma next_index_spec:
  assumes "from \<le> sz"
  shows "from \<le> next_index P from sz" "next_index P from sz \<le> sz"
    "from \<le> i \<Longrightarrow> i < next_index P from sz \<Longrightarrow> \<not> P i" "next_index P from sz < sz \<Longrightarrow> P (next_index P from sz)"
proof -
  let ?Q = "\<lambda>i. \<not> P i" and ?xs = "[from..<sz]"
  define k where "k = length (takeWhile ?Q ?xs)"
  have k: "next_index P from sz = from + k" "k \<le> sz - from"
    using length_takeWhile_le [of ?Q ?xs] by (simp_all add: next_index_def k_def)
  show "from \<le> next_index P from sz" "next_index P from sz \<le> sz" using k assms by simp_all
  show "\<not> P i" if "from \<le> i" "i < next_index P from sz"
  proof -
    have j: "i - from < k" using that k by simp
    hence "?xs ! (i - from) \<in> set (takeWhile ?Q ?xs)"
      using takeWhile_nth [of "i - from" ?Q ?xs] nth_mem unfolding k_def by metis
    hence "\<not> P (?xs ! (i - from))" by (rule set_takeWhileD [THEN conjunct2])
    thus ?thesis using that j k by (simp add: nth_upt)
  qed
  show "P (next_index P from sz)" if "next_index P from sz < sz"
    using nth_length_takeWhile [of ?Q ?xs] that k by (simp add: k_def nth_upt)
qed

definition bit_at :: "(nat \<Rightarrow> u64) \<Rightarrow> nat \<Rightarrow> bool" where
  "bit_at a i = bit (a (i div 64)) (i mod 64)"

lemma bit_at_word: "i < 64 \<Longrightarrow> bit_at a (64 * p + i) = bit (a p) i"
  by (simp add: bit_at_def)

text \<open>A non-zero word, masked to the range, holds the next set bit.\<close>

lemma found_middle_next:
  assumes "tmp \<noteq> 0" and "\<And>i. bit tmp i \<longleftrightarrow> lo \<le> i \<and> i < 64 \<and> bit_at a (64 * p + i)"
    and "64 * p + 64 \<le> sz"
  shows "found_middle (64 * p) tmp = next_index (bit_at a) (64 * p + lo) sz"
proof -
  have at: "bit tmp (ctz tmp)" "ctz tmp < 64"
    using assms(1) ctz_at [of tmp] ctz_nonzero [of tmp] by auto
  have "\<not> bit_at a i" if "64 * p + lo \<le> i" "i < 64 * p + ctz tmp" for i
    using ctz_below [of "i - 64 * p" tmp] assms(2) [of "i - 64 * p"] that at(2) by auto
  thus ?thesis using at assms(2,3)
    by (intro next_index_eqI [symmetric]) (auto simp: found_middle_def ffsl_def)
qed

lemma found_first_next:
  assumes "0 < n" "n < 64" and "\<And>i. bit tmp i \<longleftrightarrow> lo \<le> i \<and> i < 64 \<and> bit_at a (64 * p + i)"
    and "lo < n"
  shows "found_first (64 * p) n tmp = next_index (bit_at a) (64 * p + lo) (64 * p + n)"
proof -
  let ?t = "tmp AND drop_bit (64 - n) (NOT 0)"
  have t: "bit ?t i \<longleftrightarrow> bit tmp i \<and> i < n" for i
    using assms(1,2) by (auto simp: bit_simps dest: bit_imp_le_length)
  show ?thesis
  proof (cases "?t = 0")
    case True
    hence "\<not> bit_at a i" if "64 * p + lo \<le> i" "i < 64 * p + n" for i
      using t [of "i - 64 * p"] assms(2) assms(3) [of "i - 64 * p"] that by auto
    thus ?thesis using True assms(4)
      by (intro next_index_eqI [symmetric]) (auto simp: found_first_def)
  next
    case False
    have at: "bit ?t (ctz ?t)" using False ctz_at [of ?t] ctz_nonzero [of ?t] by auto
    have "\<not> bit_at a i" if "64 * p + lo \<le> i" "i < 64 * p + ctz ?t" for i
      using ctz_below [of "i - 64 * p" ?t] t [of "i - 64 * p"] t [of "ctz ?t"] at assms(2)
        assms(3) [of "i - 64 * p"] that by auto
    thus ?thesis using False at t [of "ctz ?t"] assms(3)
      by (intro next_index_eqI [symmetric])
        (auto simp: found_first_def Let_def found_middle_def ffsl_def)
  qed
qed

lemma next_index_skip:
  assumes "from \<le> mid" "mid \<le> sz" "\<And>i. from \<le> i \<Longrightarrow> i < mid \<Longrightarrow> \<not> P i"
  shows "next_index P mid sz = next_index P from sz"
proof -
  have "[from..<sz] = [from..<mid] @ [mid..<sz]"
    using assms(1,2) by (metis le_add_diff_inverse upt_add_eq_append)
  moreover have "takeWhile (\<lambda>i. \<not> P i) ([from..<mid] @ [mid..<sz])
      = [from..<mid] @ takeWhile (\<lambda>i. \<not> P i) [mid..<sz]"
    using assms(3) by (intro takeWhile_append2) auto
  ultimately show ?thesis using assms(1) by (simp add: next_index_def)
qed

lemma find_bit_loop_next:
  "find_bit_loop a p (64 * p) n = next_index (bit_at a) (64 * p) (64 * p + n)"
proof (induction n arbitrary: p rule: less_induct)
  case (less n)
  have word: "bit (a p) i \<longleftrightarrow> 0 \<le> i \<and> i < 64 \<and> bit_at a (64 * p + i)" for i
    using bit_imp_le_length [of "a p" i] by (auto simp: bit_at_word)
  have ge: "n div 64 = 0 \<longleftrightarrow> n < 64" by (simp add: div_eq_0_iff)
  consider "64 \<le> n" "a p \<noteq> 0" | "64 \<le> n" "a p = 0" | "n = 0" | "0 < n" "n < 64" by linarith
  thus ?case
  proof cases
    case 1
    thus ?thesis using found_middle_next [OF _ word, of "64 * p + n"]
      by (simp add: find_bit_loop.simps [of a p] ge)
  next
    case 2
    have "\<not> bit_at a i" if "64 * p \<le> i" "i < 64 * p + 64" for i
      using word [of "i - 64 * p"] 2 that by auto
    hence "next_index (bit_at a) (64 * p + 64) (64 * p + n)
        = next_index (bit_at a) (64 * p) (64 * p + n)"
      using 2 by (intro next_index_skip) auto
    moreover have "64 * (p + 1) + (n - 64) = 64 * p + n" using 2 by simp
    ultimately show ?thesis using 2 less.IH [of "n - 64" "p + 1"]
      by (simp add: find_bit_loop.simps [of a p] ge add.commute)
  next
    case 3
    thus ?thesis by (simp add: find_bit_loop.simps [of a p] next_index_def)
  next
    case 4
    thus ?thesis using found_first_next [OF _ _ word, of n]
      by (simp add: find_bit_loop.simps [of a p] ge)
  qed
qed

lemma word_index_bounds:
  fixes p r m i :: nat
  assumes "64 * p + r = m" "m \<le> i" "i < 64 * (p + 1)"
  shows "r \<le> i - 64 * p" "i - 64 * p < 64" "64 * p + (i - 64 * p) = i"
  using assms by auto

lemma find_first_bit_next: "find_first_bit a n = next_index (bit_at a) 0 n"
  using find_bit_loop_next [of a 0 n] by (simp add: find_first_bit_def)

lemma find_next_bit_next:
  assumes "off \<le> n"
  shows "find_next_bit a n off = next_index (bit_at a) off n"
proof -
  let ?p = "off div 64" and ?o = "off mod 64"
  let ?t = "a ?p AND push_bit ?o (NOT 0)"
  have word: "bit ?t i \<longleftrightarrow> ?o \<le> i \<and> i < 64 \<and> bit_at a (64 * ?p + i)" for i
    by (auto simp: bit_at_word bit_simps dest: bit_imp_le_length)
  have off: "64 * ?p + ?o = off" by simp
  consider "off = n" | "off < n" "?o = 0" | "off < n" "?o \<noteq> 0" "n - 64 * ?p < 64"
    | "off < n" "?o \<noteq> 0" "64 \<le> n - 64 * ?p" "?t \<noteq> 0"
    | "off < n" "?o \<noteq> 0" "64 \<le> n - 64 * ?p" "?t = 0" using assms by linarith
  thus ?thesis
  proof cases
    case 2
    thus ?thesis using find_bit_loop_next [of a ?p "n - 64 * ?p"] off
      by (simp add: find_next_bit_def)
  next
    case 3
    have "?o < n - 64 * ?p" using off 3(1) by linarith
    thus ?thesis using 3 found_first_next [OF _ _ word, of "n - 64 * ?p"] off
      by (simp add: find_next_bit_def Let_def)
  next
    case 4
    thus ?thesis using found_middle_next [OF _ word, of n] off
      by (simp add: find_next_bit_def Let_def)
  next
    case 5
    have "\<not> bit_at a i" if i: "off \<le> i" "i < 64 * (?p + 1)" for i
    proof -
      have "?o \<le> i - 64 * ?p" "i - 64 * ?p < 64" "64 * ?p + (i - 64 * ?p) = i"
        using word_index_bounds [OF off i] by auto
      thus ?thesis using word [of "i - 64 * ?p"] 5 by simp
    qed
    hence "next_index (bit_at a) (64 * (?p + 1)) n = next_index (bit_at a) off n"
      using 5 off by (intro next_index_skip) auto
    thus ?thesis using 5 find_bit_loop_next [of a "?p + 1" "n - 64 * ?p - 64"]
      by (simp add: find_next_bit_def Let_def add.commute)
  qed (simp add: find_next_bit_def next_index_def)
qed

text \<open>Searching for a zero bit is searching the complemented array.\<close>

lemma found_first_zero_compl:
  assumes "0 < n" "n < 64"
  shows "found_first_zero r n tmp = found_first r n (NOT tmp)"
proof -
  have "NOT (tmp OR push_bit n (NOT 0)) = NOT tmp AND drop_bit (64 - n) (NOT 0)"
    using assms by (intro bit_eqI) (auto simp: bit_simps)
  moreover have "x = NOT 0 \<longleftrightarrow> NOT x = 0" for x :: u64
    by (metis bit.double_compl)
  ultimately show ?thesis
    by (simp only: found_first_def found_first_zero_def found_middle_def ffz_def Let_def)
qed

lemma find_zero_bit_loop_compl:
  "find_zero_bit_loop a p r n = find_bit_loop (\<lambda>i. NOT (a i)) p r n"
proof (induction a p r n rule: find_zero_bit_loop.induct)
  case (1 a p r n)
  have "n div 64 = 0 \<longleftrightarrow> n < 64" by (simp add: div_eq_0_iff)
  thus ?case using 1
    by (simp add: find_zero_bit_loop.simps [of a p] find_bit_loop.simps [of _ p]
        found_first_zero_compl found_middle_def ffz_def)
qed

lemma find_next_zero_bit_compl:
  "find_next_zero_bit a n off = find_next_bit (\<lambda>i. NOT (a i)) n off"
proof -
  let ?p = "off div 64" and ?o = "off mod 64"
  have "NOT (a ?p OR drop_bit (64 - ?o) (NOT 0)) = NOT (a ?p) AND push_bit ?o (NOT 0)" if "?o \<noteq> 0"
    using that by (intro bit_eqI) (auto simp: bit_simps)
  moreover have "0 < n - 64 * ?p" if "off < n"
    using that by (metis add_lessD1 div_mod_decomp mult.commute zero_less_diff)
  ultimately show ?thesis
    by (simp add: find_next_zero_bit_def find_next_bit_def Let_def find_zero_bit_loop_compl
        found_first_zero_compl found_middle_def ffz_def)
qed

lemma find_first_zero_bit_compl:
  "find_first_zero_bit a n = find_first_bit (\<lambda>i. NOT (a i)) n"
  by (simp add: find_first_zero_bit_def find_first_bit_def find_zero_bit_loop_compl)

lemma next_index_cong:
  assumes "\<And>i. from \<le> i \<Longrightarrow> i < sz \<Longrightarrow> P i = Q i"
  shows "next_index P from sz = next_index Q from sz"
proof -
  have "takeWhile (\<lambda>i. \<not> P i) [from..<sz] = takeWhile (\<lambda>i. \<not> Q i) [from..<sz]"
    using assms by (intro takeWhile_cong) auto
  thus ?thesis by (simp add: next_index_def)
qed

lemma bit_at_compl: "bit_at (\<lambda>i. NOT (a i)) i \<longleftrightarrow> \<not> bit_at a i"
  by (simp add: bit_at_def bit_not_iff)

lemma find_next_zero_bit_next:
  "off \<le> n \<Longrightarrow> find_next_zero_bit a n off = next_index (\<lambda>i. \<not> bit_at a i) off n"
  by (simp add: find_next_zero_bit_compl find_next_bit_next bit_at_compl [abs_def])

lemma find_first_zero_bit_next:
  "find_first_zero_bit a n = next_index (\<lambda>i. \<not> bit_at a i) 0 n"
  by (simp add: find_first_zero_bit_compl find_first_bit_next bit_at_compl [abs_def])

text \<open>The allocator's search over a whole number of words.\<close>

lemma ffz64_ex_loop_find:
  assumes "idx \<le> k"
  shows "ffz64_ex_loop a (64 * k) idx = find_zero_bit_loop a idx (64 * idx) (64 * (k - idx))"
  using assms
proof (induction "k - idx" arbitrary: idx)
  case 0
  thus ?case by (simp add: ffz64_ex_loop.simps [of a _ idx] find_zero_bit_loop.simps [of a idx])
next
  case (Suc d)
  have "a idx \<noteq> NOT 0 \<longleftrightarrow> NOT (a idx) \<noteq> 0" by (metis bit.double_compl)
  moreover have "64 * (k - idx) - 64 = 64 * (k - (idx + 1))" "64 * idx + 64 = 64 * (idx + 1)"
    by (simp_all add: right_diff_distrib')
  moreover have "idx * 64 < 64 * k" "64 * (k - idx) div 64 \<noteq> 0" "64 * (k - idx) \<noteq> 0"
    using Suc.hyps(2) by simp_all
  ultimately show ?case using Suc.hyps(1) [of "idx + 1"] Suc.hyps(2)
    by (simp only: ffz64_ex_loop.simps [of a _ idx] find_zero_bit_loop.simps [of a idx]
        ffz64_def ffz_def ffs64_def mult.commute [of idx] if_True) auto
qed

lemma ffz64_ex_next: "ffz64_ex a (64 * k) = next_index (\<lambda>i. \<not> bit_at a i) 0 (64 * k)"
  using ffz64_ex_loop_find [of 0 k a] find_first_zero_bit_next [of a "64 * k"]
  by (simp add: ffz64_ex_def find_first_zero_bit_def)

text \<open>
  What the documentation of \<open>find_first_set_bit\<close> promises is \<open>ffsl\<close> itself:
  the function is off by one, and wraps when bit 0 is set.
\<close>

lemma find_first_set_bit_off_by_one:
  "find_first_set_bit w = of_nat (ctz w) - 1"
  by (simp add: find_first_set_bit_def ffsl_def)

end
