(* ===== verification/Spinlock.thy ===== *)
theory Spinlock
  imports List_Head
begin

text \<open>
  Local interrupt masking (\<open>asm/system.h\<close>) and the ticket spinlock
  (\<open>asm/lib/spinlock.h\<close>).

  Operations of the hypervisor are modelled as run by one hart between two
  points of interference.  In such a run a lock that is found taken can never
  be released by the spinning hart itself, so \<open>spinlock_obtain\<close> returns
  \<open>None\<close>; that operations return \<open>Some\<close> shows that they do not deadlock
  on locks they hold.  What the lock gives between harts is proved on the
  interleaving of its atomic instructions: the state is the lock and, for each
  hart, whether it spins with a ticket or is inside.
\<close>

subsection \<open>Hart-local state\<close>

record hart = list_heap +
  sstatus :: u64
  pcpu_id :: nat

definition get_pcpu_id :: "'a hart_scheme \<Rightarrow> nat" where
  "get_pcpu_id s = pcpu_id s"

definition local_irq_disable :: "'a hart_scheme \<Rightarrow> 'a hart_scheme" where
  "local_irq_disable s = s\<lparr>sstatus := sstatus s AND NOT 2\<rparr>"

definition local_irq_enable :: "'a hart_scheme \<Rightarrow> 'a hart_scheme" where
  "local_irq_enable s = s\<lparr>sstatus := sstatus s OR 2\<rparr>"

definition local_irq_save :: "'a hart_scheme \<Rightarrow> u64 \<times> 'a hart_scheme" where
  "local_irq_save s = (sstatus s, local_irq_disable s)"

definition local_irq_restore :: "u64 \<Rightarrow> 'a hart_scheme \<Rightarrow> 'a hart_scheme" where
  "local_irq_restore x s = s\<lparr>sstatus := x\<rparr>"

definition local_irq_is_enabled :: "'a hart_scheme \<Rightarrow> bool" where
  "local_irq_is_enabled s = (sstatus s AND 2 = 0)"

lemma local_irq_save_restore:
  "local_irq_save s = (f, s') \<Longrightarrow> local_irq_restore f s' = s"
  by (auto simp: local_irq_save_def local_irq_restore_def local_irq_disable_def)

text \<open>\<open>local_irq_is_enabled\<close> tests the wrong polarity of the SIE bit.\<close>

lemma local_irq_is_enabled_inverted:
  "local_irq_is_enabled (local_irq_disable s)" "\<not> local_irq_is_enabled (local_irq_enable s)"
proof -
  have "(sstatus s AND NOT 2) AND 2 = 0"
    by (intro bit_eqI) (auto simp: bit_simps)
  thus "local_irq_is_enabled (local_irq_disable s)"
    by (simp add: local_irq_is_enabled_def local_irq_disable_def)
  have "bit ((sstatus s OR 2) AND 2) 1" by (simp add: bit_simps)
  thus "\<not> local_irq_is_enabled (local_irq_enable s)"
    by (auto simp: local_irq_is_enabled_def local_irq_enable_def)
qed

subsection \<open>The lock operations\<close>

record spinlock_t =
  lock_head :: u64
  lock_tail :: u64

definition spinlock_init :: spinlock_t where
  "spinlock_init = \<lparr>lock_head = 0, lock_tail = 0\<rparr>"

definition spinlock_obtain :: "spinlock_t \<Rightarrow> spinlock_t option" where
  "spinlock_obtain lock =
    (let t1 = lock_head lock; lock = lock\<lparr>lock_head := lock_head lock + 1\<rparr>
     in if t1 = lock_tail lock then Some lock else None)"

definition spinlock_release :: "spinlock_t \<Rightarrow> spinlock_t" where
  "spinlock_release lock = lock\<lparr>lock_tail := lock_tail lock + 1\<rparr>"

definition lock_free :: "spinlock_t \<Rightarrow> bool" where
  "lock_free lock \<longleftrightarrow> lock_head lock = lock_tail lock"

lemma lock_free_init [simp]: "lock_free spinlock_init"
  by (simp add: lock_free_def spinlock_init_def)

lemma lock_cycle [simp]: "lock_free (spinlock_release (l\<lparr>lock_head := lock_head l + 1\<rparr>)) \<longleftrightarrow> lock_free l"
  by (simp add: lock_free_def spinlock_release_def)

lemma spinlock_obtain_free:
  "lock_free lock \<Longrightarrow> spinlock_obtain lock = Some (lock\<lparr>lock_head := lock_head lock + 1\<rparr>)"
  by (simp add: lock_free_def spinlock_obtain_def)

lemma spinlock_obtain_SomeD:
  "spinlock_obtain lock = Some lock' \<Longrightarrow>
    lock_free lock \<and> \<not> lock_free lock' \<and> lock_free (spinlock_release lock')"
  by (auto simp: lock_free_def spinlock_obtain_def spinlock_release_def Let_def split: if_splits)

lemma spinlock_no_reentry:
  "spinlock_obtain lock = Some lock' \<Longrightarrow> spinlock_obtain lock' = None"
  by (auto simp: spinlock_obtain_def Let_def split: if_splits)

subsection \<open>Interleaved executions\<close>

datatype lock_pc = Outside | Spinning u64 | Inside

type_synonym lock_conf = "spinlock_t \<times> (nat \<Rightarrow> lock_pc)"

text \<open>
  One atomic instruction of hart \<open>h\<close>: the \<open>amoadd\<close> that draws a ticket, a load
  of the tail followed by the branch (leaving the loop or going round), and
  the \<open>amoadd\<close> of the release.
\<close>

inductive lock_step :: "nat \<Rightarrow> lock_conf \<Rightarrow> lock_conf \<Rightarrow> bool" where
  draw: "pc h = Outside \<Longrightarrow>
    lock_step h (lock, pc) (lock\<lparr>lock_head := lock_head lock + 1\<rparr>, pc(h := Spinning (lock_head lock)))"
| enter: "pc h = Spinning (lock_tail lock) \<Longrightarrow> lock_step h (lock, pc) (lock, pc(h := Inside))"
| spin: "pc h = Spinning t \<Longrightarrow> t \<noteq> lock_tail lock \<Longrightarrow> lock_step h (lock, pc) (lock, pc)"
| leave: "pc h = Inside \<Longrightarrow>
    lock_step h (lock, pc) (spinlock_release lock, pc(h := Outside))"

inductive_cases lock_stepE: "lock_step h (lock, pc) (lock', pc')"

inductive lock_reach :: "nat \<Rightarrow> lock_conf \<Rightarrow> bool" for n where
  init: "lock_reach n (spinlock_init, \<lambda>_. Outside)"
| step: "lock_reach n c \<Longrightarrow> h < n \<Longrightarrow> lock_step h c c' \<Longrightarrow> lock_reach n c'"

text \<open>
  The abstract lock is the queue of harts that have drawn a ticket.  The ticket
  of the \<open>i\<close>-th hart in the queue is \<open>tail + i\<close>, and only the first can be inside.
\<close>

definition lock_queue :: "nat \<Rightarrow> lock_conf \<Rightarrow> nat list \<Rightarrow> bool" where
  "lock_queue n c q \<longleftrightarrow> (case c of (lock, pc) \<Rightarrow>
    distinct q \<and> set q = {h. pc h \<noteq> Outside} \<and> set q \<subseteq> {..<n} \<and>
    lock_head lock = lock_tail lock + of_nat (length q) \<and>
    (\<forall>i < length q. pc (q ! i) = Spinning (lock_tail lock + of_nat i)
        \<or> (i = 0 \<and> pc (q ! i) = Inside)))"

lemma lock_queue_length: "lock_queue n c q \<Longrightarrow> length q \<le> n"
proof -
  assume "lock_queue n c q"
  hence "distinct q" "set q \<subseteq> {..<n}" by (auto simp: lock_queue_def split: prod.splits)
  thus ?thesis by (metis card_lessThan card_mono distinct_card finite_lessThan)
qed

lemma lock_queue_draw:
  assumes q: "lock_queue n (lock, pc) q" and h: "pc h = Outside" "h < n"
  shows "lock_queue n (lock\<lparr>lock_head := lock_head lock + 1\<rparr>, pc(h := Spinning (lock_head lock))) (q @ [h])"
proof -
  have "h \<notin> set q" using q h(1) by (auto simp: lock_queue_def)
  hence "\<And>i. i < length q \<Longrightarrow> q ! i \<noteq> h" by auto
  thus ?thesis using q h by (auto simp: lock_queue_def nth_append less_Suc_eq)
qed

lemma lock_queue_index:
  assumes q: "lock_queue n (lock, pc) q" and n: "n < 2 ^ 64"
    and h: "pc h = Inside \<or> pc h = Spinning (lock_tail lock)"
  shows "q \<noteq> [] \<and> hd q = h"
proof -
  have "h \<in> set q" using q h by (auto simp: lock_queue_def)
  then obtain i where i: "i < length q" "q ! i = h" by (auto simp: in_set_conv_nth)
  have "i < 2 ^ 64" using i(1) lock_queue_length [OF q] n by linarith
  hence "of_nat i = (0 :: u64) \<Longrightarrow> i = 0" using of_nat_word_eq_iff [where 'a = 64, of i 0] by simp
  moreover have "i = 0 \<or> of_nat i = (0 :: u64)"
    using q i h by (auto simp: lock_queue_def)
  ultimately have "i = 0" by blast
  thus ?thesis using i by (cases q) auto
qed

lemma lock_queue_enter:
  assumes q: "lock_queue n (lock, pc) q" and n: "n < 2 ^ 64" and h: "pc h = Spinning (lock_tail lock)"
  shows "lock_queue n (lock, pc(h := Inside)) q"
proof -
  obtain q' where q': "q = h # q'" using lock_queue_index [OF q n] h by (cases q) auto
  have "pc (q ! i) = Spinning (lock_tail lock + of_nat i)" "q ! i \<noteq> h" if "i < length q" "i \<noteq> 0" for i
    using q q' that by (auto simp: lock_queue_def nth_Cons split: nat.splits)
  hence "\<forall>i < length q. (pc(h := Inside)) (q ! i) = Spinning (lock_tail lock + of_nat i)
      \<or> (i = 0 \<and> (pc(h := Inside)) (q ! i) = Inside)"
    using q' by (metis fun_upd_apply nth_Cons_0)
  moreover have "{x. (pc(h := Inside)) x \<noteq> Outside} = {x. pc x \<noteq> Outside}" using h by auto
  ultimately show ?thesis using q unfolding lock_queue_def prod.case by (elim conjE, intro conjI) simp_all
qed

lemma lock_queue_leave:
  assumes q: "lock_queue n (lock, pc) q" and n: "n < 2 ^ 64" and h: "pc h = Inside"
  shows "lock_queue n (spinlock_release lock, pc(h := Outside)) (tl q)"
proof -
  obtain q' where q': "q = h # q'" using lock_queue_index [OF q n] h by (cases q) auto
  hence ne: "\<And>i. i < length q' \<Longrightarrow> q' ! i \<noteq> h" "h \<notin> set q'"
    using q by (auto simp: lock_queue_def)
  have "pc (q' ! i) = Spinning (lock_tail lock + 1 + of_nat i)" if "i < length q'" for i
    using q that unfolding lock_queue_def q' by (force simp: add.assoc)
  thus ?thesis
    using q ne unfolding q' by (auto simp: lock_queue_def spinlock_release_def)
qed

lemma lock_step_queue:
  assumes "lock_queue n c q" and "n < 2 ^ 64" and "h < n" and "lock_step h c c'"
  shows "lock_queue n c' q \<or> lock_queue n c' (q @ [h]) \<or> q \<noteq> [] \<and> hd q = h \<and> lock_queue n c' (tl q)"
  using assms(4,1,2,3)
  by cases (auto dest: lock_queue_draw lock_queue_enter lock_queue_leave lock_queue_index)

lemma lock_reach_queue:
  assumes "lock_reach n c" and "n < 2 ^ 64"
  shows "\<exists>q. lock_queue n c q"
  using assms(1)
proof induction
  case init
  have "lock_queue n (spinlock_init, \<lambda>_. Outside) []"
    by (simp add: lock_queue_def spinlock_init_def)
  thus ?case ..
next
  case (step c h c')
  thus ?case using lock_step_queue [OF _ assms(2)] by blast
qed

lemma lock_mutual_exclusion:
  assumes "lock_reach n (lock, pc)" and "n < 2 ^ 64" and "pc h = Inside" and "pc h' = Inside"
  shows "h = h'"
  using lock_reach_queue [OF assms(1,2)] lock_queue_index [OF _ assms(2)] assms(3,4) by blast

text \<open>
  Whoever heads the queue is inside or can enter with its next load, so the
  lock is never lost; and it is granted in the order of the tickets.
\<close>

lemma lock_queue_head_enabled:
  assumes "lock_queue n (lock, pc) (h # q)" and "pc h \<noteq> Inside"
  shows "lock_step h (lock, pc) (lock, pc(h := Inside))"
proof -
  have "pc h = Spinning (lock_tail lock)" using assms by (force simp: lock_queue_def)
  thus ?thesis by (rule enter)
qed

end
