(* ===== verification/Timer.thy ===== *)
theory Timer
  imports Spinlock "HOL-Library.Monad_Syntax"
begin

text \<open>
  Tick arithmetic (\<open>common/ticks.c\<close>) and the per-hart timer queue
  (\<open>arch/riscv/timer.c\<close>, \<open>include/common/timer.h\<close>).

  A \<open>struct hv_timer\<close> is identified with the address of its \<open>node\<close>, its first
  member; \<open>timers\<close> holds the other members.  The null pointer is 0.  The clock
  is read by memory-mapped I/O: \<open>mtime_at k\<close> is what the \<open>k\<close>-th read
  returns.  Callbacks are function pointers; \<open>call f d s\<close> runs the callback
  \<open>f\<close> with argument \<open>d\<close>, and is a parameter of the handler.
\<close>

subsection \<open>State\<close>

datatype tick_mode = TICK_MODE_ONESHOT | TICK_MODE_PERIODIC

record hv_timer =
  timer_mode :: tick_mode
  timeout :: u64
  period_in_cycle :: u64
  timer_func :: "nat option"
  priv_data :: nat

record timer_state = hart +
  timers :: "addr \<Rightarrow> hv_timer"
  timer_list :: "nat \<Rightarrow> addr"
  mtimecmp :: "nat \<Rightarrow> u64"
  mtime_at :: "nat \<Rightarrow> u64"
  mtime_reads :: nat
  cpu_khz :: u64
  boot_count :: u64

type_synonym 'a callback = "nat \<Rightarrow> nat \<Rightarrow> 'a timer_state_scheme \<Rightarrow> 'a timer_state_scheme option"

definition upd_timer :: "addr \<Rightarrow> (hv_timer \<Rightarrow> hv_timer) \<Rightarrow> 'a timer_state_scheme \<Rightarrow> 'a timer_state_scheme" where
  "upd_timer t f s = s\<lparr>timers := (timers s)(t := f (timers s t))\<rparr>"

subsection \<open>Ticks\<close>

definition NR_CPUS :: nat where "NR_CPUS = 4"
definition MAX_TIMER_ACTIONS :: u32 where "MAX_TIMER_ACTIONS = 32"
definition MIN_TIMER_PERIOD_US :: u32 where "MIN_TIMER_PERIOD_US = 500"
definition QEMU_CPUFREQ :: u64 where "QEMU_CPUFREQ = 0x1000000"
definition CLINT_DISABLE_TIMER :: u64 where "CLINT_DISABLE_TIMER = 0xffffffff"

definition get_cpu_khz :: u64 where
  "get_cpu_khz = QEMU_CPUFREQ div 1000"

definition cpu_tickrate :: "'a timer_state_scheme \<Rightarrow> u32" where
  "cpu_tickrate s = ucast (cpu_khz s)"

definition us_to_ticks :: "'a timer_state_scheme \<Rightarrow> u32 \<Rightarrow> u64" where
  "us_to_ticks s us = (ucast us * ucast (cpu_tickrate s)) div 1000"

definition ticks_to_us :: "'a timer_state_scheme \<Rightarrow> u64 \<Rightarrow> u64" where
  "ticks_to_us s ticks =
    (let khz = ucast (cpu_tickrate s) in if khz \<noteq> 0 then (ticks * 1000) div khz else 0)"

definition TICKS_PER_MS :: "'a timer_state_scheme \<Rightarrow> u64" where
  "TICKS_PER_MS s = us_to_ticks s 1000"

definition get_tick :: "'a timer_state_scheme \<Rightarrow> u64 \<times> 'a timer_state_scheme" where
  "get_tick s = (mtime_at s (mtime_reads s), s\<lparr>mtime_reads := mtime_reads s + 1\<rparr>)"

definition cpu_ticks :: "'a timer_state_scheme \<Rightarrow> u64 \<times> 'a timer_state_scheme" where
  "cpu_ticks s = get_tick s"

subsection \<open>Timer operations\<close>

definition set_deadline :: "u64 \<Rightarrow> 'a timer_state_scheme \<Rightarrow> 'a timer_state_scheme" where
  "set_deadline deadline s =
    (let cpu = get_pcpu_id s; (ticks, s) = get_tick s;
         deadline = (if deadline < ticks then ticks + us_to_ticks s MIN_TIMER_PERIOD_US else deadline)
     in s\<lparr>mtimecmp := (mtimecmp s)(cpu := deadline)\<rparr>)"

definition update_physical_timer :: "addr \<Rightarrow> 'a timer_state_scheme \<Rightarrow> 'a timer_state_scheme" where
  "update_physical_timer l s =
    (if \<not> list_empty s l then set_deadline (timeout (timers s (lnext s l))) s else s)"

text \<open>The search of \<open>local_add_timer\<close>: the last node with an earlier timeout.\<close>

partial_function (option) local_add_timer_pos ::
  "'a timer_state_scheme \<Rightarrow> addr \<Rightarrow> u64 \<Rightarrow> addr \<Rightarrow> addr \<Rightarrow> addr option" where
  "local_add_timer_pos s l tick prev pos =
    (if pos = l then Some prev
     else if timeout (timers s pos) < tick then local_add_timer_pos s l tick pos (lnext s pos)
     else Some prev)"

declare local_add_timer_pos.simps [code]

definition local_add_timer ::
  "addr \<Rightarrow> addr \<Rightarrow> 'a timer_state_scheme \<Rightarrow> (bool \<times> 'a timer_state_scheme) option" where
  "local_add_timer l timer s = do {
     prev \<leftarrow> local_add_timer_pos s l (timeout (timers s timer)) l (lnext s l);
     Some (prev = l, list_add timer prev s)
   }"

definition del_timer :: "addr \<Rightarrow> 'a timer_state_scheme \<Rightarrow> 'a timer_state_scheme" where
  "del_timer timer s =
    (let (rflags, s) = local_irq_save s;
         s = (if timer \<noteq> 0 \<and> \<not> list_empty s timer then list_del_init timer s else s)
     in local_irq_restore rflags s)"

definition add_timer :: "addr \<Rightarrow> 'a timer_state_scheme \<Rightarrow> (int \<times> 'a timer_state_scheme) option" where
  "add_timer timer s =
    (if timer = 0 \<or> timer_func (timers s timer) = None \<or> timeout (timers s timer) = 0
     then Some (-1, s)
     else
       let s = (if timer_mode (timers s timer) = TICK_MODE_PERIODIC
                then upd_timer timer (\<lambda>t. t\<lparr>period_in_cycle :=
                       max (period_in_cycle t) (us_to_ticks s MIN_TIMER_PERIOD_US)\<rparr>) s
                else s);
           l = timer_list s (get_pcpu_id s);
           (rflags, s) = local_irq_save s
       in do {
         (at_head, s) \<leftarrow> local_add_timer l timer s;
         let s = (if at_head then update_physical_timer l s else s);
         Some (0, local_irq_restore rflags s)
       })"

definition run_timer :: "'a callback \<Rightarrow> addr \<Rightarrow> 'a timer_state_scheme \<Rightarrow> 'a timer_state_scheme option" where
  "run_timer call timer s =
    (case timer_func (timers s timer) of
       Some f \<Rightarrow> if timeout (timers s timer) \<noteq> 0 then call f (priv_data (timers s timer)) s else Some s
     | None \<Rightarrow> Some s)"

text \<open>The body of the handler's loop for the timer \<open>pos\<close>.\<close>

definition timer_service ::
  "'a callback \<Rightarrow> addr \<Rightarrow> addr \<Rightarrow> 'a timer_state_scheme \<Rightarrow> 'a timer_state_scheme option" where
  "timer_service call l pos s = do {
     s \<leftarrow> run_timer call pos (del_timer pos s);
     if timer_mode (timers s pos) = TICK_MODE_PERIODIC
     then do {
       let (now, s) = get_tick s;
       (at_head, s) \<leftarrow> local_add_timer l pos
         (upd_timer pos (\<lambda>t. t\<lparr>timeout := now + period_in_cycle t\<rparr>) s);
       Some s
     }
     else Some s
   }"

partial_function (option) timer_loop ::
  "'a callback \<Rightarrow> u64 \<Rightarrow> addr \<Rightarrow> addr \<Rightarrow> addr \<Rightarrow> u32 \<Rightarrow> 'a timer_state_scheme \<Rightarrow> 'a timer_state_scheme option" where
  "timer_loop call current_tick l pos n tries s =
    (if pos = l then Some s
     else do {
       s \<leftarrow> (if timeout (timers s pos) \<le> current_tick \<and> tries - 1 \<noteq> 0
             then timer_service call l pos s else Some s);
       timer_loop call current_tick l n (lnext s n) (tries - 1) s
     })"

declare timer_loop.simps [code]

definition timer_deadline_handler ::
  "'a callback \<Rightarrow> nat \<Rightarrow> 'a timer_state_scheme \<Rightarrow> 'a timer_state_scheme option" where
  "timer_deadline_handler call cpu s = do {
     let (current_tick, s) = get_tick s;
     let l = timer_list s cpu;
     let pos = lnext s l;
     s \<leftarrow> timer_loop call current_tick l pos (lnext s pos) MAX_TIMER_ACTIONS s;
     Some (update_physical_timer l s)
   }"

definition hv_timer_handler :: "'a callback \<Rightarrow> 'a timer_state_scheme \<Rightarrow> 'a timer_state_scheme option" where
  "hv_timer_handler call s = timer_deadline_handler call (get_pcpu_id s) s"

definition preinit_timer :: "'a timer_state_scheme \<Rightarrow> 'a timer_state_scheme" where
  "preinit_timer s =
    (let s = s\<lparr>cpu_khz := get_cpu_khz\<rparr>; (t, s) = get_tick s; s = s\<lparr>boot_count := t\<rparr>
     in s\<lparr>mtimecmp := (\<lambda>i. if i < NR_CPUS then CLINT_DISABLE_TIMER else mtimecmp s i)\<rparr>)"

definition timer_init :: "'a timer_state_scheme \<Rightarrow> 'a timer_state_scheme" where
  "timer_init s = INIT_LIST_HEAD (timer_list s (get_pcpu_id s)) s"

definition initialize_timer ::
  "addr \<Rightarrow> nat option \<Rightarrow> nat \<Rightarrow> u64 \<Rightarrow> u64 \<Rightarrow> 'a timer_state_scheme \<Rightarrow> 'a timer_state_scheme" where
  "initialize_timer timer func data tmo period s =
    (if timer \<noteq> 0 then
       INIT_LIST_HEAD timer (upd_timer timer (\<lambda>t.
         let t = t\<lparr>timer_func := func, priv_data := data, timeout := tmo\<rparr>
         in if period > 0
            then t\<lparr>timer_mode := TICK_MODE_PERIODIC, period_in_cycle := period\<rparr>
            else t\<lparr>timer_mode := TICK_MODE_ONESHOT, period_in_cycle := 0\<rparr>) s)
     else s)"

subsection \<open>Frames\<close>

lemma dll_cong: "lnext s = lnext s' \<Longrightarrow> lprev s = lprev s' \<Longrightarrow> dll s l xs = dll s' l xs"
  using dll_frame [of s l xs s'] dll_frame [of s' l xs s] by auto

lemma dll_upd [simp]:
  "dll (s\<lparr>sstatus := a\<rparr>) l xs = dll s l xs" "dll (s\<lparr>timers := b\<rparr>) l xs = dll s l xs"
  "dll (s\<lparr>mtime_reads := c\<rparr>) l xs = dll s l xs" "dll (s\<lparr>mtimecmp := d\<rparr>) l xs = dll s l xs"
  by (rule dll_cong; simp)+

text \<open>List operations leave the members outside the links alone.\<close>

lemma list_op_timer_fields [simp]:
  "timers (list_add n p s) = timers s" "timers (list_del_init e s) = timers s"
  "timer_list (list_add n p s) = timer_list s" "timer_list (list_del_init e s) = timer_list s"
  "mtime_at (list_add n p s) = mtime_at s" "mtime_at (list_del_init e s) = mtime_at s"
  "mtime_reads (list_add n p s) = mtime_reads s" "mtime_reads (list_del_init e s) = mtime_reads s"
  "pcpu_id (list_add n p s) = pcpu_id s" "pcpu_id (list_del_init e s) = pcpu_id s"
  "cpu_khz (list_add n p s) = cpu_khz s" "cpu_khz (list_del_init e s) = cpu_khz s"
  by (simp_all add: list_add_def list_del_init_def heap_simps)

lemma links_upd_timer [simp]:
  "lnext (upd_timer t f s) = lnext s" "lprev (upd_timer t f s) = lprev s"
  "dll (upd_timer t f s) l xs = dll s l xs"
  by (simp_all add: upd_timer_def)

lemma upd_timer_fields [simp]:
  "timers (upd_timer t f s) = (timers s)(t := f (timers s t))"
  "timer_list (upd_timer t f s) = timer_list s" "mtime_at (upd_timer t f s) = mtime_at s"
  "mtime_reads (upd_timer t f s) = mtime_reads s" "pcpu_id (upd_timer t f s) = pcpu_id s"
  by (simp_all add: upd_timer_def)

lemma del_timer_eq:
  "del_timer t s = (if t \<noteq> 0 \<and> \<not> list_empty s t then list_del_init t s else s)"
  by (simp add: del_timer_def local_irq_save_def local_irq_restore_def local_irq_disable_def
      list_empty_def list_del_init_def heap_simps)

text \<open>
  \<open>timer_frame N s s'\<close>: \<open>s'\<close> is \<open>s\<close> up to the links and timer members of the nodes
  in \<open>N\<close>, the number of clock reads and the programmed deadlines.
\<close>

definition timer_frame :: "addr set \<Rightarrow> 'a timer_state_scheme \<Rightarrow> 'a timer_state_scheme \<Rightarrow> bool" where
  "timer_frame N s s' \<longleftrightarrow>
    sstatus s' = sstatus s \<and> pcpu_id s' = pcpu_id s \<and> timer_list s' = timer_list s \<and>
    mtime_at s' = mtime_at s \<and> cpu_khz s' = cpu_khz s \<and> boot_count s' = boot_count s \<and>
    timer_state.more s' = timer_state.more s \<and>
    (\<forall>a. a \<notin> N \<longrightarrow> lnext s' a = lnext s a \<and> lprev s' a = lprev s a \<and> timers s' a = timers s a) \<and>
    mtime_reads s \<le> mtime_reads s'"

lemma timer_frame_refl [simp]: "timer_frame N s s"
  by (simp add: timer_frame_def)

lemma timer_frame_trans:
  "timer_frame N s s' \<Longrightarrow> timer_frame N s' s'' \<Longrightarrow> timer_frame N s s''"
  by (auto simp: timer_frame_def)

lemma timer_frame_get_tick: "timer_frame N s (snd (get_tick s))"
  by (simp add: timer_frame_def get_tick_def)

lemma timer_frame_upd_timer: "t \<in> N \<Longrightarrow> timer_frame N s (upd_timer t f s)"
  by (auto simp: timer_frame_def upd_timer_def)

lemma timer_frame_list_add:
  "n \<in> N \<Longrightarrow> p \<in> N \<Longrightarrow> lnext s p \<in> N \<Longrightarrow> timer_frame N s (list_add n p s)"
  by (auto simp: timer_frame_def list_add_def heap_simps)

lemma timer_frame_list_del_init:
  "e \<in> N \<Longrightarrow> lnext s e \<in> N \<Longrightarrow> lprev s e \<in> N \<Longrightarrow> timer_frame N s (list_del_init e s)"
  by (auto simp: timer_frame_def list_del_init_def heap_simps)

lemma timer_frame_set_deadline: "timer_frame N s (set_deadline d s)"
  by (simp add: timer_frame_def set_deadline_def get_tick_def Let_def)

lemma timer_frame_update_physical_timer: "timer_frame N s (update_physical_timer l s)"
  by (simp add: update_physical_timer_def timer_frame_set_deadline)

lemma set_deadline_links [simp]:
  "lnext (set_deadline d s) = lnext s" "lprev (set_deadline d s) = lprev s"
  "timers (set_deadline d s) = timers s"
  by (simp_all add: set_deadline_def get_tick_def Let_def)

lemma update_physical_timer_links [simp]:
  "dll (update_physical_timer l s) m xs = dll s m xs"
  "timers (update_physical_timer l s) = timers s"
  by (rule dll_cong; simp add: update_physical_timer_def) (simp add: update_physical_timer_def)

subsection \<open>Sorted insertion\<close>

abbreviation timeout_of :: "'a timer_state_scheme \<Rightarrow> addr \<Rightarrow> u64" where
  "timeout_of s x \<equiv> timeout (timers s x)"

definition timer_insert :: "(addr \<Rightarrow> u64) \<Rightarrow> addr \<Rightarrow> addr list \<Rightarrow> addr list" where
  "timer_insert d t xs = takeWhile (\<lambda>x. d x < d t) xs @ t # dropWhile (\<lambda>x. d x < d t) xs"

lemma set_timer_insert [simp]: "set (timer_insert d t xs) = insert t (set xs)"
proof -
  have "set xs = set (takeWhile (\<lambda>x. d x < d t) xs) \<union> set (dropWhile (\<lambda>x. d x < d t) xs)"
    by (simp flip: set_append)
  thus ?thesis by (simp add: timer_insert_def)
qed

lemma sorted_timer_insert:
  assumes "sorted (map d xs)" shows "sorted (map d (timer_insert d t xs))"
proof -
  let ?P = "\<lambda>x. d x < d t"
  have split: "map d xs = map d (takeWhile ?P xs) @ map d (dropWhile ?P xs)"
    by (simp flip: map_append)
  hence s: "sorted (map d (takeWhile ?P xs))" "sorted (map d (dropWhile ?P xs))"
    "\<forall>x \<in> set (takeWhile ?P xs). \<forall>y \<in> set (dropWhile ?P xs). d x \<le> d y"
    using assms by (auto simp: sorted_append)
  have "d t \<le> d y" if "y \<in> set (dropWhile ?P xs)" for y
  proof (cases "dropWhile ?P xs")
    case Nil
    thus ?thesis using that by (metis empty_iff list.set(1))
  next
    case (Cons z zs)
    hence "d t \<le> d z" by (simp add: dropWhile_eq_Cons_conv not_less)
    thus ?thesis using that Cons s(2) by auto
  qed
  moreover have "d x < d t" if "x \<in> set (takeWhile ?P xs)" for x
    using that by (rule set_takeWhileD [THEN conjunct2])
  ultimately show ?thesis
    using s unfolding timer_insert_def
    by (simp only: map_append list.map sorted_append sorted_simps set_map list.set) fastforce
qed

lemma timer_insert_append:
  "\<forall>x \<in> set xs. d x < d t \<Longrightarrow> timer_insert d t (xs @ ys) = xs @ timer_insert d t ys"
  by (simp add: timer_insert_def takeWhile_append2 dropWhile_append2)

lemma timer_insert_resume:
  "\<exists>ks rest. timer_insert d e U = ks @ rest \<and> hd (rest @ [l]) = hd (U @ [l])"
proof (cases "takeWhile (\<lambda>x. d x < d e) U")
  case Nil
  hence "dropWhile (\<lambda>x. d x < d e) U = U"
    using takeWhile_dropWhile_id [of "\<lambda>x. d x < d e" U] by simp
  hence "timer_insert d e U = [e] @ U" using Nil by (simp add: timer_insert_def)
  thus ?thesis by blast
next
  case (Cons x xs)
  then obtain ys where "U = x # ys" using takeWhile_dropWhile_id [of "\<lambda>x. d x < d e" U] by (metis append_Cons)
  hence "timer_insert d e U = [] @ timer_insert d e U" "hd (timer_insert d e U @ [l]) = hd (U @ [l])"
    using Cons by (simp_all add: timer_insert_def)
  thus ?thesis by blast
qed

text \<open>The search ends at the last node of the prefix of earlier timeouts.\<close>

lemma local_add_timer_pos_eq:
  assumes "dll s l (xs @ ys)" and "\<forall>x \<in> set xs. timeout_of s x < tick"
  shows "local_add_timer_pos s l tick (last (l # xs)) (hd (ys @ [l]))
    = Some (last (l # xs @ takeWhile (\<lambda>x. timeout_of s x < tick) ys))"
  using assms
proof (induction ys arbitrary: xs)
  case Nil
  show ?case by (simp add: local_add_timer_pos.simps)
next
  case (Cons y ys)
  have y: "y \<noteq> l" "lnext s y = hd (ys @ [l])"
    using Cons.prems(1) list_del_node_dll(2) [OF Cons.prems(1)] by (auto simp: dll_def)
  show ?case
  proof (cases "timeout_of s y < tick")
    case True
    have "dll s l ((xs @ [y]) @ ys)" "\<forall>x \<in> set (xs @ [y]). timeout_of s x < tick"
      using Cons.prems True by auto
    from Cons.IH [OF this] show ?thesis
      using y True by (subst local_add_timer_pos.simps) simp
  next
    case False
    thus ?thesis using y by (subst local_add_timer_pos.simps) simp
  qed
qed

lemma local_add_timer_eq:
  assumes "dll s l xs" and "t \<notin> set (l # xs)"
  defines "p \<equiv> takeWhile (\<lambda>x. timeout_of s x < timeout_of s t) xs"
  shows "local_add_timer l t s = Some (p = [], list_add t (last (l # p)) s)"
    and "dll (list_add t (last (l # p)) s) l (timer_insert (timeout_of s) t xs)"
proof -
  have x: "xs = p @ dropWhile (\<lambda>x. timeout_of s x < timeout_of s t) xs"
    by (simp add: p_def)
  show "dll (list_add t (last (l # p)) s) l (timer_insert (timeout_of s) t xs)"
    using list_add_dll [of s l p "dropWhile (\<lambda>x. timeout_of s x < timeout_of s t) xs"] assms x
    by (simp add: timer_insert_def)
  have "local_add_timer_pos s l (timeout_of s t) l (lnext s l) = Some (last (l # p))"
    using local_add_timer_pos_eq [of s l "[]" xs "timeout_of s t"] assms(1) dll_split [of s l "[]" xs]
    by (simp add: p_def)
  moreover have "last (l # p) = l \<longleftrightarrow> p = []"
  proof (cases p rule: rev_cases)
    case (snoc ps q)
    hence "q \<in> set xs" using set_takeWhileD [of q] unfolding p_def by (metis in_set_conv_decomp)
    thus ?thesis using snoc dll_distinct [OF assms(1)] by auto
  qed simp
  ultimately show "local_add_timer l t s = Some (p = [], list_add t (last (l # p)) s)"
    by (simp add: local_add_timer_def)
qed

subsection \<open>Servicing expired timers\<close>

text \<open>What the timer code relies on in its callbacks: they leave the timers alone.\<close>

definition timers_kept :: "addr set \<Rightarrow> 'a timer_state_scheme \<Rightarrow> 'a timer_state_scheme \<Rightarrow> bool" where
  "timers_kept N s s' \<longleftrightarrow>
    (\<forall>a \<in> N. lnext s' a = lnext s a \<and> lprev s' a = lprev s a \<and> timers s' a = timers s a) \<and>
    timer_list s' = timer_list s \<and> mtime_at s' = mtime_at s \<and> cpu_khz s' = cpu_khz s \<and>
    pcpu_id s' = pcpu_id s \<and> mtime_reads s \<le> mtime_reads s'"

lemma timers_kept_dll: "timers_kept N s s' \<Longrightarrow> dll s l xs \<Longrightarrow> set (l # xs) \<subseteq> N \<Longrightarrow> dll s' l xs"
  by (rule dll_frame [of s]) (auto simp: timers_kept_def)

text \<open>
  \<open>timer_trace call N es s s'\<close>: an execution from \<open>s\<close> to \<open>s'\<close> that runs the callbacks
  \<open>es\<close> in this order and otherwise only does timer bookkeeping.
\<close>

inductive timer_trace ::
  "'a callback \<Rightarrow> addr set \<Rightarrow> (nat \<times> nat) list \<Rightarrow> 'a timer_state_scheme \<Rightarrow> 'a timer_state_scheme \<Rightarrow> bool"
  for call N where
  quiet: "timer_frame N s s' \<Longrightarrow> timer_trace call N [] s s'"
| fire: "timer_frame N s s1 \<Longrightarrow> call f d s1 = Some s2 \<Longrightarrow> timer_trace call N es s2 s' \<Longrightarrow>
    timer_trace call N ((f, d) # es) s s'"

lemma timer_trace_frame:
  "timer_trace call N es s s' \<Longrightarrow> timer_frame N s0 s \<Longrightarrow> timer_trace call N es s0 s'"
  by (cases rule: timer_trace.cases) (auto intro: timer_trace.intros timer_frame_trans)

lemma timer_trace_frame_end:
  "timer_trace call N es s s' \<Longrightarrow> timer_frame N s' s'' \<Longrightarrow> timer_trace call N es s s''"
  by (induction rule: timer_trace.induct) (auto intro: timer_trace.intros timer_frame_trans)

definition timer_cb :: "'a timer_state_scheme \<Rightarrow> addr \<Rightarrow> nat \<times> nat" where
  "timer_cb s x = (the (timer_func (timers s x)), priv_data (timers s x))"

text \<open>A timer that can be queued: it has a callback and a deadline.\<close>

definition timer_armed :: "'a timer_state_scheme \<Rightarrow> addr \<Rightarrow> bool" where
  "timer_armed s x \<longleftrightarrow> timer_func (timers s x) \<noteq> None \<and> timeout_of s x \<noteq> 0"

definition is_periodic :: "'a timer_state_scheme \<Rightarrow> addr \<Rightarrow> bool" where
  "is_periodic s x \<longleftrightarrow> timer_mode (timers s x) = TICK_MODE_PERIODIC"

text \<open>The queue of a hart: nodes linked in deadline order, all armed.\<close>

definition timer_queue :: "'a timer_state_scheme \<Rightarrow> addr \<Rightarrow> addr list \<Rightarrow> bool" where
  "timer_queue s l xs \<longleftrightarrow>
    dll s l xs \<and> 0 \<notin> set xs \<and> sorted (map (timeout_of s) xs) \<and> (\<forall>x \<in> set xs. timer_armed s x)"

lemma dll_get_tick [simp]: "dll (snd (get_tick s)) l xs = dll s l xs"
  by (rule dll_cong) (simp_all add: get_tick_def)

lemma dropWhile_sorted_gt:
  fixes d :: "'b \<Rightarrow> 'c::linorder"
  assumes "sorted (map d xs)" shows "\<forall>x \<in> set (dropWhile (\<lambda>x. d x \<le> c) xs). c < d x"
  using assms by (induction xs) (auto simp: not_le intro: less_le_trans)

fun timer_served :: "u32 \<Rightarrow> 'b list \<Rightarrow> 'b list" where
  "timer_served tries [] = []"
| "timer_served tries (x # xs) =
    (if tries - 1 \<noteq> 0 then x # timer_served (tries - 1) xs else timer_served (tries - 1) xs)"

fun timer_skipped :: "u32 \<Rightarrow> 'b list \<Rightarrow> 'b list" where
  "timer_skipped tries [] = []"
| "timer_skipped tries (x # xs) =
    (if tries - 1 \<noteq> 0 then timer_skipped (tries - 1) xs else x # timer_skipped (tries - 1) xs)"

lemma set_timer_served: "set (timer_served tries xs) \<subseteq> set xs"
  by (induction tries xs rule: timer_served.induct) auto

lemma timer_served_all:
  "length xs \<le> k \<Longrightarrow> k < 2 ^ 32 \<Longrightarrow> timer_served (of_nat k + 1) xs = xs \<and> timer_skipped (of_nat k + 1) xs = []"
proof (induction xs arbitrary: k)
  case (Cons x xs)
  then obtain j where k: "k = Suc j" by (cases k) auto
  have "(of_nat k :: u32) \<noteq> 0"
    using of_nat_word_eq_iff [where 'a = 32, of k 0] Cons.prems k by simp
  moreover have "(of_nat k :: u32) = of_nat j + 1" by (simp add: k add.commute)
  ultimately show ?case using Cons.IH [of j] Cons.prems k by (simp add: add.commute)
qed simp

lemma timer_served_split:
  assumes "k < 2 ^ 32" "k < length xs" "length xs \<le> 2 ^ 32 + k"
  shows "timer_served (of_nat k + 1) xs = take k xs @ drop (Suc k) xs
    \<and> timer_skipped (of_nat k + 1) xs = [xs ! k]"
  using assms
proof (induction k arbitrary: xs)
  case 0
  then obtain y ys where xs: "xs = y # ys" by (cases xs) auto
  have z: "(of_nat (2 ^ 32 - 1) + 1 :: u32) = 0" by simp
  have "timer_served 0 ys = ys \<and> timer_skipped 0 ys = []"
    by (rule timer_served_all [of ys "2 ^ 32 - 1", unfolded z]) (use 0 xs in simp_all)
  thus ?case using xs by simp
next
  case (Suc k)
  then obtain y ys where xs: "xs = y # ys" by (cases xs) auto
  have "(of_nat (Suc k) :: u32) \<noteq> 0"
    using of_nat_word_eq_iff [where 'a = 32, of "Suc k" 0] Suc.prems by simp
  moreover have "(of_nat (Suc k) :: u32) = of_nat k + 1" by (simp add: add.commute)
  ultimately show ?case using Suc.IH [of ys] Suc.prems xs by (simp add: add.commute)
qed

locale timer_client =
  fixes call :: "'a callback" and N :: "addr set" and I :: "'a timer_state_scheme \<Rightarrow> bool"
  assumes call_ok: "I s \<Longrightarrow> \<exists>s'. call f d s = Some s' \<and> I s' \<and> timers_kept N s s'"
    and frame_ok: "I s \<Longrightarrow> timer_frame N s s' \<Longrightarrow> I s'"
begin

lemma timer_service_runs:
  assumes d: "dll s l (ks @ e # R)" and N: "set (l # ks @ e # R) \<subseteq> N" and e: "e \<noteq> 0" "timer_armed s e" and I: "I s"
  obtains s1 s2 where "timer_frame N s s1" "call (fst (timer_cb s e)) (snd (timer_cb s e)) s1 = Some s2"
    "I s2" "timers_kept N s1 s2" "dll s2 l (ks @ R)" "unlinked s2 e" "\<forall>a \<in> N. timers s2 a = timers s a"
    "run_timer call e (del_timer e s) = Some s2"
proof -
  let ?s1 = "list_del_init e s"
  have del: "del_timer e s = ?s1"
  proof -
    have "lnext s e = hd (R @ [l])" using list_del_node_dll(2) [of s l ks e R] d by simp
    moreover have "hd (R @ [l]) \<noteq> e" using d by (cases R) (auto simp: dll_def)
    ultimately show ?thesis using e by (simp add: del_timer_eq list_empty_def)
  qed
  have "last (l # ks) \<in> N" "hd (R @ [l]) \<in> N"
    using N last_in_Cons_set [of l ks] by (auto simp del: last.simps) (cases R; auto)+
  hence "lnext s e \<in> N" "lprev s e \<in> N"
    by (simp_all only: list_del_node_dll(1,2) [OF d])
  hence f: "timer_frame N s ?s1" using N by (intro timer_frame_list_del_init) auto
  obtain s2 where s2: "call (fst (timer_cb s e)) (snd (timer_cb s e)) ?s1 = Some s2"
    "I s2" "timers_kept N ?s1 s2"
    using call_ok [OF frame_ok [OF I f]] by blast
  have "dll ?s1 l (ks @ R)" "unlinked ?s1 e" using list_del_init_dll [of s l ks e R] d by simp_all
  hence "dll s2 l (ks @ R)" "unlinked s2 e" using timers_kept_dll [OF s2(3)] N by simp_all
  moreover have "run_timer call e ?s1 = Some s2"
    using s2(1) e by (auto simp: run_timer_def timer_armed_def timer_cb_def)
  moreover have "\<forall>a \<in> N. timers s2 a = timers s a" using s2(3) by (simp add: timers_kept_def)
  ultimately show ?thesis using that f s2 del by metis
qed

lemma timer_service_step:
  assumes d: "dll s l (ks @ e # R)" and N: "set (l # ks @ e # R) \<subseteq> N" and e: "e \<noteq> 0" "timer_armed s e" and I: "I s"
  obtains s' where "timer_service call l e s = Some s'" "I s'"
    "\<forall>a \<in> N - {e}. timers s' a = timers s a" "mtime_at s' = mtime_at s" "mtime_reads s \<le> mtime_reads s'"
    "\<And>es s''. timer_trace call N es s' s'' \<Longrightarrow> timer_trace call N (timer_cb s e # es) s s''"
    "\<not> is_periodic s e \<Longrightarrow> dll s' l (ks @ R)"
    "is_periodic s e \<Longrightarrow> dll s' l (timer_insert (timeout_of s') e (ks @ R))"
    "is_periodic s e \<Longrightarrow> \<exists>k \<ge> mtime_reads s.
       timers s' e = (timers s e)\<lparr>timeout := mtime_at s k + period_in_cycle (timers s e)\<rparr>"
proof -
  obtain s1 s2 where s1: "timer_frame N s s1" "call (fst (timer_cb s e)) (snd (timer_cb s e)) s1 = Some s2"
    and s2: "I s2" "timers_kept N s1 s2" "dll s2 l (ks @ R)" "unlinked s2 e" "\<forall>a \<in> N. timers s2 a = timers s a"
    and run: "run_timer call e (del_timer e s) = Some s2"
    using timer_service_runs [OF assms] by blast
  have clock: "mtime_at s2 = mtime_at s" "mtime_reads s \<le> mtime_reads s2"
    using s1(1) s2(2) by (auto simp: timer_frame_def timers_kept_def)
  have trace: "timer_trace call N (timer_cb s e # es) s s''"
    if "timer_trace call N es s' s''" "timer_frame N s2 s'" for es s' s''
    using timer_trace.fire [OF s1 timer_trace_frame [OF that]] by simp
  have mode: "timer_mode (timers s2 e) = TICK_MODE_PERIODIC \<longleftrightarrow> is_periodic s e"
    using s2(5) N by (simp add: is_periodic_def)
  show ?thesis
  proof (cases "is_periodic s e")
    case False
    thus ?thesis using that [of s2] run mode s2 clock trace [of _ s2]
      by (simp add: timer_service_def)
  next
    case True
    define t where "t = snd (get_tick s2)"
    define u where "u = upd_timer e (\<lambda>t. t\<lparr>timeout := mtime_at s2 (mtime_reads s2) + period_in_cycle t\<rparr>) t"
    define p where "p = takeWhile (\<lambda>x. timeout_of u x < timeout_of u e) (ks @ R)"
    define s' where "s' = list_add e (last (l # p)) u"
    have "dll t l (ks @ R)"
      using s2(3) by (simp add: t_def)
    hence u: "dll u l (ks @ R)" by (simp add: u_def)
    moreover have "e \<notin> set (l # ks @ R)" using d by (auto simp: dll_def)
    ultimately have add: "local_add_timer l e u = Some (p = [], s')"
        "dll s' l (timer_insert (timeout_of u) e (ks @ R))"
      unfolding p_def s'_def by (rule local_add_timer_eq)+
    have "last (l # p) \<in> set (l # ks @ R)" unfolding p_def by (rule last_takeWhile_in)
    moreover from this have "lnext u (last (l # p)) \<in> set (l # ks @ R)" by (rule dll_next_in [OF u])
    ultimately have "timer_frame N u s'"
      unfolding s'_def using N by (intro timer_frame_list_add) auto
    moreover have "timer_frame N t u" unfolding u_def using N by (intro timer_frame_upd_timer) simp
    moreover have "timer_frame N s2 t" unfolding t_def by (rule timer_frame_get_tick)
    ultimately have f: "timer_frame N s2 s'" using timer_frame_trans by metis
    have "timer_service call l e s = Some s'"
      using run mode True add(1) by (simp add: timer_service_def get_tick_def u_def t_def)
    moreover have "\<forall>a \<in> N - {e}. timers s' a = timers s a"
      "timers s' e = (timers s e)\<lparr>timeout := mtime_at s (mtime_reads s2) + period_in_cycle (timers s e)\<rparr>"
      "mtime_at s' = mtime_at s" "mtime_reads s \<le> mtime_reads s'" "timers s' = timers u"
      using s2(5) clock N by (auto simp: s'_def u_def t_def get_tick_def)
    ultimately show ?thesis using True clock(2) trace [OF _ f] add(2) frame_ok [OF s2(1) f]
      by (intro that [of s']) auto
  qed
qed

lemma timer_loop_idle:
  assumes "dll s l (ks @ rest)" and "\<forall>x \<in> set rest. cur < timeout_of s x"
  shows "timer_loop call cur l (hd (rest @ [l])) (lnext s (hd (rest @ [l]))) tries s = Some s"
  using assms
proof (induction rest arbitrary: ks tries)
  case Nil
  show ?case by (simp add: timer_loop.simps)
next
  case (Cons x rest)
  have "dll s l ((ks @ [x]) @ rest)" using Cons.prems(1) by simp
  hence IH: "timer_loop call cur l (hd (rest @ [l])) (lnext s (hd (rest @ [l]))) (tries - 1) s = Some s"
    by (rule Cons.IH) (use Cons.prems(2) in simp)
  have "lnext s x = hd (rest @ [l])" using Cons.prems(1) by (rule list_del_node_dll(2))
  moreover have "x \<noteq> l" using Cons.prems(1) by (auto simp: dll_def)
  moreover have "\<not> timeout_of s x \<le> cur" using Cons.prems(2) by (simp add: not_le)
  ultimately show ?case using IH by (subst timer_loop.simps) simp
qed

lemma timer_loop_expired:
  assumes "timer_queue s l (E @ U)" and "set (l # E @ U) \<subseteq> N" and "I s"
    and "\<forall>x \<in> set E. timeout_of s x \<le> cur" and "\<forall>x \<in> set U. cur < timeout_of s x"
    and "\<forall>x \<in> set E. is_periodic s x \<longrightarrow> 
      (\<forall>k \<ge> mtime_reads s. cur < mtime_at s k + period_in_cycle (timers s x))"
    and "length E < unat tries"
  shows "\<exists>s' ys. timer_loop call cur l (hd (E @ U @ [l])) (lnext s (hd (E @ U @ [l]))) tries s = Some s'
    \<and> timer_queue s' l ys \<and> set ys = set U \<union> {x \<in> set E. is_periodic s x} \<and> I s'
    \<and> (\<forall>y \<in> set ys. cur < timeout_of s' y) \<and> timer_trace call N (map (timer_cb s) E) s s'"
  using assms
proof (induction E arbitrary: s U tries)
  case Nil
  have "timer_loop call cur l (hd (U @ [l])) (lnext s (hd (U @ [l]))) tries s = Some s"
    using Nil.prems by (intro timer_loop_idle [of _ _ "[]"]) (auto simp: timer_queue_def)
  moreover have "timer_trace call N [] s s" by (simp add: timer_trace.quiet)
  ultimately show ?case using Nil.prems by auto
next
  case (Cons e E)
  let ?R = "E @ U"
  have d: "dll s l (e # ?R)" "e \<noteq> 0" "timer_armed s e" "set (l # e # ?R) \<subseteq> N"
    using Cons.prems by (auto simp: timer_queue_def)
  obtain s' where s': "timer_service call l e s = Some s'" "I s'"
    "\<forall>a \<in> N - {e}. timers s' a = timers s a" "mtime_at s' = mtime_at s" "mtime_reads s \<le> mtime_reads s'"
    and trace: "\<And>es s''. timer_trace call N es s' s'' \<Longrightarrow> timer_trace call N (timer_cb s e # es) s s''"
    and once: "\<not> is_periodic s e \<Longrightarrow> dll s' l ?R"
    and per: "is_periodic s e \<Longrightarrow> dll s' l (timer_insert (timeout_of s') e ?R)"
     "is_periodic s e \<Longrightarrow> \<exists>k \<ge> mtime_reads s.
       timers s' e = (timers s e)\<lparr>timeout := mtime_at s k + period_in_cycle (timers s e)\<rparr>"
    using timer_service_step [of s l "[]", unfolded append_Nil, OF d(1,4,2,3) Cons.prems(3)] by blast
  define U' where "U' = (if is_periodic s e then timer_insert (timeout_of s') e U else U)"
  have same: "timers s' x = timers s x" if "x \<in> set ?R" for x
    using s'(3) d(1,4) that by (auto simp: dll_def)
  have later: "cur < timeout_of s' e \<and> timer_func (timers s' e) \<noteq> None" if "is_periodic s e"
    using per(2) [OF that] Cons.prems(6) d(3) that by (auto simp: timer_armed_def)
  have E_lt: "\<forall>x \<in> set E. timeout_of s' x < timeout_of s' e" if "is_periodic s e"
    using later [OF that] Cons.prems(4) same by (auto intro: le_less_trans)
  have ins: "E @ U' = (if is_periodic s e then timer_insert (timeout_of s') e ?R else ?R)"
    using E_lt by (simp add: U'_def timer_insert_append)
  have "map (timeout_of s') ?R = map (timeout_of s) ?R" by (rule map_cong) (simp_all add: same)
  moreover have "sorted (map (timeout_of s) ?R)" using Cons.prems(1) by (simp add: timer_queue_def)
  ultimately have "sorted (map (timeout_of s') ?R)" by (simp only:)
  hence "sorted (map (timeout_of s') (E @ U'))" unfolding ins by (simp add: sorted_timer_insert)
  moreover have "dll s' l (E @ U')" unfolding ins using once per(1) by simp
  moreover have setU: "set U' = set U \<union> (if is_periodic s e then {e} else {})" by (auto simp: U'_def)
  moreover have "timer_armed s' x" if "x \<in> set ?R" for x
    using that same Cons.prems(1) by (auto simp: timer_queue_def timer_armed_def)
  moreover have "timer_armed s' e" if "is_periodic s e" using later [OF that] by (auto simp: timer_armed_def)
  ultimately have q: "timer_queue s' l (E @ U')"
    using Cons.prems(1) by (auto simp: timer_queue_def)
  have U': "\<forall>x \<in> set U'. cur < timeout_of s' x" using later same Cons.prems(5) by (auto simp: setU split: if_splits)
  have "e \<noteq> l" "lnext s e = hd (?R @ [l])" "timeout_of s e \<le> cur" 
    using d(1) list_del_node_dll(2) [of s l "[]" e ?R] Cons.prems(4) by (auto simp: dll_def)
  moreover have tries: "tries - 1 \<noteq> 0" "length E < unat (tries - 1)"
    using Cons.prems(7) unat_sub_le [of 1 tries] by (auto simp: word_le_nat_alt unat_gt_0)
  ultimately have step: "timer_loop call cur l (hd ((e # E) @ U @ [l])) (lnext s (hd ((e # E) @ U @ [l]))) tries s
      = timer_loop call cur l (hd (?R @ [l])) (lnext s' (hd (?R @ [l]))) (tries - 1) s'"
    using s'(1) by (subst timer_loop.simps) simp
  show ?case
  proof (cases E)
    case Nil
    have "\<exists>ks rest. U' = ks @ rest \<and> hd (rest @ [l]) = hd (U @ [l])"
      using timer_insert_resume [of "timeout_of s'" e U l]
      by (cases "is_periodic s e") (auto simp: U'_def intro: exI [of _ "[]"])
    then obtain ks rest where "U' = ks @ rest" "hd (rest @ [l]) = hd (U @ [l])" by blast
    hence "timer_loop call cur l (hd (?R @ [l])) (lnext s' (hd (?R @ [l]))) (tries - 1) s' = Some s'"
      using timer_loop_idle [of s' l ks rest cur "tries - 1"] q U' Nil by (simp add: timer_queue_def)
    moreover have "timer_trace call N [timer_cb s e] s s'"
      by (rule trace) (simp add: timer_trace.quiet)
    ultimately show ?thesis using step q U' s'(2) setU Nil
      by (intro exI [of _ s'] exI [of _ U']) auto
  next
    case (Cons a E')
    have E: "\<forall>x \<in> set E. timers s' x = timers s x" using same by simp
    hence cb: "map (timer_cb s') E = map (timer_cb s) E"
      and pE: "\<forall>x \<in> set E. is_periodic s' x = is_periodic s x"
      by (simp_all add: timer_cb_def is_periodic_def)
    have subN: "set (l # E @ U') \<subseteq> N" using d(4) setU by auto
    have leE: "\<forall>x \<in> set E. timeout_of s' x \<le> cur" using E Cons.prems(4) by simp
    have perE: "\<forall>x \<in> set E. is_periodic s' x \<longrightarrow>
        (\<forall>k \<ge> mtime_reads s'. cur < mtime_at s' k + period_in_cycle (timers s' x))"
      using Cons.prems(6) pE E s'(4,5) by auto
    obtain s'' ys where "timer_loop call cur l (hd (E @ U' @ [l])) (lnext s' (hd (E @ U' @ [l]))) (tries - 1) s' = Some s''"
      "timer_queue s'' l ys" "set ys = set U' \<union> {x \<in> set E. is_periodic s' x}" "I s''"
      "\<forall>y \<in> set ys. cur < timeout_of s'' y" "timer_trace call N (map (timer_cb s) E) s' s''"
      using Cons.IH [OF q subN s'(2) leE U' perE tries(2)] unfolding cb by blast
    moreover have "hd (E @ U' @ [l]) = hd (?R @ [l])" using Cons by simp
    moreover have "{x \<in> set (e # E). is_periodic s x}
        = (if is_periodic s e then {e} else {}) \<union> {x \<in> set E. is_periodic s' x}"
      using pE by auto
    ultimately show ?thesis using step trace setU by (intro exI [of _ s''] exI [of _ ys]) auto
  qed
qed

lemma handler_services:
  fixes s :: "'a timer_state_scheme"
  defines "cur \<equiv> mtime_at s (mtime_reads s)"
  assumes q: "timer_queue s (timer_list s cpu) xs" and N: "set (timer_list s cpu # xs) \<subseteq> N" and I: "I s"
    and per: "\<forall>x \<in> set xs. timeout_of s x \<le> cur \<and> is_periodic s x \<longrightarrow>
      (\<forall>k > mtime_reads s. cur < mtime_at s k + period_in_cycle (timers s x))"
    and few: "length (takeWhile (\<lambda>x. timeout_of s x \<le> cur) xs) < 32"
  shows "\<exists>s' ys. timer_deadline_handler call cpu s = Some s' \<and> timer_queue s' (timer_list s cpu) ys
    \<and> set ys = {x \<in> set xs. cur < timeout_of s x \<or> is_periodic s x} \<and> I s'
    \<and> (\<forall>y \<in> set ys. cur < timeout_of s' y)
    \<and> timer_trace call N (map (timer_cb s) (takeWhile (\<lambda>x. timeout_of s x \<le> cur) xs)) s s'"
proof -
  let ?l = "timer_list s cpu" and ?t = "snd (get_tick s)"
  define E where "E = takeWhile (\<lambda>x. timeout_of s x \<le> cur) xs"
  define U where "U = dropWhile (\<lambda>x. timeout_of s x \<le> cur) xs"
  have xs: "xs = E @ U" by (simp add: E_def U_def)
  have t: "timers ?t = timers s" "mtime_at ?t = mtime_at s" "mtime_reads ?t = mtime_reads s + 1"
    "lnext ?t = lnext s" "timer_list ?t = timer_list s" "fst (get_tick s) = cur"
    by (simp_all add: get_tick_def cur_def)
  have "dll ?t ?l xs" using q by (simp add: timer_queue_def)
  hence qt: "timer_queue ?t ?l (E @ U)" using q by (simp add: timer_queue_def timer_armed_def t flip: xs)
  have f: "timer_frame N s ?t" by (rule timer_frame_get_tick)
  have E: "\<forall>x \<in> set E. timeout_of s x \<le> cur" by (auto simp: E_def dest: set_takeWhileD)
  have U: "\<forall>x \<in> set U. cur < timeout_of s x"
    using q dropWhile_sorted_gt [of "timeout_of s" xs cur] by (simp add: timer_queue_def U_def)
  have cb: "is_periodic ?t = is_periodic s" "map (timer_cb ?t) E = map (timer_cb s) E"
    by (auto simp: is_periodic_def timer_cb_def t fun_eq_iff)
  have fewE: "length E < unat MAX_TIMER_ACTIONS" using few by (simp add: E_def MAX_TIMER_ACTIONS_def)
  have perE: "\<forall>x \<in> set E. is_periodic ?t x \<longrightarrow>
      (\<forall>k \<ge> mtime_reads ?t. cur < mtime_at ?t k + period_in_cycle (timers ?t x))"
    using per E by (auto simp: t cb xs)
  have pre: "set (?l # E @ U) \<subseteq> N" "\<forall>x \<in> set E. timeout_of ?t x \<le> cur" "\<forall>x \<in> set U. cur < timeout_of ?t x"
    using N E U xs by (simp_all add: t)
  obtain s' ys where s': "timer_loop call cur ?l (hd (E @ U @ [?l])) (lnext ?t (hd (E @ U @ [?l]))) MAX_TIMER_ACTIONS ?t = Some s'"
      "timer_queue s' ?l ys" "set ys = set U \<union> {x \<in> set E. is_periodic s x}" "I s'"
      "\<forall>y \<in> set ys. cur < timeout_of s' y" "timer_trace call N (map (timer_cb s) E) ?t s'"
    using timer_loop_expired [OF qt pre(1) frame_ok [OF I f] pre(2,3) perE fewE] unfolding cb by blast
  let ?s' = "update_physical_timer ?l s'"
  have "lnext s ?l = hd (E @ U @ [?l])"
    using q dll_split [of s ?l "[]" xs] by (simp add: timer_queue_def xs)
  hence "timer_deadline_handler call cpu s = Some ?s'"
    using s'(1) t by (simp add: timer_deadline_handler_def Let_def split_beta)
  moreover have "timer_queue ?s' ?l ys" "\<forall>y \<in> set ys. cur < timeout_of ?s' y"
    using s'(2,5) by (simp_all add: timer_queue_def timer_armed_def)
  moreover have f': "timer_frame N s' ?s'" by (rule timer_frame_update_physical_timer)
  moreover have "timer_trace call N (map (timer_cb s) E) s ?s'"
    using timer_trace_frame_end [OF timer_trace_frame [OF s'(6) f] f'] .
  moreover have "set ys = {x \<in> set xs. cur < timeout_of s x \<or> is_periodic s x}"
    using s'(3) E U by (auto simp: xs not_le)
  ultimately show ?thesis using frame_ok [OF s'(4) f'] unfolding E_def by blast
qed

text \<open>
  The action limit.  On expired one-shot timers the loop skips exactly those at
  which the counter reaches zero, and goes on after them.
\<close>

lemma timer_loop_oneshot:
  assumes "dll s l (ks @ E)" and "set (l # ks @ E) \<subseteq> N" and "I s"
    and "\<forall>x \<in> set E. timeout_of s x \<le> cur \<and> \<not> is_periodic s x \<and> timer_armed s x \<and> x \<noteq> 0"
  shows "\<exists>s'. timer_loop call cur l (hd (E @ [l])) (lnext s (hd (E @ [l]))) tries s = Some s'
    \<and> dll s' l (ks @ timer_skipped tries E) \<and> I s'
    \<and> timer_trace call N (map (timer_cb s) (timer_served tries E)) s s'"
  using assms
proof (induction E arbitrary: s ks tries)
  case Nil
  have "timer_trace call N [] s s" by (simp add: timer_trace.quiet)
  thus ?case using Nil.prems by (simp add: timer_loop.simps)
next
  case (Cons e E)
  have n: "lnext s e = hd (E @ [l])" using Cons.prems(1) by (rule list_del_node_dll(2))
  have e: "e \<noteq> l" "timeout_of s e \<le> cur" "e \<noteq> 0" "timer_armed s e" "\<not> is_periodic s e"
    using Cons.prems by (auto simp: dll_def)
  show ?case
  proof (cases "tries - 1 = 0")
    case True
    have "dll s l ((ks @ [e]) @ E)" "set (l # (ks @ [e]) @ E) \<subseteq> N" using Cons.prems by simp_all
    from Cons.IH [OF this Cons.prems(3), of "tries - 1"] Cons.prems(4) show ?thesis
      using True n e by (subst timer_loop.simps) simp
  next
    case False
    obtain s' where s': "timer_service call l e s = Some s'" "I s'"
      "\<forall>a \<in> N - {e}. timers s' a = timers s a"
      and trace: "\<And>es s''. timer_trace call N es s' s'' \<Longrightarrow> timer_trace call N (timer_cb s e # es) s s''"
      and d: "dll s' l (ks @ E)"
      using timer_service_step [OF Cons.prems(1,2) e(3,4) Cons.prems(3)] e(5) by metis
    have same: "\<forall>x \<in> set E. timers s' x = timers s x"
      using s'(3) Cons.prems(1,2) by (auto simp: dll_def)
    hence "\<forall>x \<in> set E. timeout_of s' x \<le> cur \<and> \<not> is_periodic s' x \<and> timer_armed s' x \<and> x \<noteq> 0"
      using Cons.prems(4) by (simp add: is_periodic_def timer_armed_def)
    moreover have "set (l # ks @ E) \<subseteq> N" using Cons.prems(2) by simp
    ultimately obtain s'' where "timer_loop call cur l (hd (E @ [l])) (lnext s' (hd (E @ [l]))) (tries - 1) s' = Some s''"
      "dll s'' l (ks @ timer_skipped (tries - 1) E)" "I s''"
      "timer_trace call N (map (timer_cb s') (timer_served (tries - 1) E)) s' s''"
      using Cons.IH [OF d _ s'(2)] by blast
    moreover have "map (timer_cb s') (timer_served (tries - 1) E) = map (timer_cb s) (timer_served (tries - 1) E)"
      using same set_timer_served [of "tries - 1" E] by (auto simp: timer_cb_def)
    ultimately show ?thesis using False n e s'(1) trace by (subst timer_loop.simps) simp
  qed
qed

end

subsection \<open>Adding and deleting\<close>

lemma add_timer_rejects:
  assumes "timer = 0 \<or> \<not> timer_armed s timer"
  shows "add_timer timer s = Some (-1, s)"
  using assms by (auto simp: add_timer_def timer_armed_def)

text \<open>The timer as \<open>add_timer\<close> queues it: with the minimal period enforced.\<close>

definition clamp_period :: "addr \<Rightarrow> 'a timer_state_scheme \<Rightarrow> 'a timer_state_scheme" where
  "clamp_period t s =
    (if is_periodic s t
     then upd_timer t (\<lambda>r. r\<lparr>period_in_cycle := max (period_in_cycle r) (us_to_ticks s MIN_TIMER_PERIOD_US)\<rparr>) s
     else s)"

lemma clamp_period_fields [simp]:
  "timeout (timers (clamp_period t s) x) = timeout_of s x" "dll (clamp_period t s) l xs = dll s l xs"
  "timer_armed (clamp_period t s) x = timer_armed s x" "pcpu_id (clamp_period t s) = pcpu_id s"
  "timer_list (clamp_period t s) = timer_list s" "sstatus (clamp_period t s) = sstatus s"
  by (simp_all add: clamp_period_def timer_armed_def upd_timer_def)

lemma add_timer_eq:
  assumes "t \<noteq> 0" "timer_armed s t"
  shows "add_timer t s = Option.bind
    (local_add_timer (timer_list s (pcpu_id s)) t (local_irq_disable (clamp_period t s)))
    (\<lambda>(at_head, s'). Some (0, local_irq_restore (sstatus s)
      (if at_head then update_physical_timer (timer_list s (pcpu_id s)) s' else s')))"
  using assms
  by (cases "is_periodic s t") (auto simp: add_timer_def timer_armed_def clamp_period_def is_periodic_def
      local_irq_save_def get_pcpu_id_def Let_def upd_timer_def case_prod_beta' cong: if_cong)

lemma add_timer_queues:
  assumes q: "timer_queue s (timer_list s (pcpu_id s)) xs"
    and t: "t \<noteq> 0" "timer_armed s t" "t \<notin> set (timer_list s (pcpu_id s) # xs)"
  shows "\<exists>s'. add_timer t s = Some (0, s') \<and> sstatus s' = sstatus s
    \<and> timers s' = timers (clamp_period t s)
    \<and> timer_queue s' (timer_list s (pcpu_id s)) (timer_insert (timeout_of s) t xs)"
proof -
  let ?l = "timer_list s (pcpu_id s)" and ?c = "local_irq_disable (clamp_period t s)"
  let ?p = "takeWhile (\<lambda>x. timeout_of s x < timeout_of s t) xs"
  have c: "timers ?c = timers (clamp_period t s)" "dll ?c ?l xs"
    using q by (simp_all add: local_irq_disable_def timer_queue_def)
  have add: "local_add_timer ?l t ?c = Some (?p = [], list_add t (last (?l # ?p)) ?c)"
    "dll (list_add t (last (?l # ?p)) ?c) ?l (timer_insert (timeout_of s) t xs)"
    using local_add_timer_eq [OF c(2) t(3)] by (simp_all add: c)
  let ?a = "list_add t (last (?l # ?p)) ?c"
  define u where "u = (if ?p = [] then update_physical_timer ?l ?a else ?a)"
  define r where "r = local_irq_restore (sstatus s) u"
  have a: "dll r ?l (timer_insert (timeout_of s) t xs)" "timers r = timers (clamp_period t s)"
    "sstatus r = sstatus s"
    using add(2) c by (cases "?p = []"; simp add: r_def u_def local_irq_restore_def)+
  have "add_timer t s = Some (0, r)"
    by (simp only: add_timer_eq [OF t(1,2)] add(1)) (simp add: r_def u_def)
  moreover have "timer_armed r x = timer_armed s x" "timeout_of r x = timeout_of s x" for x
    using clamp_period_fields(1,3) [of t s x] by (simp_all add: timer_armed_def a(2))
  hence "timer_queue r ?l (timer_insert (timeout_of s) t xs)"
    using q t a(1) by (auto simp: timer_queue_def sorted_timer_insert)
  ultimately show ?thesis using a by auto
qed

lemma del_timer_unqueues:
  assumes q: "timer_queue s l xs" and t: "t \<in> set xs"
  shows "timer_queue (del_timer t s) l (remove1 t xs)" and "unlinked (del_timer t s) t"
proof -
  obtain as bs where xs: "xs = as @ t # bs" "t \<notin> set as" using t by (meson split_list_first)
  have d: "dll s l (as @ t # bs)" using q xs by (simp add: timer_queue_def)
  have "lnext s t \<noteq> t"
    using list_del_node_dll(2) [OF d] d by (cases bs) (auto simp: dll_def)
  moreover have "t \<noteq> 0" using q t unfolding timer_queue_def by metis
  ultimately have del: "del_timer t s = list_del_init t s"
    by (simp add: del_timer_eq list_empty_def)
  show "unlinked (del_timer t s) t" using list_del_init_dll(2) [OF d] del by simp
  have "sorted (map (timeout_of s) (as @ bs))" using q xs by (auto simp: timer_queue_def sorted_append)
  thus "timer_queue (del_timer t s) l (remove1 t xs)"
    using list_del_init_dll(1) [OF d] q xs
    by (simp add: del timer_queue_def remove1_append_mid timer_armed_def)
qed

end
