(* ===== verification/Schedule.thy ===== *)
theory Schedule
  imports Timer Bits
begin

text \<open>
  The scheduler framework: \<open>common/schedule.c\<close>, \<open>include/common/schedule.h\<close>, and
  the kick of a remote hart (\<open>arch/riscv/smpboot.c\<close>, \<open>arch/riscv/smp.c\<close>).

  A \<open>struct thread_object\<close> is identified with the address of its \<open>data\<close> area,
  whose first member is the list node of the scheduling policies; a pointer to
  a per-CPU \<open>sched_control\<close> is the number of the CPU.  A policy is
  a record of operations, as \<open>struct acrn_scheduler\<close>; a null operation is
  \<open>None\<close>.  The functions of the framework take the policy as an argument:
  the code selects it at build time.  Function pointers of threads
  (\<open>switch_in\<close>, \<open>switch_out\<close>) are run by the parameter \<open>sw\<close>.  The
  assembly routine \<open>arch_switch_to\<close> exchanges stacks and does not touch the
  modelled state; \<open>ASSERT\<close> is the empty statement of release builds.
\<close>

subsection \<open>State\<close>

datatype thread_object_state = THREAD_STS_RUNNING | THREAD_STS_RUNNABLE | THREAD_STS_BLOCKED

record thread_object =
  thr_pcpu_id :: nat
  thr_sched_ctl :: nat
  thread_entry :: "nat option"
  thr_status :: thread_object_state
  be_blocking :: bool
  host_sp :: u64
  switch_out :: "nat option"
  switch_in :: "nat option"

record sched_control =
  ctl_pcpu_id :: nat
  ctl_flags :: u64
  curr_obj :: addr
  scheduler_lock :: spinlock_t

record sched_params =
  prio :: u32
  bvt_weight :: u8
  bvt_warp_value :: u32
  bvt_warp_limit :: u32
  bvt_unwarp_period :: u32

record sched_state = timer_state +
  threads :: "addr \<Rightarrow> thread_object"
  sched_ctl :: "nat \<Rightarrow> sched_control"
  idle :: "nat \<Rightarrow> addr"
  mode_to_idle :: "nat \<Rightarrow> u32"
  mode_to_kick_pcpu :: "nat \<Rightarrow> u32"
  prepare_cpu :: "nat \<Rightarrow> bool"
  msip :: "nat \<Rightarrow> u32"

record 's acrn_scheduler =
  init_op :: "(nat \<Rightarrow> 's \<Rightarrow> (int \<times> 's) option) option"
  init_data_op :: "(addr \<Rightarrow> sched_params \<Rightarrow> 's \<Rightarrow> 's option) option"
  pick_next_op :: "(nat \<Rightarrow> 's \<Rightarrow> (addr \<times> 's) option) option"
  sleep_op :: "(addr \<Rightarrow> 's \<Rightarrow> 's option) option"
  wake_op :: "(addr \<Rightarrow> 's \<Rightarrow> 's option) option"
  deinit_data_op :: "(addr \<Rightarrow> 's \<Rightarrow> 's option) option"
  deinit_op :: "(nat \<Rightarrow> 's \<Rightarrow> 's option) option"

type_synonym 's thread_fn = "nat \<Rightarrow> addr \<Rightarrow> 's \<Rightarrow> 's option"

definition NEED_RESCHEDULE :: nat where "NEED_RESCHEDULE = 1"
definition IDLE_MODE_HLT :: u32 where "IDLE_MODE_HLT = 2"
definition DEL_MODE_IPI :: u32 where "DEL_MODE_IPI = 2"

definition upd_thread ::
  "addr \<Rightarrow> (thread_object \<Rightarrow> thread_object) \<Rightarrow> 'a sched_state_scheme \<Rightarrow> 'a sched_state_scheme" where
  "upd_thread obj f s = s\<lparr>threads := (threads s)(obj := f (threads s obj))\<rparr>"

definition upd_ctl ::
  "nat \<Rightarrow> (sched_control \<Rightarrow> sched_control) \<Rightarrow> 'a sched_state_scheme \<Rightarrow> 'a sched_state_scheme" where
  "upd_ctl cpu f s = s\<lparr>sched_ctl := (sched_ctl s)(cpu := f (sched_ctl s cpu))\<rparr>"

subsection \<open>Kicking a hart\<close>

definition do_swi :: "nat \<Rightarrow> 'a sched_state_scheme \<Rightarrow> int \<times> 'a sched_state_scheme" where
  "do_swi cpu s = (0, s\<lparr>msip := (msip s)(cpu := 1)\<rparr>)"

definition kick_pcpu :: "nat \<Rightarrow> 'a sched_state_scheme \<Rightarrow> int \<times> 'a sched_state_scheme" where
  "kick_pcpu cpu s = (if \<not> prepare_cpu s cpu then (- ENODEV, s) else do_swi cpu s)"

subsection \<open>The framework\<close>

definition is_idle_thread :: "'a sched_state_scheme \<Rightarrow> addr \<Rightarrow> bool" where
  "is_idle_thread s obj = (obj = idle s (thr_pcpu_id (threads s obj)))"

definition is_blocked :: "'a sched_state_scheme \<Rightarrow> addr \<Rightarrow> bool" where
  "is_blocked s obj = (thr_status (threads s obj) = THREAD_STS_BLOCKED)"

definition is_running :: "'a sched_state_scheme \<Rightarrow> addr \<Rightarrow> bool" where
  "is_running s obj = (thr_status (threads s obj) = THREAD_STS_RUNNING)"

definition set_thread_status ::
  "addr \<Rightarrow> thread_object_state \<Rightarrow> 'a sched_state_scheme \<Rightarrow> 'a sched_state_scheme" where
  "set_thread_status obj st s = upd_thread obj (\<lambda>t. t\<lparr>thr_status := st\<rparr>) s"

definition set_be_blocking :: "addr \<Rightarrow> bool \<Rightarrow> 'a sched_state_scheme \<Rightarrow> 'a sched_state_scheme" where
  "set_be_blocking obj b s = upd_thread obj (\<lambda>t. t\<lparr>be_blocking := b\<rparr>) s"

definition obtain_schedule_lock ::
  "nat \<Rightarrow> 'a sched_state_scheme \<Rightarrow> (u64 \<times> 'a sched_state_scheme) option" where
  "obtain_schedule_lock cpu s =
    (let (rflag, s) = local_irq_save s
     in do {
       lock \<leftarrow> spinlock_obtain (scheduler_lock (sched_ctl s cpu));
       Some (rflag, upd_ctl cpu (\<lambda>c. c\<lparr>scheduler_lock := lock\<rparr>) s)
     })"

definition release_schedule_lock :: "nat \<Rightarrow> u64 \<Rightarrow> 'a sched_state_scheme \<Rightarrow> 'a sched_state_scheme" where
  "release_schedule_lock cpu rflag s =
    local_irq_restore rflag
      (upd_ctl cpu (\<lambda>c. c\<lparr>scheduler_lock := spinlock_release (scheduler_lock c)\<rparr>) s)"

definition sched_get_pcpuid :: "'a sched_state_scheme \<Rightarrow> addr \<Rightarrow> nat" where
  "sched_get_pcpuid s obj = thr_pcpu_id (threads s obj)"

definition sched_get_current :: "'a sched_state_scheme \<Rightarrow> nat \<Rightarrow> addr" where
  "sched_get_current s cpu = curr_obj (sched_ctl s cpu)"

definition init_sched ::
  "'a sched_state_scheme acrn_scheduler \<Rightarrow> nat \<Rightarrow> 'a sched_state_scheme \<Rightarrow> 'a sched_state_scheme option" where
  "init_sched sc cpu s =
    (let s = s\<lparr>mode_to_idle := (mode_to_idle s)(cpu := IDLE_MODE_HLT),
               mode_to_kick_pcpu := (mode_to_kick_pcpu s)(cpu := DEL_MODE_IPI)\<rparr>;
         s = upd_ctl cpu (\<lambda>c. c\<lparr>scheduler_lock := spinlock_init, ctl_flags := 0, curr_obj := 0,
                                ctl_pcpu_id := cpu\<rparr>) s
     in case init_op sc of Some f \<Rightarrow> map_option snd (f cpu s) | None \<Rightarrow> Some s)"

definition deinit_sched ::
  "'a sched_state_scheme acrn_scheduler \<Rightarrow> nat \<Rightarrow> 'a sched_state_scheme \<Rightarrow> 'a sched_state_scheme option" where
  "deinit_sched sc cpu s = (case deinit_op sc of Some f \<Rightarrow> f cpu s | None \<Rightarrow> Some s)"

definition init_thread_data ::
  "'a sched_state_scheme acrn_scheduler \<Rightarrow> addr \<Rightarrow> sched_params \<Rightarrow> 'a sched_state_scheme \<Rightarrow> 'a sched_state_scheme option" where
  "init_thread_data sc obj params s = do {
     (rflag, s) \<leftarrow> obtain_schedule_lock (thr_pcpu_id (threads s obj)) s;
     s \<leftarrow> (case init_data_op sc of Some f \<Rightarrow> f obj params s | None \<Rightarrow> Some s);
     let s = set_thread_status obj THREAD_STS_BLOCKED s;
     Some (release_schedule_lock (thr_pcpu_id (threads s obj)) rflag s)
   }"

definition deinit_thread_data ::
  "'a sched_state_scheme acrn_scheduler \<Rightarrow> addr \<Rightarrow> 'a sched_state_scheme \<Rightarrow> 'a sched_state_scheme option" where
  "deinit_thread_data sc obj s = (case deinit_data_op sc of Some f \<Rightarrow> f obj s | None \<Rightarrow> Some s)"

definition make_reschedule_request :: "nat \<Rightarrow> 'a sched_state_scheme \<Rightarrow> 'a sched_state_scheme" where
  "make_reschedule_request cpu s =
    (let s = upd_ctl cpu (\<lambda>c. c\<lparr>ctl_flags := bitmap_set_lock NEED_RESCHEDULE (ctl_flags c)\<rparr>) s
     in if get_pcpu_id s \<noteq> cpu then snd (kick_pcpu cpu s) else s)"

definition need_reschedule :: "'a sched_state_scheme \<Rightarrow> nat \<Rightarrow> bool" where
  "need_reschedule s cpu = bitmap_test NEED_RESCHEDULE (ctl_flags (sched_ctl s cpu))"

definition run_switch ::
  "'a sched_state_scheme thread_fn \<Rightarrow> nat option \<Rightarrow> addr \<Rightarrow> 'a sched_state_scheme \<Rightarrow> 'a sched_state_scheme option" where
  "run_switch sw f obj s = (case f of Some g \<Rightarrow> sw g obj s | None \<Rightarrow> Some s)"

definition schedule ::
  "'a sched_state_scheme acrn_scheduler \<Rightarrow> 'a sched_state_scheme thread_fn \<Rightarrow>
   'a sched_state_scheme \<Rightarrow> 'a sched_state_scheme option" where
  "schedule sc sw s =
    (let cpu = get_pcpu_id s; prev = curr_obj (sched_ctl s cpu)
     in do {
       (rflag, s) \<leftarrow> obtain_schedule_lock cpu s;
       (nxt, s) \<leftarrow> (case pick_next_op sc of Some f \<Rightarrow> f cpu s | None \<Rightarrow> Some (idle s cpu, s));
       let s = upd_ctl cpu (\<lambda>c. c\<lparr>ctl_flags := bitmap_clear_lock NEED_RESCHEDULE (ctl_flags c)\<rparr>) s;
       if prev \<noteq> nxt
       then do {
         s \<leftarrow> (if prev \<noteq> 0
               then do {
                 s \<leftarrow> run_switch sw (switch_out (threads s prev)) prev s;
                 let s = set_thread_status prev
                   (if be_blocking (threads s prev) then THREAD_STS_BLOCKED else THREAD_STS_RUNNABLE) s;
                 Some (set_be_blocking prev False s)
               }
               else Some s);
         s \<leftarrow> run_switch sw (switch_in (threads s nxt)) nxt s;
         let s = set_thread_status nxt THREAD_STS_RUNNING s;
         let s = upd_ctl cpu (\<lambda>c. c\<lparr>curr_obj := nxt\<rparr>) s;
         Some (release_schedule_lock cpu rflag s)
       }
       else Some (release_schedule_lock cpu rflag s)
     })"

definition sleep_thread ::
  "'a sched_state_scheme acrn_scheduler \<Rightarrow> addr \<Rightarrow> 'a sched_state_scheme \<Rightarrow> 'a sched_state_scheme option" where
  "sleep_thread sc obj s =
    (let cpu = thr_pcpu_id (threads s obj)
     in do {
       (rflag, s) \<leftarrow> obtain_schedule_lock cpu s;
       s \<leftarrow> (case sleep_op sc of Some f \<Rightarrow> f obj s | None \<Rightarrow> Some s);
       let s = (if is_running s obj
                then set_be_blocking obj True (make_reschedule_request cpu s)
                else set_thread_status obj THREAD_STS_BLOCKED s);
       Some (release_schedule_lock cpu rflag s)
     })"

definition sleep_thread_sync ::
  "'a sched_state_scheme acrn_scheduler \<Rightarrow> addr \<Rightarrow> 'a sched_state_scheme \<Rightarrow> 'a sched_state_scheme option" where
  "sleep_thread_sync sc obj s = do {
     s \<leftarrow> sleep_thread sc obj s;
     if is_blocked s obj then Some s else None
   }"

definition wake_thread ::
  "'a sched_state_scheme acrn_scheduler \<Rightarrow> addr \<Rightarrow> 'a sched_state_scheme \<Rightarrow> 'a sched_state_scheme option" where
  "wake_thread sc obj s =
    (let cpu = thr_pcpu_id (threads s obj)
     in do {
       (rflag, s) \<leftarrow> obtain_schedule_lock cpu s;
       s \<leftarrow> (if is_blocked s obj \<or> be_blocking (threads s obj)
             then do {
               s \<leftarrow> (case wake_op sc of Some f \<Rightarrow> f obj s | None \<Rightarrow> Some s);
               let s = (if is_blocked s obj
                        then make_reschedule_request cpu (set_thread_status obj THREAD_STS_RUNNABLE s)
                        else s);
               Some (set_be_blocking obj False s)
             }
             else Some s);
       Some (release_schedule_lock cpu rflag s)
     })"

definition yield_current :: "'a sched_state_scheme \<Rightarrow> 'a sched_state_scheme" where
  "yield_current s = make_reschedule_request (get_pcpu_id s) s"

definition run_thread ::
  "'a sched_state_scheme thread_fn \<Rightarrow> addr \<Rightarrow> 'a sched_state_scheme \<Rightarrow> 'a sched_state_scheme option" where
  "run_thread sw obj s = do {
     (rflag, s) \<leftarrow> obtain_schedule_lock (thr_pcpu_id (threads s obj)) s;
     let s = upd_ctl (get_pcpu_id s) (\<lambda>c. c\<lparr>curr_obj := obj\<rparr>) s;
     let s = set_thread_status obj THREAD_STS_RUNNING s;
     let s = release_schedule_lock (thr_pcpu_id (threads s obj)) rflag s;
     run_switch sw (thread_entry (threads s obj)) obj s
   }"

subsection \<open>Frames\<close>

lemma upd_thread_fields [simp]:
  "threads (upd_thread t f s) = (threads s)(t := f (threads s t))" "sched_ctl (upd_thread t f s) = sched_ctl s"
  "idle (upd_thread t f s) = idle s" "pcpu_id (upd_thread t f s) = pcpu_id s" "sstatus (upd_thread t f s) = sstatus s"
  "msip (upd_thread t f s) = msip s" "prepare_cpu (upd_thread t f s) = prepare_cpu s"
  by (simp_all add: upd_thread_def)

lemma upd_ctl_fields [simp]:
  "sched_ctl (upd_ctl c f s) = (sched_ctl s)(c := f (sched_ctl s c))" "threads (upd_ctl c f s) = threads s"
  "idle (upd_ctl c f s) = idle s" "pcpu_id (upd_ctl c f s) = pcpu_id s" "sstatus (upd_ctl c f s) = sstatus s"
  "msip (upd_ctl c f s) = msip s" "prepare_cpu (upd_ctl c f s) = prepare_cpu s"
  by (simp_all add: upd_ctl_def)

text \<open>\<open>sched_same\<close>: the framework's part of the state is unchanged.\<close>

definition sched_same :: "'a sched_state_scheme \<Rightarrow> 'a sched_state_scheme \<Rightarrow> bool" where
  "sched_same s s' \<longleftrightarrow> sstatus s' = sstatus s \<and> pcpu_id s' = pcpu_id s \<and> threads s' = threads s \<and>
    sched_ctl s' = sched_ctl s \<and> idle s' = idle s \<and> msip s' = msip s \<and> prepare_cpu s' = prepare_cpu s"

text \<open>
  \<open>policy_same\<close>: only the framework's part of the state changed.  The home hart
  of a thread is fixed.
\<close>

definition policy_same :: "'a sched_state_scheme \<Rightarrow> 'a sched_state_scheme \<Rightarrow> bool" where
  "policy_same s s' \<longleftrightarrow> lnext s' = lnext s \<and> lprev s' = lprev s \<and> pcpu_id s' = pcpu_id s \<and>
    timers s' = timers s \<and> timer_list s' = timer_list s \<and> mtime_at s' = mtime_at s \<and>
    mtime_reads s' = mtime_reads s \<and> mtimecmp s' = mtimecmp s \<and> cpu_khz s' = cpu_khz s \<and> idle s' = idle s \<and>
    (\<forall>t. thr_pcpu_id (threads s' t) = thr_pcpu_id (threads s t) \<and>
         thr_sched_ctl (threads s' t) = thr_sched_ctl (threads s t)) \<and>
    sched_state.more s' = sched_state.more s"

lemma policy_same_refl [simp]: "policy_same s s"
  by (simp add: policy_same_def)

lemma policy_same_trans: "policy_same s s' \<Longrightarrow> policy_same s' s'' \<Longrightarrow> policy_same s s''"
  by (simp add: policy_same_def)

lemma policy_same_upds [simp]:
  "policy_same s (upd_ctl c f s)" "policy_same s (set_thread_status t st s)"
  "policy_same s (set_be_blocking t b s)" "policy_same s (make_reschedule_request c s)"
  "policy_same s (release_schedule_lock c x s)"
  by (simp_all add: policy_same_def upd_ctl_def set_thread_status_def set_be_blocking_def upd_thread_def
      make_reschedule_request_def kick_pcpu_def do_swi_def release_schedule_lock_def local_irq_restore_def
      Let_def)

lemma make_reschedule_request_fields [simp]:
  "threads (make_reschedule_request c s) = threads s" "idle (make_reschedule_request c s) = idle s"
  "sstatus (make_reschedule_request c s) = sstatus s" "pcpu_id (make_reschedule_request c s) = pcpu_id s"
  "sched_ctl (make_reschedule_request c s) =
    (sched_ctl s)(c := (sched_ctl s c)\<lparr>ctl_flags := bitmap_set_lock NEED_RESCHEDULE (ctl_flags (sched_ctl s c))\<rparr>)"
  by (simp_all add: make_reschedule_request_def kick_pcpu_def do_swi_def Let_def)

text \<open>Taking a free scheduler lock succeeds; its release restores everything.\<close>

definition with_lock :: "nat \<Rightarrow> 'a sched_state_scheme \<Rightarrow> 'a sched_state_scheme" where
  "with_lock c s = upd_ctl c (\<lambda>k. k\<lparr>scheduler_lock := (scheduler_lock k)
     \<lparr>lock_head := lock_head (scheduler_lock k) + 1\<rparr>\<rparr>) (local_irq_disable s)"

lemma obtain_schedule_lock_free:
  "lock_free (scheduler_lock (sched_ctl s c)) \<Longrightarrow>
    obtain_schedule_lock c s = Some (sstatus s, with_lock c s)"
  by (simp add: obtain_schedule_lock_def with_lock_def local_irq_save_def local_irq_disable_def
      spinlock_obtain_free upd_ctl_def)

lemma with_lock_fields [simp]:
  "threads (with_lock c s) = threads s" "idle (with_lock c s) = idle s" "pcpu_id (with_lock c s) = pcpu_id s"
  "curr_obj (sched_ctl (with_lock c s) d) = curr_obj (sched_ctl s d)"
  "ctl_flags (sched_ctl (with_lock c s) d) = ctl_flags (sched_ctl s d)"
  "policy_same s (with_lock c s)"
  by (simp_all add: with_lock_def local_irq_disable_def policy_same_def upd_ctl_def)

lemma release_schedule_lock_fields [simp]:
  "threads (release_schedule_lock c x s) = threads s" "idle (release_schedule_lock c x s) = idle s"
  "pcpu_id (release_schedule_lock c x s) = pcpu_id s" "sstatus (release_schedule_lock c x s) = x"
  "curr_obj (sched_ctl (release_schedule_lock c x s) d) = curr_obj (sched_ctl s d)"
  "ctl_flags (sched_ctl (release_schedule_lock c x s) d) = ctl_flags (sched_ctl s d)"
  by (simp_all add: release_schedule_lock_def local_irq_restore_def upd_ctl_def)

text \<open>The lock of \<open>c\<close> is held, those of the other harts are as in \<open>s\<close>.\<close>

definition locked :: "nat \<Rightarrow> 'a sched_state_scheme \<Rightarrow> bool" where
  "locked c s \<longleftrightarrow> (\<forall>d. lock_free (if d = c then spinlock_release (scheduler_lock (sched_ctl s d))
     else scheduler_lock (sched_ctl s d)))"

lemma locked_with_lock: "\<forall>d. lock_free (scheduler_lock (sched_ctl s d)) \<Longrightarrow> locked c (with_lock c s)"
  by (auto simp: locked_def with_lock_def local_irq_disable_def spinlock_release_def lock_free_def)

lemma locked_release:
  "locked c s \<Longrightarrow> lock_free (scheduler_lock (sched_ctl (release_schedule_lock c x s) d))"
  by (auto simp: locked_def release_schedule_lock_def local_irq_restore_def split: if_splits)

lemma locked_cong:
  "(\<And>d. scheduler_lock (sched_ctl s' d) = scheduler_lock (sched_ctl s d)) \<Longrightarrow> locked c s' = locked c s"
  by (simp add: locked_def cong: if_cong)

subsection \<open>The contract of a scheduling policy\<close>

text \<open>
  \<open>runq c s\<close> is the set of threads of hart \<open>c\<close> that the policy holds runnable, \<open>thr c\<close>
  the threads that live on \<open>c\<close>.  A policy keeps its invariant, touches only its own
  data, adds on wake, removes on sleep and picks a member, or the idle thread
  if there is none.  The switch functions leave the scheduler alone.
\<close>

text \<open>
  The scheduler invariant.  Locks are free between operations; each hart runs
  one of its threads or its idle thread, and only that one is RUNNING; a
  thread is in the run queue iff it is neither blocked nor about to block.
\<close>

definition sched_core ::
  "(nat \<Rightarrow> 'a sched_state_scheme \<Rightarrow> addr set) \<Rightarrow> (nat \<Rightarrow> addr set) \<Rightarrow> 'a sched_state_scheme \<Rightarrow> bool" where
  "sched_core runq thr s \<longleftrightarrow>
    (\<forall>c. idle s c \<noteq> 0 \<and> thr_pcpu_id (threads s (idle s c)) = c \<and> (\<forall>d. idle s c \<notin> thr d)
       \<and> \<not> be_blocking (threads s (idle s c))) \<and>
    (\<forall>c. \<forall>t \<in> thr c. thr_pcpu_id (threads s t) = c
       \<and> (t \<in> runq c s \<longleftrightarrow> \<not> is_blocked s t \<and> \<not> be_blocking (threads s t))
       \<and> (be_blocking (threads s t) \<longrightarrow> is_running s t)) \<and>
    (\<forall>c. curr_obj (sched_ctl s c) \<in> insert (idle s c) (thr c)) \<and>
    (\<forall>c. \<forall>t \<in> insert (idle s c) (thr c). is_running s t \<longleftrightarrow> t = curr_obj (sched_ctl s c))"

definition sched_inv ::
  "('a sched_state_scheme \<Rightarrow> bool) \<Rightarrow> (nat \<Rightarrow> 'a sched_state_scheme \<Rightarrow> addr set) \<Rightarrow> (nat \<Rightarrow> addr set) \<Rightarrow>
   'a sched_state_scheme \<Rightarrow> bool" where
  "sched_inv pinv runq thr s \<longleftrightarrow>
    pinv s \<and> (\<forall>c. lock_free (scheduler_lock (sched_ctl s c))) \<and> sched_core runq thr s"

lemma sched_core_cong:
  assumes "threads s' = threads s" "idle s' = idle s"
    "\<And>c. curr_obj (sched_ctl s' c) = curr_obj (sched_ctl s c)" "\<And>c. runq c s' = runq c s"
  shows "sched_core runq thr s' = sched_core runq thr s"
  using assms by (simp add: sched_core_def is_blocked_def is_running_def)

text \<open>Instances of the invariant for one thread.\<close>

lemma sched_core_running:
  "sched_core runq thr s \<Longrightarrow> u \<in> insert (idle s d) (thr d) \<Longrightarrow> is_running s u \<longleftrightarrow> u = curr_obj (sched_ctl s d)"
  unfolding sched_core_def by blast

lemma sched_core_curr:
  assumes "sched_core runq thr s"
  shows "curr_obj (sched_ctl s d) \<in> insert (idle s d) (thr d)" "is_running s (curr_obj (sched_ctl s d))"
proof -
  show "curr_obj (sched_ctl s d) \<in> insert (idle s d) (thr d)" using assms unfolding sched_core_def by blast
  thus "is_running s (curr_obj (sched_ctl s d))" using sched_core_running [OF assms] by blast
qed

lemma sched_core_thr:
  assumes "sched_core runq thr s" "u \<in> thr d"
  shows "thr_pcpu_id (threads s u) = d" "u \<in> runq d s \<longleftrightarrow> \<not> is_blocked s u \<and> \<not> be_blocking (threads s u)"
    "be_blocking (threads s u) \<Longrightarrow> is_running s u"
  using assms unfolding sched_core_def by blast+

lemma sched_core_idle:
  assumes "sched_core runq thr s"
  shows "idle s d \<noteq> 0" "thr_pcpu_id (threads s (idle s d)) = d" "idle s d \<notin> thr e"
    "\<not> be_blocking (threads s (idle s d))"
  using assms unfolding sched_core_def by blast+

lemma sched_core_home:
  "sched_core runq thr s \<Longrightarrow> u \<in> insert (idle s d) (thr d) \<Longrightarrow> thr_pcpu_id (threads s u) = d"
  using sched_core_idle(2) sched_core_thr(1) by blast

lemma sched_core_change:
  assumes core: "sched_core runq thr s" and t: "t \<in> thr c" and disj: "\<And>d. t \<in> thr d \<Longrightarrow> d = c"
    and th: "threads s' = (threads s)(t := r)" "idle s' = idle s"
    and cur: "\<And>d. curr_obj (sched_ctl s' d) = curr_obj (sched_ctl s d)"
    and q: "\<And>d. d \<noteq> c \<Longrightarrow> runq d s' = runq d s" "\<And>u. u \<noteq> t \<Longrightarrow> u \<in> runq c s' \<longleftrightarrow> u \<in> runq c s"
    and r: "thr_pcpu_id r = c" "t \<in> runq c s' \<longleftrightarrow> thr_status r \<noteq> THREAD_STS_BLOCKED \<and> \<not> be_blocking r"
      "be_blocking r \<Longrightarrow> thr_status r = THREAD_STS_RUNNING"
      "thr_status r = THREAD_STS_RUNNING \<longleftrightarrow> t = curr_obj (sched_ctl s c)"
  shows "sched_core runq thr s'"
proof -
  have nid: "idle s d \<noteq> t" for d using core t by (auto simp: sched_core_def)
  have other: "threads s' u = threads s u" "is_blocked s' u = is_blocked s u" "is_running s' u = is_running s u"
    if "u \<noteq> t" for u
    using that th by (simp_all add: is_blocked_def is_running_def)
  have "thr_pcpu_id (threads s' u) = d \<and> (u \<in> runq d s' \<longleftrightarrow> \<not> is_blocked s' u \<and> \<not> be_blocking (threads s' u))
       \<and> (be_blocking (threads s' u) \<longrightarrow> is_running s' u)" if "u \<in> thr d" for u d
  proof (cases "u = t")
    case True
    thus ?thesis using r disj [of d] that th by (auto simp: is_blocked_def is_running_def)
  next
    case False
    thus ?thesis using core that q other [OF False] by (cases "d = c") (auto simp: sched_core_def)
  qed
  moreover have "is_running s' u \<longleftrightarrow> u = curr_obj (sched_ctl s' d)" if "u \<in> insert (idle s' d) (thr d)" for u d
  proof (cases "u = t")
    case True
    thus ?thesis using r(4) disj [of d] that th nid cur by (auto simp: is_running_def)
  next
    case False
    thus ?thesis using core that other [OF False] th cur by (auto simp: sched_core_def)
  qed
  moreover have "threads s' (idle s' d) = threads s (idle s d)" for d using nid th by simp
  ultimately show ?thesis using core th(2) cur unfolding sched_core_def by simp
qed

lemma sched_core_switch:
  assumes core: "sched_core runq thr s" and nz: "\<And>d. 0 \<notin> thr d"
    and pn: "prev = curr_obj (sched_ctl s c)" "prev \<noteq> nxt" "nxt \<in> insert (idle s c) (runq c s)"
    and sub: "runq c s \<subseteq> thr c"
    and th: "threads s' = (threads s)
      (prev := (threads s prev)\<lparr>thr_status := if be_blocking (threads s prev) then THREAD_STS_BLOCKED else THREAD_STS_RUNNABLE,
                be_blocking := False\<rparr>,
       nxt := (threads s nxt)\<lparr>thr_status := THREAD_STS_RUNNING\<rparr>)"
    and rest: "idle s' = idle s" "\<And>d. curr_obj (sched_ctl s' d) = (if d = c then nxt else curr_obj (sched_ctl s d))"
      "\<And>d. runq d s' = runq d s"
  shows "sched_core runq thr s'"
proof -
  let ?H = "\<lambda>d. insert (idle s d) (thr d)"
  have p: "prev \<in> ?H c" "is_running s prev" and n: "nxt \<in> ?H c"
    using sched_core_curr [OF core] pn sub by auto
  have nb: "\<not> be_blocking (threads s nxt)" "nxt \<in> thr c \<Longrightarrow> \<not> is_blocked s nxt"
    using sched_core_idle [OF core] sched_core_thr(2) [OF core, of nxt c] pn(3) sub by auto
  have home: "u \<in> ?H d \<Longrightarrow> u = prev \<or> u = nxt \<Longrightarrow> d = c" for u d
    using sched_core_home [OF core] p(1) n by metis
  have pcpu: "thr_pcpu_id (threads s' u) = thr_pcpu_id (threads s u)" for u using th by simp
  have "idle s' d \<noteq> 0 \<and> thr_pcpu_id (threads s' (idle s' d)) = d \<and> (\<forall>e. idle s' d \<notin> thr e)
       \<and> \<not> be_blocking (threads s' (idle s' d))" for d
    using sched_core_idle [OF core] rest(1) pcpu th nb by auto
  moreover have "thr_pcpu_id (threads s' u) = d \<and> (u \<in> runq d s' \<longleftrightarrow> \<not> is_blocked s' u \<and> \<not> be_blocking (threads s' u))
       \<and> (be_blocking (threads s' u) \<longrightarrow> is_running s' u)" if u: "u \<in> thr d" for u d
  proof -
    have h: "thr_pcpu_id (threads s' u) = d"
      "u \<in> runq d s' \<longleftrightarrow> \<not> is_blocked s u \<and> \<not> be_blocking (threads s u)"
      "be_blocking (threads s u) \<longrightarrow> is_running s u"
      using sched_core_thr [OF core u] rest(3) pcpu by auto
    consider "u = nxt" | "u = prev" | "u \<noteq> nxt" "u \<noteq> prev" by blast
    thus ?thesis
    proof cases
      case 1
      thus ?thesis using h nb home u th by (auto simp: is_blocked_def is_running_def)
    next
      case 2
      thus ?thesis using h p(2) pn(2) th by (auto simp: is_blocked_def is_running_def)
    qed (use h th in \<open>auto simp: is_blocked_def is_running_def\<close>)
  qed
  moreover have "is_running s' u \<longleftrightarrow> u = curr_obj (sched_ctl s' d)" if u: "u \<in> ?H d" for u d
  proof -
    have h: "is_running s u \<longleftrightarrow> u = curr_obj (sched_ctl s d)" using core u by (rule sched_core_running)
    consider "u = nxt" | "u = prev" | "u \<noteq> nxt" "u \<noteq> prev" by blast
    thus ?thesis
    proof cases
      case 1
      thus ?thesis using home [OF u] th rest(2) by (auto simp: is_running_def)
    next
      case 2
      thus ?thesis using home [OF u] pn(2) th rest(2) by (auto simp: is_running_def)
    qed (use h th rest(2) pn(1) in \<open>auto simp: is_running_def\<close>)
  qed
  moreover have "curr_obj (sched_ctl s' d) \<in> ?H d" for d using sched_core_curr [OF core] n rest(2) by auto
  ultimately show ?thesis using rest(1) unfolding sched_core_def by simp
qed

locale sched_policy =
  fixes sc :: "'a sched_state_scheme acrn_scheduler"
    and sw :: "'a sched_state_scheme thread_fn"
    and pinv :: "'a sched_state_scheme \<Rightarrow> bool"
    and runq :: "nat \<Rightarrow> 'a sched_state_scheme \<Rightarrow> addr set"
    and thr :: "nat \<Rightarrow> addr set"
  assumes thr_nonzero: "0 \<notin> thr c"
    and thr_disjoint: "t \<in> thr c \<Longrightarrow> t \<in> thr d \<Longrightarrow> c = d"
    and inv_runq: "pinv s \<Longrightarrow> runq c s \<subseteq> thr c"
    and inv_upd: "pinv s \<Longrightarrow> policy_same s s' \<Longrightarrow> pinv s'"
    and runq_upd: "policy_same s s' \<Longrightarrow> runq c s' = runq c s"
    and pick_ok: "pinv s \<Longrightarrow> c = pcpu_id s \<Longrightarrow> curr_obj (sched_ctl s c) \<in> insert (idle s c) (thr c) \<Longrightarrow>
      thr_pcpu_id (threads s (curr_obj (sched_ctl s c))) = c \<Longrightarrow> \<forall>d. idle s c \<notin> thr d \<Longrightarrow>
      \<exists>f t s'. pick_next_op sc = Some f \<and> f c s = Some (t, s') \<and> pinv s' \<and> sched_same s s' \<and>
        (\<forall>d. runq d s' = runq d s) \<and> t \<in> (if runq c s = {} then {idle s c} else runq c s)"
    and sleep_ok: "pinv s \<Longrightarrow> t \<in> thr c \<Longrightarrow>
      \<exists>f s'. sleep_op sc = Some f \<and> f t s = Some s' \<and> pinv s' \<and> sched_same s s' \<and>
        runq c s' = runq c s - {t} \<and> (\<forall>d. d \<noteq> c \<longrightarrow> runq d s' = runq d s)"
    and wake_ok: "pinv s \<Longrightarrow> t \<in> thr c \<Longrightarrow> thr_pcpu_id (threads s t) = c \<Longrightarrow>
      \<exists>f s'. wake_op sc = Some f \<and> f t s = Some s' \<and> pinv s' \<and> sched_same s s' \<and>
        runq c s' = insert t (runq c s) \<and> (\<forall>d. d \<noteq> c \<longrightarrow> runq d s' = runq d s)"
    and switch_ok: "pinv s \<Longrightarrow>
      \<exists>s'. sw g t s = Some s' \<and> pinv s' \<and> sched_same s s' \<and> (\<forall>d. runq d s' = runq d s)"
begin

lemma sched_inv_lock:
  assumes "sched_inv pinv runq thr s"
  shows "obtain_schedule_lock c s = Some (sstatus s, with_lock c s)" "pinv (with_lock c s)"
    "locked c (with_lock c s)" "runq d (with_lock c s) = runq d s"
    "sched_core runq thr (with_lock c s)"
proof -
  show "obtain_schedule_lock c s = Some (sstatus s, with_lock c s)" "locked c (with_lock c s)"
    using assms by (simp_all add: sched_inv_def obtain_schedule_lock_free locked_with_lock)
  show "pinv (with_lock c s)" using assms inv_upd [OF _ with_lock_fields(6)] by (simp add: sched_inv_def)
  show runq: "runq d (with_lock c s) = runq d s" for d by (rule runq_upd) simp
  show "sched_core runq thr (with_lock c s)"
    using assms sched_core_cong [of "with_lock c s" s] runq by (simp add: sched_inv_def)
qed

lemma sched_inv_unlock:
  assumes "pinv s" "locked c s" "sched_core runq thr s"
  shows "sched_inv pinv runq thr (release_schedule_lock c x s)"
proof -
  have "runq d (release_schedule_lock c x s) = runq d s" for d by (rule runq_upd) simp
  hence "sched_core runq thr (release_schedule_lock c x s)"
    using assms(3) sched_core_cong [of "release_schedule_lock c x s" s] by simp
  moreover have "pinv (release_schedule_lock c x s)" using assms(1) by (rule inv_upd) simp
  ultimately show ?thesis using assms(2) by (simp add: sched_inv_def locked_release)
qed

lemma sched_same_locked: "sched_same s s' \<Longrightarrow> locked c s \<Longrightarrow> locked c s'"
  using locked_cong [of s' s c] by (simp add: sched_same_def)

lemma sleep_thread_ok:
  assumes s: "sched_inv pinv runq thr s" and t: "t \<in> thr c"
  shows "\<exists>s'. sleep_thread sc t s = Some s' \<and> sched_inv pinv runq thr s' \<and> sstatus s' = sstatus s
    \<and> runq c s' = runq c s - {t}
    \<and> (if is_running s t then be_blocking (threads s' t) \<and> need_reschedule s' c else is_blocked s' t)"
proof -
  let ?w = "with_lock c s"
  note w = sched_inv_lock [OF s, where c = c]
  have c: "thr_pcpu_id (threads s t) = c" using s t by (auto simp: sched_inv_def sched_core_def)
  obtain f s2 where f: "sleep_op sc = Some f" "f t ?w = Some s2" and s2: "pinv s2" "sched_same ?w s2"
      "runq c s2 = runq c s - {t}" "\<And>d. d \<noteq> c \<Longrightarrow> runq d s2 = runq d s"
    using sleep_ok [OF w(2) t] w(4) by auto
  define s3 where "s3 = (if is_running s2 t then set_be_blocking t True (make_reschedule_request c s2)
    else set_thread_status t THREAD_STS_BLOCKED s2)"
  have same: "threads s2 = threads s" "idle s2 = idle s" "\<And>d. curr_obj (sched_ctl s2 d) = curr_obj (sched_ctl s d)"
    using s2(2) by (simp_all add: sched_same_def)
  have eq: "sleep_thread sc t s = Some (release_schedule_lock c (sstatus s) s3)"
    using c w(1) f by (simp add: sleep_thread_def s3_def)
  have p: "policy_same s2 s3" unfolding s3_def
    by (auto intro: policy_same_trans [OF policy_same_upds(4) policy_same_upds(3)])
  have runq3: "runq d s3 = runq d s2" for d using p by (rule runq_upd)
  have lk: "locked c s3" using sched_same_locked [OF s2(2) w(3)]
    by (subst locked_cong [of _ s2]) (auto simp: s3_def set_be_blocking_def set_thread_status_def)
  have core: "sched_core runq thr s3"
  proof (rule sched_core_change [of runq thr s t c _ "threads s3 t"])
    show "sched_core runq thr s" using s by (simp add: sched_inv_def)
    show "d = c" if "t \<in> thr d" for d using thr_disjoint that t by blast
    show "threads s3 = (threads s)(t := threads s3 t)" "idle s3 = idle s"
      "curr_obj (sched_ctl s3 d) = curr_obj (sched_ctl s d)" for d
      using same by (simp_all add: s3_def set_be_blocking_def set_thread_status_def)
    show "runq d s3 = runq d s" if "d \<noteq> c" for d using that s2(4) runq3 by simp
    show "u \<in> runq c s3 \<longleftrightarrow> u \<in> runq c s" if "u \<noteq> t" for u using that s2(3) runq3 by simp
    show "thr_pcpu_id (threads s3 t) = c"
      using c same by (simp add: s3_def set_be_blocking_def set_thread_status_def)
    show "t \<in> runq c s3 \<longleftrightarrow> thr_status (threads s3 t) \<noteq> THREAD_STS_BLOCKED \<and> \<not> be_blocking (threads s3 t)"
      using s2(3) runq3 by (simp add: s3_def set_be_blocking_def set_thread_status_def)
    show "thr_status (threads s3 t) = THREAD_STS_RUNNING" if "be_blocking (threads s3 t)"
      using that same sched_core_thr(3) [of runq thr s t c] s t
      by (auto simp: s3_def set_be_blocking_def set_thread_status_def is_running_def sched_inv_def
          split: if_splits)
    show "thr_status (threads s3 t) = THREAD_STS_RUNNING \<longleftrightarrow> t = curr_obj (sched_ctl s c)"
      using same sched_core_running [of runq thr s t c] s t
      by (auto simp: s3_def set_be_blocking_def set_thread_status_def is_running_def sched_inv_def)
  qed (rule t)
  have "sched_inv pinv runq thr (release_schedule_lock c (sstatus s) s3)"
    using inv_upd [OF s2(1) p] lk core by (rule sched_inv_unlock)
  moreover have "runq c (release_schedule_lock c (sstatus s) s3) = runq c s - {t}"
    using runq_upd [OF policy_same_upds(5)] runq3 s2(3) by simp
  ultimately show ?thesis using eq same
    by (auto simp: s3_def set_be_blocking_def set_thread_status_def is_running_def is_blocked_def
        need_reschedule_def lockmap.test_set NEED_RESCHEDULE_def)
qed

lemma sleep_thread_pcpu:
  assumes s: "sched_inv pinv runq thr s" and t: "t \<in> thr c" and "sleep_thread sc t s = Some s'"
  shows "pcpu_id s' = pcpu_id s"
proof -
  note w = sched_inv_lock [OF s, where c = c]
  have c: "thr_pcpu_id (threads s t) = c" using s t by (auto simp: sched_inv_def sched_core_def)
  obtain f s2 where "sleep_op sc = Some f" "f t (with_lock c s) = Some s2" "sched_same (with_lock c s) s2"
    using sleep_ok [OF w(2) t] by auto
  thus ?thesis using assms(3) c w(1)
    by (auto simp: sleep_thread_def sched_same_def set_be_blocking_def set_thread_status_def split: if_splits)
qed

lemma wake_thread_ok:
  assumes s: "sched_inv pinv runq thr s" and t: "t \<in> thr c"
  shows "\<exists>s'. wake_thread sc t s = Some s' \<and> sched_inv pinv runq thr s' \<and> sstatus s' = sstatus s
    \<and> runq c s' = insert t (runq c s) \<and> \<not> is_blocked s' t \<and> \<not> be_blocking (threads s' t)
    \<and> (is_blocked s t \<longrightarrow> need_reschedule s' c)"
proof (cases "is_blocked s t \<or> be_blocking (threads s t)")
  case False
  note w = sched_inv_lock [OF s, where c = c]
  have c: "thr_pcpu_id (threads s t) = c" "t \<in> runq c s"
    using s t False by (auto simp: sched_inv_def sched_core_def)
  have "wake_thread sc t s = Some (release_schedule_lock c (sstatus s) (with_lock c s))"
    using c w(1) False by (simp add: wake_thread_def is_blocked_def)
  moreover have "sched_inv pinv runq thr (release_schedule_lock c (sstatus s) (with_lock c s))"
    using w(2,3,5) by (rule sched_inv_unlock)
  moreover have "runq c (release_schedule_lock c (sstatus s) (with_lock c s)) = runq c s"
    using runq_upd [OF policy_same_upds(5)] w(4) by simp
  ultimately show ?thesis using c(2) False by (auto simp: is_blocked_def)
next
  case True
  let ?w = "with_lock c s"
  note w = sched_inv_lock [OF s, where c = c]
  have c: "thr_pcpu_id (threads s t) = c" using s t by (auto simp: sched_inv_def sched_core_def)
  obtain f s2 where f: "wake_op sc = Some f" "f t ?w = Some s2" and s2: "pinv s2" "sched_same ?w s2"
      "runq c s2 = insert t (runq c s)" "\<And>d. d \<noteq> c \<Longrightarrow> runq d s2 = runq d s"
    using wake_ok [OF w(2) t] w(4) c by auto
  define s3 where "s3 = set_be_blocking t False (if is_blocked s2 t
    then make_reschedule_request c (set_thread_status t THREAD_STS_RUNNABLE s2) else s2)"
  note upds = s3_def set_be_blocking_def set_thread_status_def
  have same: "threads s2 = threads s" "idle s2 = idle s" "\<And>d. curr_obj (sched_ctl s2 d) = curr_obj (sched_ctl s d)"
    using s2(2) by (simp_all add: sched_same_def)
  have eq: "wake_thread sc t s = Some (release_schedule_lock c (sstatus s) s3)"
    using c w(1) f True by (simp add: wake_thread_def s3_def is_blocked_def)
  have p: "policy_same s2 s3" unfolding s3_def
    by (auto intro: policy_same_trans [OF policy_same_trans [OF policy_same_upds(2) policy_same_upds(4)]
        policy_same_upds(3)])
  have runq3: "runq d s3 = runq d s2" for d using p by (rule runq_upd)
  have lk: "locked c s3" using sched_same_locked [OF s2(2) w(3)]
    by (subst locked_cong [of _ s2]) (auto simp: upds)
  have core: "sched_core runq thr s3"
  proof (rule sched_core_change [of runq thr s t c _ "threads s3 t"])
    show "sched_core runq thr s" using s by (simp add: sched_inv_def)
    show "d = c" if "t \<in> thr d" for d using thr_disjoint that t by blast
    show "threads s3 = (threads s)(t := threads s3 t)" "idle s3 = idle s"
      "curr_obj (sched_ctl s3 d) = curr_obj (sched_ctl s d)" "thr_pcpu_id (threads s3 t) = c" for d
      using same c by (simp_all add: upds)
    show "runq d s3 = runq d s" if "d \<noteq> c" for d using that s2(4) runq3 by simp
    show "u \<in> runq c s3 \<longleftrightarrow> u \<in> runq c s" if "u \<noteq> t" for u using that s2(3) runq3 by simp
    show "t \<in> runq c s3 \<longleftrightarrow> thr_status (threads s3 t) \<noteq> THREAD_STS_BLOCKED \<and> \<not> be_blocking (threads s3 t)"
      using s2(3) runq3 by (simp add: upds is_blocked_def)
    show "thr_status (threads s3 t) = THREAD_STS_RUNNING" if "be_blocking (threads s3 t)"
      using that by (simp add: upds)
    show "thr_status (threads s3 t) = THREAD_STS_RUNNING \<longleftrightarrow> t = curr_obj (sched_ctl s c)"
      using same sched_core_running [of runq thr s t c] s t
      by (auto simp: upds is_running_def is_blocked_def sched_inv_def)
  qed (rule t)
  have "sched_inv pinv runq thr (release_schedule_lock c (sstatus s) s3)"
    using inv_upd [OF s2(1) p] lk core by (rule sched_inv_unlock)
  moreover have "runq c (release_schedule_lock c (sstatus s) s3) = insert t (runq c s)"
    using runq_upd [OF policy_same_upds(5)] runq3 s2(3) by simp
  ultimately show ?thesis using eq same
    by (auto simp: upds is_blocked_def need_reschedule_def lockmap.test_set NEED_RESCHEDULE_def)
qed

lemma run_switch_ok:
  assumes "pinv s"
  shows "\<exists>s'. run_switch sw g t s = Some s' \<and> pinv s' \<and> sched_same s s' \<and> (\<forall>d. runq d s' = runq d s)"
  using assms switch_ok by (cases g) (auto simp: run_switch_def sched_same_def)

lemma schedule_ok:
  assumes s: "sched_inv pinv runq thr s"
  defines "c \<equiv> pcpu_id s"
  shows "\<exists>s'. schedule sc sw s = Some s' \<and> sched_inv pinv runq thr s' \<and> sstatus s' = sstatus s
    \<and> (\<forall>d. runq d s' = runq d s) \<and> \<not> need_reschedule s' c
    \<and> curr_obj (sched_ctl s' c) \<in> (if runq c s = {} then {idle s c} else runq c s)
    \<and> is_running s' (curr_obj (sched_ctl s' c))
    \<and> (be_blocking (threads s (curr_obj (sched_ctl s c))) \<longrightarrow> is_blocked s' (curr_obj (sched_ctl s c)))"
proof -
  let ?w = "with_lock c s" and ?prev = "curr_obj (sched_ctl s c)"
  note w = sched_inv_lock [OF s, where c = c]
  have core: "sched_core runq thr s" using s by (simp add: sched_inv_def)
  have cur: "?prev \<in> insert (idle s c) (thr c)" "thr_pcpu_id (threads s ?prev) = c" "\<forall>d. idle s c \<notin> thr d"
    "is_running s ?prev"
    using sched_core_curr [OF core, of c] sched_core_idle [OF core]
      sched_core_home [OF core, of "curr_obj (sched_ctl s c)" c] by auto
  have nz: "?prev \<noteq> 0" using cur(1) thr_nonzero [of c] sched_core_idle(1) [OF core] by (metis insertE)
  have cw: "c = pcpu_id ?w" by (simp add: c_def)
  obtain f nxt s2 where f: "pick_next_op sc = Some f" "f c ?w = Some (nxt, s2)" and s2: "pinv s2" "sched_same ?w s2"
      "\<And>d. runq d s2 = runq d s" and nxt: "nxt \<in> (if runq c s = {} then {idle s c} else runq c s)"
    using pick_ok [OF w(2) cw, unfolded with_lock_fields w(4), OF cur(1,2,3)] by blast
  define s3 where "s3 = upd_ctl c (\<lambda>k. k\<lparr>ctl_flags := bitmap_clear_lock NEED_RESCHEDULE (ctl_flags k)\<rparr>) s2"
  have s3: "pinv s3" "\<And>d. runq d s3 = runq d s" "threads s3 = threads s" "idle s3 = idle s" "locked c s3"
    "\<And>d. curr_obj (sched_ctl s3 d) = curr_obj (sched_ctl s d)" "\<not> need_reschedule s3 c"
    using s2 inv_upd [of s2 s3] runq_upd [of s2 s3] sched_same_locked [OF s2(2) w(3)] locked_cong [of s3 s2 c]
    by (auto simp: s3_def sched_same_def need_reschedule_def NEED_RESCHEDULE_def lockmap.test_clear)
  have core3: "sched_core runq thr s3" using core sched_core_cong [of s3 s] s3 by simp
  show ?thesis
  proof (cases "?prev = nxt")
    case True
    let ?r = "release_schedule_lock c (sstatus s) s3"
    have "schedule sc sw s = Some ?r"
      using w(1) f True by (simp add: schedule_def get_pcpu_id_def s3_def flip: c_def)
    moreover have "sched_inv pinv runq thr ?r" using s3(1,5) core3 by (rule sched_inv_unlock)
    moreover have "\<not> be_blocking (threads s ?prev)"
      using True nxt sched_core_idle(4) [OF core] sched_core_thr(2) [OF core, of nxt c]
        inv_runq [of s c] s by (auto simp: sched_inv_def split: if_splits)
    ultimately show ?thesis
      using True nxt s3 cur(4) runq_upd [OF policy_same_upds(5)] by (auto simp: need_reschedule_def is_running_def)
  next
    case False
    define st where "st = (if be_blocking (threads s ?prev) then THREAD_STS_BLOCKED else THREAD_STS_RUNNABLE)"
    obtain s4 where s4: "run_switch sw (switch_out (threads s3 ?prev)) ?prev s3 = Some s4" "pinv s4" "sched_same s3 s4"
      "\<And>d. runq d s4 = runq d s" using run_switch_ok [OF s3(1)] s3(2) by metis
    define s5 where "s5 = set_be_blocking ?prev False (set_thread_status ?prev st s4)"
    have p5: "policy_same s4 s5" unfolding s5_def
      by (rule policy_same_trans [OF policy_same_upds(2) policy_same_upds(3)])
    obtain s6 where s6: "run_switch sw (switch_in (threads s5 nxt)) nxt s5 = Some s6" "pinv s6" "sched_same s5 s6"
      "\<And>d. runq d s6 = runq d s"
      using run_switch_ok [OF inv_upd [OF s4(2) p5]] runq_upd [OF p5] s4(4) by metis
    define s7 where "s7 = upd_ctl c (\<lambda>k. k\<lparr>curr_obj := nxt\<rparr>) (set_thread_status nxt THREAD_STS_RUNNING s6)"
    have p7: "policy_same s6 s7" unfolding s7_def
      by (rule policy_same_trans [OF policy_same_upds(2) policy_same_upds(1)])
    have th: "threads s7 = (threads s)(?prev := (threads s ?prev)\<lparr>thr_status := st, be_blocking := False\<rparr>,
        nxt := (threads s nxt)\<lparr>thr_status := THREAD_STS_RUNNING\<rparr>)"
      and ctl: "sched_ctl s7 = (sched_ctl s3)(c := (sched_ctl s3 c)\<lparr>curr_obj := nxt\<rparr>)" "idle s7 = idle s"
      using s4(3) s6(3) s3(3,4) False
      by (auto simp: s7_def s5_def sched_same_def set_thread_status_def set_be_blocking_def fun_eq_iff)
    have runq7: "runq d s7 = runq d s" for d using runq_upd [OF p7] s6(4) by simp
    have "sched_core runq thr s7"
      using nxt inv_runq [of s c] s runq7 ctl s3(6) False
      by (intro sched_core_switch [OF core thr_nonzero refl, where nxt = nxt])
        (auto simp: th st_def sched_inv_def split: if_splits)
    moreover have "locked c s7" using s3(5) locked_cong [of s7 s3 c] ctl by simp
    ultimately have inv7: "sched_inv pinv runq thr (release_schedule_lock c (sstatus s) s7)"
      using sched_inv_unlock inv_upd [OF s6(2) p7] by blast
    have st4: "(if be_blocking (threads s4 ?prev) then THREAD_STS_BLOCKED else THREAD_STS_RUNNABLE) = st"
      using s4(3) s3(3) by (simp add: sched_same_def st_def)
    have "schedule sc sw s = Some (release_schedule_lock c (sstatus s) s7)"
      using w(1) f False nz s4(1) s6(1)
      by (simp add: schedule_def get_pcpu_id_def s7_def s5_def st4 flip: c_def s3_def)
    then obtain s' where "schedule sc sw s = Some s'" "sched_inv pinv runq thr s'" "sstatus s' = sstatus s"
      "\<And>d. runq d s' = runq d s" "\<not> need_reschedule s' c" "curr_obj (sched_ctl s' c) = nxt"
      "be_blocking (threads s ?prev) \<longrightarrow> is_blocked s' ?prev"
      using inv7 runq7 runq_upd [OF policy_same_upds(5)] ctl s3(7) th False
      by (auto simp: need_reschedule_def is_blocked_def st_def)
    moreover have "is_running s' nxt"
      using calculation(2,6) sched_core_curr(2) by (metis sched_inv_def)
    ultimately show ?thesis using nxt by auto
  qed
qed

end

end
