(* ===== verification/Sched_Iorr.thy ===== *)
theory Sched_Iorr
  imports Schedule
begin

text \<open>
  The I/O-sensitive round-robin policy, \<open>common/sched_iorr.c\<close>, which the RISC-V
  port is built with.  The signed cycle budget is a 64-bit word read with
  \<open>sint\<close>.  The run queue of a hart is an intrusive list; the lemmas relate it to
  a HOL list of threads and interpret the policy contract on it.
\<close>

subsection \<open>State\<close>

record sched_iorr_data =
  slice_cycles :: u64
  last_cycles :: u64
  left_cycles :: u64

record iorr_state = sched_state +
  iorr_data :: "addr \<Rightarrow> sched_iorr_data"
  iorr_runqueue :: "nat \<Rightarrow> addr"
  iorr_tick_timer :: "nat \<Rightarrow> addr"

definition CONFIG_SLICE_MS :: u64 where "CONFIG_SLICE_MS = 10"

text \<open>The function pointer \<open>sched_tick_handler\<close>.\<close>

definition SCHED_TICK_HANDLER :: nat where "SCHED_TICK_HANDLER = 1"

definition upd_iorr_data ::
  "addr \<Rightarrow> (sched_iorr_data \<Rightarrow> sched_iorr_data) \<Rightarrow> 'a iorr_state_scheme \<Rightarrow> 'a iorr_state_scheme" where
  "upd_iorr_data obj f s = s\<lparr>iorr_data := (iorr_data s)(obj := f (iorr_data s obj))\<rparr>"

subsection \<open>Operations\<close>

definition is_inqueue :: "'a iorr_state_scheme \<Rightarrow> addr \<Rightarrow> bool" where
  "is_inqueue s obj = (\<not> list_empty s obj)"

definition runqueue_add_head :: "addr \<Rightarrow> 'a iorr_state_scheme \<Rightarrow> 'a iorr_state_scheme" where
  "runqueue_add_head obj s =
    (if \<not> is_inqueue s obj then list_add obj (iorr_runqueue s (thr_sched_ctl (threads s obj))) s else s)"

definition runqueue_add_tail :: "addr \<Rightarrow> 'a iorr_state_scheme \<Rightarrow> 'a iorr_state_scheme" where
  "runqueue_add_tail obj s =
    (if \<not> is_inqueue s obj then list_add_tail obj (iorr_runqueue s (thr_sched_ctl (threads s obj))) s else s)"

definition runqueue_remove :: "addr \<Rightarrow> 'a iorr_state_scheme \<Rightarrow> 'a iorr_state_scheme" where
  "runqueue_remove obj s = list_del_init obj s"

definition sched_tick_handler :: "nat \<Rightarrow> 'a iorr_state_scheme \<Rightarrow> 'a iorr_state_scheme option" where
  "sched_tick_handler ctl s =
    (let cpu = get_pcpu_id s; (now, s) = cpu_ticks s
     in do {
       (rflags, s) \<leftarrow> obtain_schedule_lock cpu s;
       let current = curr_obj (sched_ctl s ctl);
       let s =
         (if current \<noteq> 0 \<and> \<not> (is_idle_thread s current \<and> list_empty s (iorr_runqueue s ctl))
          then
            let s = (if \<not> is_idle_thread s current
                     then upd_iorr_data current (\<lambda>d. d\<lparr>left_cycles := left_cycles d - (now - last_cycles d),
                                                       last_cycles := now\<rparr>) s
                     else s)
            in if is_idle_thread s current \<or> sint (left_cycles (iorr_data s current)) \<le> 0
               then make_reschedule_request cpu s else s
          else s);
       Some (release_schedule_lock cpu rflags s)
     })"

definition sched_iorr_init :: "nat \<Rightarrow> 'a iorr_state_scheme \<Rightarrow> (int \<times> 'a iorr_state_scheme) option" where
  "sched_iorr_init ctl s =
    (let tick_period = TICKS_PER_MS s;
         s = INIT_LIST_HEAD (iorr_runqueue s ctl) s;
         (now, s) = cpu_ticks s;
         s = initialize_timer (iorr_tick_timer s ctl) (Some SCHED_TICK_HANDLER) ctl (now + tick_period) tick_period s
     in do {
       (ret, s) \<leftarrow> add_timer (iorr_tick_timer s ctl) s;
       Some (if ret < 0 then -1 else 0, s)
     })"

definition sched_iorr_deinit :: "nat \<Rightarrow> 'a iorr_state_scheme \<Rightarrow> 'a iorr_state_scheme option" where
  "sched_iorr_deinit ctl s = Some (del_timer (iorr_tick_timer s ctl) s)"

definition sched_iorr_init_data ::
  "addr \<Rightarrow> sched_params \<Rightarrow> 'a iorr_state_scheme \<Rightarrow> 'a iorr_state_scheme option" where
  "sched_iorr_init_data obj params s =
    (let s = INIT_LIST_HEAD obj s; v = CONFIG_SLICE_MS * TICKS_PER_MS s
     in Some (upd_iorr_data obj (\<lambda>d. d\<lparr>slice_cycles := v, left_cycles := v\<rparr>) s))"

text \<open>The loop that replenishes the budget of the picked thread.\<close>

partial_function (option) iorr_replenish :: "u64 \<Rightarrow> u64 \<Rightarrow> u64 option" where
  "iorr_replenish left slc = (if sint left \<le> 0 then iorr_replenish (left + slc) slc else Some left)"

declare iorr_replenish.simps [code]

definition sched_iorr_pick_next :: "nat \<Rightarrow> 'a iorr_state_scheme \<Rightarrow> (addr \<times> 'a iorr_state_scheme) option" where
  "sched_iorr_pick_next ctl s =
    (let (now, s) = cpu_ticks s;
         current = curr_obj (sched_ctl s ctl);
         s = (if \<not> is_idle_thread s current \<and> is_inqueue s current
              then
                let s = upd_iorr_data current (\<lambda>d. d\<lparr>left_cycles := left_cycles d - (now - last_cycles d)\<rparr>) s;
                    s = (if sint (left_cycles (iorr_data s current)) \<le> 0
                         then upd_iorr_data current (\<lambda>d. d\<lparr>left_cycles := left_cycles d + slice_cycles d\<rparr>) s
                         else s)
                in runqueue_add_tail current (runqueue_remove current s)
              else s)
     in if \<not> list_empty s (iorr_runqueue s ctl)
        then
          let nxt = lnext s (iorr_runqueue s ctl);
              s = upd_iorr_data nxt (\<lambda>d. d\<lparr>last_cycles := now\<rparr>) s
          in do {
            left \<leftarrow> iorr_replenish (left_cycles (iorr_data s nxt)) (slice_cycles (iorr_data s nxt));
            Some (nxt, upd_iorr_data nxt (\<lambda>d. d\<lparr>left_cycles := left\<rparr>) s)
          }
        else Some (idle s (get_pcpu_id s), s))"

definition sched_iorr_sleep :: "addr \<Rightarrow> 'a iorr_state_scheme \<Rightarrow> 'a iorr_state_scheme option" where
  "sched_iorr_sleep obj s = Some (runqueue_remove obj s)"

definition sched_iorr_wake :: "addr \<Rightarrow> 'a iorr_state_scheme \<Rightarrow> 'a iorr_state_scheme option" where
  "sched_iorr_wake obj s = Some (runqueue_add_head obj s)"

definition sched_iorr :: "'a iorr_state_scheme acrn_scheduler" where
  "sched_iorr = \<lparr>init_op = Some sched_iorr_init, init_data_op = Some sched_iorr_init_data,
     pick_next_op = Some sched_iorr_pick_next, sleep_op = Some sched_iorr_sleep,
     wake_op = Some sched_iorr_wake, deinit_data_op = None, deinit_op = Some sched_iorr_deinit\<rparr>"

subsection \<open>Replenishing terminates\<close>

lemma sint_add_nonpos:
  assumes "sint (left :: u64) \<le> 0" "0 < sint slc"
  shows "sint (left + slc) = sint left + sint slc"
proof -
  have "sint left + sint slc \<in> {- (2 ^ 63)..<2 ^ 63}"
    using assms sint_greater_eq [of left] sint_lt [of slc] by auto
  thus ?thesis by (simp add: sint_word_ariths signed_take_bit_int_eq_self)
qed

lemma iorr_replenish_terminates:
  assumes "0 < sint slc"
  shows "\<exists>v. iorr_replenish left slc = Some v \<and> 0 < sint v \<and> (0 < sint left \<longrightarrow> v = left)"
proof (induction "nat (1 - sint left)" arbitrary: left rule: less_induct)
  case less
  show ?case
  proof (cases "sint left \<le> 0")
    case True
    have "nat (1 - sint (left + slc)) < nat (1 - sint left)"
      using True assms sint_add_nonpos [OF True assms] by simp
    from less [OF this] show ?thesis
      using True by (subst iorr_replenish.simps) auto
  next
    case False
    thus ?thesis by (subst iorr_replenish.simps) auto
  qed
qed

subsection \<open>The run queues as lists\<close>

text \<open>A thread lives on one hart.\<close>

definition threads_apart :: "(nat \<Rightarrow> addr set) \<Rightarrow> bool" where
  "threads_apart thr \<longleftrightarrow> (\<forall>c. 0 \<notin> thr c) \<and> (\<forall>c d t. t \<in> thr c \<longrightarrow> t \<in> thr d \<longrightarrow> c = d)"

lemma threads_apartD: "threads_apart thr \<Longrightarrow> u \<in> thr d \<Longrightarrow> u \<in> thr e \<Longrightarrow> d = e"
  by (auto simp: threads_apart_def)

text \<open>
  \<open>iorr_rel thr s Q\<close>: for every hart \<open>c\<close>, the ring at its run queue head holds the
  threads \<open>Q c\<close>, and the other threads of \<open>c\<close> are linked to themselves.
\<close>

definition iorr_rel :: "(nat \<Rightarrow> addr set) \<Rightarrow> 'a iorr_state_scheme \<Rightarrow> (nat \<Rightarrow> addr list) \<Rightarrow> bool" where
  "iorr_rel thr s Q \<longleftrightarrow>
    (\<forall>c. dll s (iorr_runqueue s c) (Q c) \<and> set (Q c) \<subseteq> thr c) \<and>
    (\<forall>c. \<forall>t \<in> thr c - set (Q c). unlinked s t) \<and>
    (\<forall>c d. iorr_runqueue s c \<notin> thr d) \<and> inj (iorr_runqueue s) \<and>
    (\<forall>c. \<forall>t \<in> thr c. thr_sched_ctl (threads s t) = c \<and> 0 < sint (slice_cycles (iorr_data s t)))"

lemma iorr_relD:
  assumes "iorr_rel thr s Q"
  shows "dll s (iorr_runqueue s c) (Q c)" "set (Q c) \<subseteq> thr c" "iorr_runqueue s c \<notin> thr d"
    "t \<in> thr c \<Longrightarrow> thr_sched_ctl (threads s t) = c" "t \<in> thr c \<Longrightarrow> 0 < sint (slice_cycles (iorr_data s t))"
  using assms unfolding iorr_rel_def by blast+

definition iorr_inv :: "(nat \<Rightarrow> addr set) \<Rightarrow> 'a iorr_state_scheme \<Rightarrow> bool" where
  "iorr_inv thr s \<longleftrightarrow> (\<exists>Q. iorr_rel thr s Q)"

text \<open>The threads of a hart that are linked into its run queue.\<close>

definition iorr_runq :: "(nat \<Rightarrow> addr set) \<Rightarrow> nat \<Rightarrow> 'a iorr_state_scheme \<Rightarrow> addr set" where
  "iorr_runq thr c s = {t \<in> thr c. is_inqueue s t}"

lemma dll_linked: "dll h l xs \<Longrightarrow> t \<in> set xs \<Longrightarrow> \<not> list_empty h t"
proof -
  assume d: "dll h l xs" and t: "t \<in> set xs"
  obtain as bs where xs: "xs = as @ t # bs" using t by (meson split_list)
  have "lnext h t = hd (bs @ [l])" "t \<notin> set (l # bs)"
    using d list_del_node_dll(2) [of h l as t bs] xs by (auto simp: dll_def)
  thus ?thesis by (cases bs) (auto simp: list_empty_def)
qed

lemma unlinked_empty: "unlinked h t \<Longrightarrow> list_empty h t"
  by (simp add: list_empty_iff)

lemma iorr_runq_eq: "iorr_rel thr s Q \<Longrightarrow> iorr_runq thr c s = set (Q c)"
  unfolding iorr_rel_def iorr_runq_def is_inqueue_def using dll_linked unlinked_empty by blast

lemma iorr_rel_upd:
  assumes "iorr_rel thr s Q" "policy_same s s'" shows "iorr_rel thr s' Q"
proof -
  have "iorr_runqueue s' = iorr_runqueue s" "iorr_data s' = iorr_data s"
    using assms(2) by (cases s; cases s'; simp add: policy_same_def)+
  moreover have "dll s' l xs = dll s l xs" for l xs
    using assms(2) by (intro dll_cong) (simp_all add: policy_same_def)
  ultimately show ?thesis using assms by (simp add: iorr_rel_def policy_same_def)
qed

text \<open>Changing one run queue: what remains to be shown is local to that hart.\<close>

lemma iorr_rel_change:
  assumes rel: "iorr_rel thr s Q" and t: "t \<in> thr c" and ap: "threads_apart thr"
    and d: "dll s' (iorr_runqueue s c) q" "set q \<union> {t} = set (Q c) \<union> {t}" "t \<notin> set q \<Longrightarrow> unlinked s' t"
    and links: "\<And>a. a \<notin> set (t # iorr_runqueue s c # Q c) \<Longrightarrow> lnext s' a = lnext s a \<and> lprev s' a = lprev s a"
    and same: "iorr_runqueue s' = iorr_runqueue s" "threads s' = threads s"
      "\<And>u. slice_cycles (iorr_data s' u) = slice_cycles (iorr_data s u)"
  shows "iorr_rel thr s' (Q(c := q))"
proof -
  have Q: "set (Q d) \<subseteq> thr d" "dll s (iorr_runqueue s d) (Q d)" "iorr_runqueue s d \<notin> thr e" for d e
    using rel by (auto simp: iorr_rel_def)
  have Qin: "u \<in> set (Q d) \<Longrightarrow> u \<in> thr d" for u d using Q(1) by blast
  have inj: "iorr_runqueue s d = iorr_runqueue s c \<Longrightarrow> d = c" for d
    using rel by (auto simp: iorr_rel_def inj_def)
  have qt: "set q \<subseteq> thr c" using d(2) Q(1) [of c] t by blast
  have "dll s' (iorr_runqueue s' e) ((Q(c := q)) e) \<and> set ((Q(c := q)) e) \<subseteq> thr e" for e
  proof (cases "e = c")
    case False
    have "a \<notin> set (t # iorr_runqueue s c # Q c)" if a: "a \<in> set (iorr_runqueue s e # Q e)" for a
    proof (cases "a = iorr_runqueue s e")
      case True
      thus ?thesis using False t inj [of e] Q(3) [of e c] Qin [of a c] by auto
    next
      case ne: False
      hence "a \<in> thr e" using a Qin [of a e] by simp
      thus ?thesis using threads_apartD [OF ap, of a e c] Q(3) [of c e] Qin [of a c] t False by auto
    qed
    hence "dll s' (iorr_runqueue s e) (Q e)" using links by (intro dll_frame [OF Q(2)]) blast
    thus ?thesis using False Q(1) same(1) by simp
  qed (use d(1) qt same(1) in simp)
  moreover have "unlinked s' u" if "u \<in> thr e - set ((Q(c := q)) e)" for u e
  proof (cases "u = t")
    case True
    thus ?thesis using that threads_apartD [OF ap, of t e c] t d(3) by auto
  next
    case False
    have u: "u \<in> thr e - set (Q e)" using that False d(2) by (auto split: if_splits)
    hence "unlinked s u" using rel by (auto simp: iorr_rel_def)
    moreover have "u \<notin> set (t # iorr_runqueue s c # Q c)"
      using u False Q(3) [of c e] Qin [of u c] threads_apartD [OF ap, of u e c] by auto
    ultimately show ?thesis using links by (auto intro: dll_frame [of s u "[]" s'])
  qed
  ultimately show ?thesis using rel same by (auto simp: iorr_rel_def)
qed

lemma list_op_sched_fields [simp]:
  "iorr_runqueue (list_add n p s) = iorr_runqueue s" "iorr_runqueue (list_add_tail n p s) = iorr_runqueue s"
  "iorr_runqueue (list_del_init e s) = iorr_runqueue s" "iorr_data (list_add n p s) = iorr_data s"
  "iorr_data (list_add_tail n p s) = iorr_data s" "iorr_data (list_del_init e s) = iorr_data s"
  "threads (list_add n p s) = threads s" "threads (list_add_tail n p s) = threads s"
  "threads (list_del_init e s) = threads s"
  by (simp_all add: list_add_def list_add_tail_def list_del_init_def heap_simps)

lemma list_op_sched_same [simp]:
  "sched_same s (list_add n p s)" "sched_same s (list_add_tail n p s)" "sched_same s (list_del_init e s)"
  by (simp_all add: sched_same_def list_add_def list_add_tail_def list_del_init_def heap_simps)

lemma sched_same_trans: "sched_same s s' \<Longrightarrow> sched_same s' s'' \<Longrightarrow> sched_same s s''"
  by (simp add: sched_same_def)

lemma sched_same_refl [simp]: "sched_same s s"
  by (simp add: sched_same_def)

lemma runqueue_ops_same [simp]:
  "sched_same s (runqueue_add_head t s)" "sched_same s (runqueue_add_tail t s)" "sched_same s (runqueue_remove t s)"
  by (simp_all add: runqueue_add_head_def runqueue_add_tail_def runqueue_remove_def)

text \<open>Where the links change.\<close>

lemma list_add_head_links:
  assumes "dll s l xs" "a \<notin> set (n # l # xs)"
  shows "lnext (list_add n l s) a = lnext s a \<and> lprev (list_add n l s) a = lprev s a"
  using assms dll_next_in [of s l xs l] by (auto simp: list_add_def)

lemma list_add_tail_links:
  assumes "dll s l xs" "a \<notin> set (n # l # xs)"
  shows "lnext (list_add_tail n l s) a = lnext s a \<and> lprev (list_add_tail n l s) a = lprev s a"
proof -
  have "lprev s l = last (l # xs)" using assms(1) dll_split [of s l xs "[]"] by simp
  moreover have "last (l # xs) \<in> set (l # xs)" by (rule last_in_Cons_set)
  ultimately show ?thesis using assms(2) by (auto simp: list_add_tail_def simp del: last.simps)
qed

lemma list_del_init_links:
  assumes "dll s l xs" "e \<in> set xs" "a \<notin> set (l # xs)"
  shows "lnext (list_del_init e s) a = lnext s a \<and> lprev (list_del_init e s) a = lprev s a"
proof -
  obtain as bs where xs: "xs = as @ e # bs" using assms(2) by (meson split_list)
  have "last (l # as) \<in> set (l # as)" "hd (bs @ [l]) \<in> set (l # bs)"
    by (rule last_in_Cons_set) (cases bs; simp)
  moreover have "lprev s e = last (l # as)" "lnext s e = hd (bs @ [l])"
    using assms(1) xs list_del_node_dll(1,2) [of s l as e bs] by simp_all
  ultimately show ?thesis using assms(3) xs by (auto simp: list_del_init_def simp del: last.simps)
qed

lemma iorr_inqueue_iff:
  "iorr_rel thr s Q \<Longrightarrow> t \<in> thr c \<Longrightarrow> is_inqueue s t \<longleftrightarrow> t \<in> set (Q c)"
  using iorr_runq_eq [of thr s Q c] by (auto simp: iorr_runq_def)

lemma iorr_add_head:
  assumes rel: "iorr_rel thr s Q" and t: "t \<in> thr c" and ap: "threads_apart thr"
  shows "iorr_rel thr (runqueue_add_head t s) (Q(c := if t \<in> set (Q c) then Q c else t # Q c))"
proof (cases "t \<in> set (Q c)")
  case True
  thus ?thesis using rel iorr_inqueue_iff [OF rel t] by (simp add: runqueue_add_head_def fun_upd_idem)
next
  case False
  have c: "thr_sched_ctl (threads s t) = c" "dll s (iorr_runqueue s c) (Q c)" "t \<noteq> iorr_runqueue s c"
    using rel t by (auto simp: iorr_rel_def)
  have "iorr_rel thr (list_add t (iorr_runqueue s c) s) (Q(c := t # Q c))"
    using c False t list_add_head_links [OF c(2)]
    by (intro iorr_rel_change [OF rel t ap]) (auto intro: dl.insert_head_rel)
  thus ?thesis using False c(1) iorr_inqueue_iff [OF rel t] by (simp add: runqueue_add_head_def)
qed

lemma iorr_add_tail:
  assumes rel: "iorr_rel thr s Q" and t: "t \<in> thr c" and ap: "threads_apart thr"
  shows "iorr_rel thr (runqueue_add_tail t s) (Q(c := if t \<in> set (Q c) then Q c else Q c @ [t]))"
proof (cases "t \<in> set (Q c)")
  case True
  thus ?thesis using rel iorr_inqueue_iff [OF rel t] by (simp add: runqueue_add_tail_def fun_upd_idem)
next
  case False
  have c: "thr_sched_ctl (threads s t) = c" "dll s (iorr_runqueue s c) (Q c)" "t \<noteq> iorr_runqueue s c"
    using rel t by (auto simp: iorr_rel_def)
  have "iorr_rel thr (list_add_tail t (iorr_runqueue s c) s) (Q(c := Q c @ [t]))"
    using c False t list_add_tail_links [OF c(2)]
    by (intro iorr_rel_change [OF rel t ap]) (auto intro: dl.insert_tail_rel)
  thus ?thesis using False c(1) iorr_inqueue_iff [OF rel t] by (simp add: runqueue_add_tail_def)
qed

lemma iorr_remove:
  assumes rel: "iorr_rel thr s Q" and t: "t \<in> thr c" and ap: "threads_apart thr"
  shows "iorr_rel thr (runqueue_remove t s) (Q(c := remove1 t (Q c)))"
proof (cases "t \<in> set (Q c)")
  case False
  hence "unlinked s t" using rel t by (auto simp: iorr_rel_def)
  thus ?thesis using rel False
    by (simp add: runqueue_remove_def list_del_init_unlinked remove1_idem fun_upd_idem)
next
  case True
  have d: "dll s (iorr_runqueue s c) (Q c)" using rel by (auto simp: iorr_rel_def)
  have dist: "distinct (Q c)" using d by (simp add: dll_def)
  obtain as bs where "Q c = as @ t # bs" using True by (meson split_list)
  hence "unlinked (list_del_init t s) t" using list_del_init_dll(2) d by metis
  thus ?thesis
    using d dist True t list_del_init_links [OF d True] unfolding runqueue_remove_def
    by (intro iorr_rel_change [OF rel t ap]) (auto intro: dl.unlink_remove1)
qed

subsection \<open>Picking the next thread\<close>

lemma iorr_rel_cong:
  assumes "iorr_rel thr s Q" "lnext s' = lnext s" "lprev s' = lprev s" "iorr_runqueue s' = iorr_runqueue s"
    "threads s' = threads s" "\<And>u. slice_cycles (iorr_data s' u) = slice_cycles (iorr_data s u)"
  shows "iorr_rel thr s' Q"
proof -
  have "dll s' l xs = dll s l xs" for l xs using assms(2,3) by (rule dll_cong)
  thus ?thesis using assms by (simp add: iorr_rel_def)
qed

lemma upd_iorr_data_fields [simp]:
  "iorr_data (upd_iorr_data t f s) = (iorr_data s)(t := f (iorr_data s t))" "lnext (upd_iorr_data t f s) = lnext s"
  "lprev (upd_iorr_data t f s) = lprev s" "iorr_runqueue (upd_iorr_data t f s) = iorr_runqueue s"
  "threads (upd_iorr_data t f s) = threads s" "sched_same s (upd_iorr_data t f s)"
  "idle (upd_iorr_data t f s) = idle s" "pcpu_id (upd_iorr_data t f s) = pcpu_id s"
  "list_empty (upd_iorr_data t f s) a = list_empty s a"
  by (simp_all add: upd_iorr_data_def sched_same_def list_empty_def)

lemma get_tick_iorr_fields [simp]:
  "iorr_data (snd (get_tick s)) = iorr_data s" "lnext (snd (get_tick s)) = lnext s" "lprev (snd (get_tick s)) = lprev s"
  "iorr_runqueue (snd (get_tick s)) = iorr_runqueue s" "threads (snd (get_tick s)) = threads s"
  "sched_same s (snd (get_tick s))" "idle (snd (get_tick s)) = idle s" "pcpu_id (snd (get_tick s)) = pcpu_id s"
  "sched_ctl (snd (get_tick s)) = sched_ctl s"
  by (simp_all add: get_tick_def sched_same_def)

text \<open>The abstract step: the current thread, if queued, goes to the tail.\<close>

definition iorr_rotate :: "addr \<Rightarrow> addr list \<Rightarrow> addr list" where
  "iorr_rotate cur q = (if cur \<in> set q then remove1 cur q @ [cur] else q)"

lemma set_iorr_rotate [simp]: "distinct q \<Longrightarrow> set (iorr_rotate cur q) = set q"
  by (auto simp: iorr_rotate_def)

lemma iorr_rotate_Nil [simp]: "iorr_rotate cur q = [] \<longleftrightarrow> q = []"
  by (auto simp: iorr_rotate_def)

text \<open>The first half of \<open>sched_iorr_pick_next\<close>: charge and requeue the current thread.\<close>

definition iorr_requeue :: "u64 \<Rightarrow> addr \<Rightarrow> 'a iorr_state_scheme \<Rightarrow> 'a iorr_state_scheme" where
  "iorr_requeue now current s =
    (if \<not> is_idle_thread s current \<and> is_inqueue s current
     then
       let s = upd_iorr_data current (\<lambda>d. d\<lparr>left_cycles := left_cycles d - (now - last_cycles d)\<rparr>) s;
           s = (if sint (left_cycles (iorr_data s current)) \<le> 0
                then upd_iorr_data current (\<lambda>d. d\<lparr>left_cycles := left_cycles d + slice_cycles d\<rparr>) s
                else s)
       in runqueue_add_tail current (runqueue_remove current s)
     else s)"

lemma iorr_requeue_rel:
  assumes rel: "iorr_rel thr s Q" and ap: "threads_apart thr"
    and cur: "cur \<in> insert (idle s c) (thr c)" "thr_pcpu_id (threads s cur) = c" "\<forall>d. idle s c \<notin> thr d"
  shows "iorr_rel thr (iorr_requeue now cur s) (Q(c := iorr_rotate cur (Q c))) \<and> sched_same s (iorr_requeue now cur s)"
proof (cases "cur \<in> set (Q c)")
  case False
  have "\<not> (\<not> is_idle_thread s cur \<and> is_inqueue s cur)"
    using False cur iorr_inqueue_iff [OF rel, of cur c] by (auto simp: is_idle_thread_def)
  thus ?thesis using rel False by (auto simp: iorr_requeue_def iorr_rotate_def sched_same_def fun_upd_idem)
next
  case True
  have t: "cur \<in> thr c" using True rel by (auto simp: iorr_rel_def)
  have cond: "\<not> is_idle_thread s cur \<and> is_inqueue s cur"
    using True t cur iorr_inqueue_iff [OF rel t] by (auto simp: is_idle_thread_def)
  define u where "u = upd_iorr_data cur (\<lambda>d. d\<lparr>left_cycles := left_cycles d - (now - last_cycles d)\<rparr>) s"
  define v where "v = (if sint (left_cycles (iorr_data u cur)) \<le> 0
    then upd_iorr_data cur (\<lambda>d. d\<lparr>left_cycles := left_cycles d + slice_cycles d\<rparr>) u else u)"
  have v: "iorr_rel thr v Q" by (rule iorr_rel_cong [OF rel]) (auto simp: v_def u_def)
  have sv: "sched_same s v" by (simp add: v_def u_def sched_same_def upd_iorr_data_def)
  have "distinct (Q c)" using rel by (auto simp: iorr_rel_def dll_def)
  hence "iorr_rel thr (runqueue_add_tail cur (runqueue_remove cur v)) (Q(c := remove1 cur (Q c) @ [cur]))"
    using iorr_add_tail [OF iorr_remove [OF v t ap] t ap] by simp
  moreover have "sched_same s (runqueue_add_tail cur (runqueue_remove cur v))"
    by (rule sched_same_trans [OF sv sched_same_trans [OF runqueue_ops_same(3) runqueue_ops_same(2)]])
  moreover have "iorr_requeue now cur s = runqueue_add_tail cur (runqueue_remove cur v)"
    using cond by (simp add: iorr_requeue_def v_def u_def Let_def)
  ultimately show ?thesis using True by (simp add: iorr_rotate_def)
qed

lemma sched_iorr_pick_next_eq:
  "sched_iorr_pick_next c s =
    (let (now, s) = cpu_ticks s; s = iorr_requeue now (curr_obj (sched_ctl s c)) s
     in if \<not> list_empty s (iorr_runqueue s c)
        then
          let nxt = lnext s (iorr_runqueue s c);
              s = upd_iorr_data nxt (\<lambda>d. d\<lparr>last_cycles := now\<rparr>) s
          in do {
            left \<leftarrow> iorr_replenish (left_cycles (iorr_data s nxt)) (slice_cycles (iorr_data s nxt));
            Some (nxt, upd_iorr_data nxt (\<lambda>d. d\<lparr>left_cycles := left\<rparr>) s)
          }
        else Some (idle s (get_pcpu_id s), s))"
  by (simp add: sched_iorr_pick_next_def iorr_requeue_def Let_def split_beta)

lemma iorr_pick_next:
  assumes rel: "iorr_rel thr s Q" and ap: "threads_apart thr"
    and c: "c = pcpu_id s" "cur = curr_obj (sched_ctl s c)"
    and cur: "cur \<in> insert (idle s c) (thr c)" "thr_pcpu_id (threads s cur) = c" "\<forall>d. idle s c \<notin> thr d"
  shows "\<exists>s'. sched_iorr_pick_next c s = Some (if Q c = [] then idle s c else hd (iorr_rotate cur (Q c)), s')
    \<and> iorr_rel thr s' (Q(c := iorr_rotate cur (Q c))) \<and> sched_same s s'
    \<and> (Q c \<noteq> [] \<longrightarrow> 0 < sint (left_cycles (iorr_data s' (hd (iorr_rotate cur (Q c))))))"
proof -
  define now where "now = fst (get_tick s)"
  define t where "t = snd (get_tick s)"
  define r where "r = iorr_requeue now cur t"
  have rt: "iorr_rel thr t Q" by (rule iorr_rel_cong [OF rel]) (simp_all add: t_def)
  have r: "iorr_rel thr r (Q(c := iorr_rotate cur (Q c)))" "sched_same t r"
    using iorr_requeue_rel [OF rt ap, where cur = cur and c = c and now = now] cur by (simp_all add: r_def t_def)
  have sr: "sched_same s r" using sched_same_trans [OF _ r(2), of s] by (simp add: t_def)
  have d: "dll r (iorr_runqueue r c) (iorr_rotate cur (Q c))" using iorr_relD(1) [OF r(1), of c] by simp
  have eq: "cpu_ticks s = (now, t)" "curr_obj (sched_ctl t c) = cur"
    using c(2) by (simp_all add: cpu_ticks_def now_def t_def)
  have idle_r: "pcpu_id r = c" "idle r = idle s" using sr c(1) by (simp_all add: sched_same_def)
  show ?thesis
  proof (cases "Q c")
    case Nil
    have "sched_iorr_pick_next c s = Some (idle s c, r)"
      using Nil list_empty_iff [OF d] idle_r
      by (simp add: sched_iorr_pick_next_eq eq get_pcpu_id_def flip: r_def)
    thus ?thesis using Nil r(1) sr by simp
  next
    case (Cons a as)
    define n where "n = hd (iorr_rotate cur (Q c))"
    define u where "u = upd_iorr_data n (\<lambda>d. d\<lparr>last_cycles := now\<rparr>) r"
    have ne: "iorr_rotate cur (Q c) \<noteq> []" using Cons by simp
    have n: "lnext r (iorr_runqueue r c) = n" "n \<in> thr c"
      using d ne dll_first [of r "iorr_runqueue r c" n "tl (iorr_rotate cur (Q c))"] hd_in_set [OF ne]
        iorr_relD(2) [OF r(1), of c] by (auto simp: n_def simp del: iorr_rotate_Nil)
    have "0 < sint (slice_cycles (iorr_data u n))" using iorr_relD(5) [OF r(1) n(2)] by (simp add: u_def)
    then obtain v where v: "iorr_replenish (left_cycles (iorr_data u n)) (slice_cycles (iorr_data u n)) = Some v"
      "0 < sint v" using iorr_replenish_terminates by blast
    have v': "iorr_replenish (left_cycles (iorr_data r n)) (slice_cycles (iorr_data r n)) = Some v"
      using v(1) by (simp add: u_def)
    let ?s' = "upd_iorr_data n (\<lambda>d. d\<lparr>left_cycles := v\<rparr>) u"
    have "sched_iorr_pick_next c s = Some (n, ?s')"
      using list_empty_iff [OF d] ne n(1) v'
      by (simp add: sched_iorr_pick_next_eq eq flip: r_def u_def)
    moreover have "iorr_rel thr ?s' (Q(c := iorr_rotate cur (Q c)))"
      by (rule iorr_rel_cong [OF r(1)]) (auto simp: u_def)
    moreover have "sched_same s ?s'" using sr by (simp add: u_def sched_same_def upd_iorr_data_def)
    ultimately show ?thesis using Cons v(2) by (auto simp: n_def)
  qed
qed

subsection \<open>The policy contract\<close>

text \<open>
  The switch functions of the threads, a parameter of the framework, must leave
  scheduler and run queues alone.
\<close>

definition iorr_switch_ok :: "(nat \<Rightarrow> addr set) \<Rightarrow> 'a iorr_state_scheme thread_fn \<Rightarrow> bool" where
  "iorr_switch_ok thr sw \<longleftrightarrow> (\<forall>g t s. iorr_inv thr s \<longrightarrow>
    (\<exists>s'. sw g t s = Some s' \<and> iorr_inv thr s' \<and> sched_same s s' \<and> (\<forall>d. iorr_runq thr d s' = iorr_runq thr d s)))"

lemma iorr_policy:
  assumes ap: "threads_apart thr" and sw: "iorr_switch_ok thr sw"
  shows "sched_policy sched_iorr sw (iorr_inv thr) (iorr_runq thr) thr"
proof
  have ap: "threads_apart thr" using ap by (auto simp: threads_apart_def)
  show "0 \<notin> thr c" "t \<in> thr c \<Longrightarrow> t \<in> thr d \<Longrightarrow> c = d" for c d t using ap by (auto simp: threads_apart_def)
  show "iorr_runq thr c s \<subseteq> thr c" for c and s :: "'a iorr_state_scheme" by (auto simp: iorr_runq_def)
  show "iorr_inv thr s \<Longrightarrow> policy_same s s' \<Longrightarrow> iorr_inv thr s'" for s s' :: "'a iorr_state_scheme"
    unfolding iorr_inv_def using iorr_rel_upd by blast
  show "policy_same s s' \<Longrightarrow> iorr_runq thr c s' = iorr_runq thr c s" for c and s s' :: "'a iorr_state_scheme"
    by (simp add: iorr_runq_def is_inqueue_def list_empty_def policy_same_def)
  show "\<exists>s'. sw g t s = Some s' \<and> iorr_inv thr s' \<and> sched_same s s' \<and> (\<forall>d. iorr_runq thr d s' = iorr_runq thr d s)"
    if "iorr_inv thr s" for g t s using sw that by (simp add: iorr_switch_ok_def)
  fix s :: "'a iorr_state_scheme" and c
  assume "iorr_inv thr s"
  then obtain Q where rel: "iorr_rel thr s Q" by (auto simp: iorr_inv_def)
  note rq = iorr_runq_eq
  show "\<exists>f s'. sleep_op sched_iorr = Some f \<and> f t s = Some s' \<and> iorr_inv thr s' \<and> sched_same s s' \<and>
      iorr_runq thr c s' = iorr_runq thr c s - {t} \<and> (\<forall>d. d \<noteq> c \<longrightarrow> iorr_runq thr d s' = iorr_runq thr d s)"
    if t: "t \<in> thr c" for t
  proof -
    have r: "iorr_rel thr (runqueue_remove t s) (Q(c := remove1 t (Q c)))" by (rule iorr_remove [OF rel t ap])
    have "distinct (Q c)" using iorr_relD(1) [OF rel, of c] by (simp add: dll_def)
    thus ?thesis using r rq [OF r] rq [OF rel]
      by (auto simp: sched_iorr_def sched_iorr_sleep_def iorr_inv_def)
  qed
  show "\<exists>f s'. wake_op sched_iorr = Some f \<and> f t s = Some s' \<and> iorr_inv thr s' \<and> sched_same s s' \<and>
      iorr_runq thr c s' = insert t (iorr_runq thr c s) \<and> (\<forall>d. d \<noteq> c \<longrightarrow> iorr_runq thr d s' = iorr_runq thr d s)"
    if t: "t \<in> thr c" for t
  proof -
    have r: "iorr_rel thr (runqueue_add_head t s) (Q(c := if t \<in> set (Q c) then Q c else t # Q c))"
      by (rule iorr_add_head [OF rel t ap])
    show ?thesis using r rq [OF r] rq [OF rel]
      by (auto simp: sched_iorr_def sched_iorr_wake_def iorr_inv_def split: if_splits)
  qed
  show "\<exists>f t s'. pick_next_op sched_iorr = Some f \<and> f c s = Some (t, s') \<and> iorr_inv thr s' \<and> sched_same s s' \<and>
      (\<forall>d. iorr_runq thr d s' = iorr_runq thr d s) \<and>
      t \<in> (if iorr_runq thr c s = {} then {idle s c} else iorr_runq thr c s)"
    if c: "c = pcpu_id s" and cur: "curr_obj (sched_ctl s c) \<in> insert (idle s c) (thr c)"
      "thr_pcpu_id (threads s (curr_obj (sched_ctl s c))) = c" "\<forall>d. idle s c \<notin> thr d"
  proof -
    let ?q = "iorr_rotate (curr_obj (sched_ctl s c)) (Q c)"
    obtain s' where s': "sched_iorr_pick_next c s = Some (if Q c = [] then idle s c else hd ?q, s')"
      "iorr_rel thr s' (Q(c := ?q))" "sched_same s s'"
      using iorr_pick_next [OF rel ap c refl cur] by blast
    have dist: "distinct (Q c)" using iorr_relD(1) [OF rel, of c] by (simp add: dll_def)
    hence "\<forall>d. iorr_runq thr d s' = iorr_runq thr d s" using rq [OF s'(2)] rq [OF rel] by simp
    moreover have "Q c \<noteq> [] \<Longrightarrow> hd ?q \<in> set (Q c)" using hd_in_set [of ?q] dist by simp
    ultimately show ?thesis using s' rq [OF rel] by (auto simp: sched_iorr_def iorr_inv_def)
  qed
qed

end
