(* ===== verification/Memory.thy ===== *)
theory Memory
  imports Prelude
begin

text \<open>
  Byte memory and the copy routines of \<open>arch/riscv/lib/memory.c\<close>.

  Memory is a function from addresses to bytes.  Addresses and lengths are
  natural numbers: no object wraps around the end of the address space.  The
  null pointer is 0.
\<close>

type_synonym mem = "addr \<Rightarrow> u8"

subsection \<open>Operations\<close>

fun memset :: "addr \<Rightarrow> u8 \<Rightarrow> nat \<Rightarrow> mem \<Rightarrow> mem" where
  "memset p v 0 m = m"
| "memset p v (Suc n) m = memset (p + 1) v n (m(p := v))"

definition memset_s :: "addr \<Rightarrow> u8 \<Rightarrow> nat \<Rightarrow> mem \<Rightarrow> mem" where
  "memset_s base v n m = (if base \<noteq> 0 \<and> n \<noteq> 0 then memset base v n m else m)"

fun memcpy :: "addr \<Rightarrow> addr \<Rightarrow> nat \<Rightarrow> mem \<Rightarrow> mem" where
  "memcpy d s 0 m = m"
| "memcpy d s (Suc n) m = memcpy (d + 1) (s + 1) n (m(d := m s))"

definition memcpy_s :: "addr \<Rightarrow> nat \<Rightarrow> addr \<Rightarrow> nat \<Rightarrow> mem \<Rightarrow> int \<times> mem" where
  "memcpy_s d dmax s slen m =
    (if d \<noteq> 0 \<and> s \<noteq> 0 \<and> dmax \<ge> slen \<and> (d > s + slen \<or> s > d + dmax)
     then (0, if slen \<noteq> 0 then memcpy d s slen m else m)
     else (-1, memset d 0 dmax m))"

subsection \<open>What they do\<close>

lemma memset_apply [simp]:
  "memset p v n m a = (if p \<le> a \<and> a < p + n then v else m a)"
proof (induction n arbitrary: p m)
  case (Suc n)
  show ?case unfolding memset.simps Suc.IH by auto
qed auto

lemma memcpy_apply:
  assumes "d \<le> s \<or> s + n \<le> d"
  shows "memcpy d s n m a = (if d \<le> a \<and> a < d + n then m (s + (a - d)) else m a)"
  using assms
proof (induction n arbitrary: d s m)
  case (Suc n)
  have IH: "memcpy (d + 1) (s + 1) n (m(d := m s)) a
      = (if d + 1 \<le> a \<and> a < d + 1 + n then (m(d := m s)) (s + 1 + (a - (d + 1))) else (m(d := m s)) a)"
    using Suc.prems by (intro Suc.IH) auto
  have "s + 1 + (a - (d + 1)) = s + (a - d)" if "d + 1 \<le> a" using that by simp
  thus ?case unfolding memcpy.simps IH using Suc.prems by auto
qed auto

text \<open>The bytes of a region.\<close>

definition bytes :: "mem \<Rightarrow> addr \<Rightarrow> nat \<Rightarrow> u8 list" where
  "bytes m p n = map (\<lambda>i. m (p + i)) [0..<n]"

lemma length_bytes [simp]: "length (bytes m p n) = n"
  by (simp add: bytes_def)

lemma nth_bytes [simp]: "i < n \<Longrightarrow> bytes m p n ! i = m (p + i)"
  by (simp add: bytes_def)

lemma bytes_0 [simp]: "bytes m p 0 = []"
  by (simp add: bytes_def)

lemma bytes_Suc: "bytes m p (Suc n) = m p # bytes m (p + 1) n"
  by (rule nth_equalityI) (auto simp: nth_Cons split: nat.split)

lemma bytes_add: "bytes m p (i + j) = bytes m p i @ bytes m (p + i) j"
  by (rule nth_equalityI) (auto simp: nth_append)

lemma bytes_Suc_last: "bytes m p (Suc n) = bytes m p n @ [m (p + n)]"
  by (simp add: bytes_def)

lemma bytes_eqI: "(\<And>i. i < n \<Longrightarrow> m (p + i) = m' (q + i)) \<Longrightarrow> bytes m p n = bytes m' q n"
  by (simp add: bytes_def)

lemma bytes_upd_other: "a < p \<or> p + n \<le> a \<Longrightarrow> bytes (m(a := v)) p n = bytes m p n"
  by (auto intro: bytes_eqI)

text \<open>Two regions that the checks of \<open>memcpy_s\<close> accept.\<close>

lemma memcpy_s_ok:
  assumes "d \<noteq> 0" "s \<noteq> 0" "slen \<le> dmax" "d > s + slen \<or> s > d + dmax"
  shows "fst (memcpy_s d dmax s slen m) = 0"
    "bytes (snd (memcpy_s d dmax s slen m)) d slen = bytes m s slen"
    "a < d \<or> d + slen \<le> a \<Longrightarrow> snd (memcpy_s d dmax s slen m) a = m a"
proof -
  have ap: "memcpy d s slen m a = (if d \<le> a \<and> a < d + slen then m (s + (a - d)) else m a)" for a
    by (rule memcpy_apply) (use assms in auto)
  have eq: "memcpy_s d dmax s slen m = (0, memcpy d s slen m)"
    using assms by (cases slen) (auto simp: memcpy_s_def)
  show "fst (memcpy_s d dmax s slen m) = 0" by (simp add: eq)
  show "bytes (snd (memcpy_s d dmax s slen m)) d slen = bytes m s slen"
    unfolding eq snd_conv by (rule bytes_eqI) (simp add: ap)
  show "a < d \<or> d + slen \<le> a \<Longrightarrow> snd (memcpy_s d dmax s slen m) a = m a"
    by (auto simp: eq ap)
qed

text \<open>Adjacent buffers do not overlap, but the check refuses them.\<close>

lemma memcpy_s_adjacent: "memcpy_s (s + n) n s n m = (-1, memset (s + n) 0 n m)"
  by (simp add: memcpy_s_def)

end
