(* ===== verification/Strings.thy ===== *)
theory Strings
  imports Memory "HOL-Library.Monad_Syntax" "HOL-Library.Sublist"
begin

text \<open>
  C strings: \<open>lib/string.c\<close> and the decimal parser of \<open>debug/string.c\<close>.

  A string is a pointer into byte memory.  Plain \<open>char\<close> is unsigned: the RISC-V
  calling convention makes it so, and \<open>riscv.mk\<close>, unlike \<open>x86.mk\<close>, does not
  pass \<open>-fsigned-char\<close>.  Loops that only stop at a terminator are partial
  functions, whose value is \<open>None\<close> when there is none.
\<close>

subsection \<open>Operations\<close>

definition ULONG_MAX :: u64 where "ULONG_MAX = NOT 0"
definition LONG_MAX :: u64 where "LONG_MAX = drop_bit 1 ULONG_MAX"
definition LONG_MIN :: u64 where "LONG_MIN = NOT LONG_MAX"

definition is_space :: "u8 \<Rightarrow> bool" where
  "is_space c = (c = 0x20 \<or> c = 0x09)"

definition is_eol :: "u8 \<Rightarrow> bool" where
  "is_eol c = (c = 0x0d \<or> c = 0x0a \<or> c = 0)"

definition hex_digit_value :: "u8 \<Rightarrow> u8" where
  "hex_digit_value ch =
    (if 0x30 \<le> ch \<and> ch \<le> 0x39 then ch - 0x30
     else if 0x61 \<le> ch \<and> ch \<le> 0x66 then ch - 0x61 + 10
     else if 0x41 \<le> ch \<and> ch \<le> 0x46 then ch - 0x41 + 10
     else -1)"

text \<open>The loop that skips white space: the character that ends it, and the next position.\<close>

partial_function (option) skip_space :: "mem \<Rightarrow> addr \<Rightarrow> (u8 \<times> addr) option" where
  "skip_space m s = (if is_space (m s) then skip_space m (s + 1) else Some (m s, s + 1))"

declare skip_space.simps [code]

partial_function (option) strtoul_hex_loop :: "mem \<Rightarrow> addr \<Rightarrow> u64 \<Rightarrow> u8 \<Rightarrow> u64 option" where
  "strtoul_hex_loop m s acc digit =
    (if 0 \<le> uint digit
     then if acc > ULONG_MAX div 16 \<or> (acc = ULONG_MAX div 16 \<and> ucast digit > ULONG_MAX mod 16)
          then Some ULONG_MAX
          else strtoul_hex_loop m (s + 1) (acc * 16 + ucast digit) (hex_digit_value (m s))
     else Some acc)"

declare strtoul_hex_loop.simps [code]

definition strtoul_hex :: "mem \<Rightarrow> addr \<Rightarrow> u64 option" where
  "strtoul_hex m nptr = do {
     (c, s) \<leftarrow> skip_space m nptr;
     let (c, s) = (if c = 0x30 \<and> (m s = 0x78 \<or> m s = 0x58) then (m (s + 1), s + 2) else (c, s));
     strtoul_hex_loop m s 0 (hex_digit_value c)
   }"

partial_function (option) strchr :: "mem \<Rightarrow> addr \<Rightarrow> u8 \<Rightarrow> addr option" where
  "strchr m s ch =
    (if m s \<noteq> 0 \<and> m s \<noteq> ch then strchr m (s + 1) ch
     else Some (if m s \<noteq> 0 then s else 0))"

declare strchr.simps [code]

fun strnlen_loop :: "mem \<Rightarrow> addr \<Rightarrow> nat \<Rightarrow> nat \<Rightarrow> nat" where
  "strnlen_loop m str 0 count = count"
| "strnlen_loop m str (Suc maxlen) count =
    (if m str \<noteq> 0 then strnlen_loop m (str + 1) maxlen (count + 1) else count)"

definition strnlen_s :: "mem \<Rightarrow> addr \<Rightarrow> nat \<Rightarrow> nat" where
  "strnlen_s m str_arg maxlen_arg = (if str_arg \<noteq> 0 then strnlen_loop m str_arg maxlen_arg 0 else 0)"

definition strncpy_s :: "addr \<Rightarrow> nat \<Rightarrow> addr \<Rightarrow> nat \<Rightarrow> mem \<Rightarrow> int \<times> mem" where
  "strncpy_s d dmax s slen m =
    (let len = strnlen_s m s dmax;
         (ret, m) = (if slen < dmax \<or> dmax > len then memcpy_s d dmax s len m else (-1, m))
     in (ret, if ret = 0 then m(d + len := 0) else if d \<noteq> 0 \<and> dmax > 0 then m(d := 0) else m))"

partial_function (option) strcmp :: "mem \<Rightarrow> addr \<Rightarrow> addr \<Rightarrow> int option" where
  "strcmp m str1 str2 =
    (if m str1 \<noteq> 0 \<and> m str2 \<noteq> 0 \<and> m str1 = m str2 then strcmp m (str1 + 1) (str2 + 1)
     else Some (uint (m str1) - uint (m str2)))"

declare strcmp.simps [code]

fun strncmp_loop :: "mem \<Rightarrow> addr \<Rightarrow> addr \<Rightarrow> nat \<Rightarrow> int" where
  "strncmp_loop m str1 str2 0 = uint (m str1) - uint (m str2)"
| "strncmp_loop m str1 str2 (Suc n) =
    (if m str1 \<noteq> 0 \<and> m str2 \<noteq> 0 \<and> m str1 = m str2 then strncmp_loop m (str1 + 1) (str2 + 1) n
     else uint (m str1) - uint (m str2))"

definition strncmp :: "mem \<Rightarrow> addr \<Rightarrow> addr \<Rightarrow> nat \<Rightarrow> int" where
  "strncmp m s1_arg s2_arg n_arg = (if n_arg > 0 then strncmp_loop m s1_arg s2_arg (n_arg - 1) else 0)"

text \<open>The two loops of \<open>strstr_s\<close>: the comparison at one position, and the positions.\<close>

fun strstr_match :: "mem \<Rightarrow> addr \<Rightarrow> addr \<Rightarrow> nat \<Rightarrow> bool" where
  "strstr_match m pstr str2 0 = True"
| "strstr_match m pstr str2 (Suc n) = (m pstr = m str2 \<and> strstr_match m (pstr + 1) (str2 + 1) n)"

function strstr_loop :: "mem \<Rightarrow> addr \<Rightarrow> nat \<Rightarrow> addr \<Rightarrow> nat \<Rightarrow> addr" where
  "strstr_loop m pstr len1 str2 len2 =
    (if len1 < len2 then 0
     else if strstr_match m pstr str2 len2 then pstr
     else if len1 = 0 then 0
     else strstr_loop m (pstr + 1) (len1 - 1) str2 len2)"
  by pat_completeness auto
termination by (relation "measure (\<lambda>(m, pstr, len1, str2, len2). len1)") auto

definition strstr_s :: "mem \<Rightarrow> addr \<Rightarrow> nat \<Rightarrow> addr \<Rightarrow> nat \<Rightarrow> addr" where
  "strstr_s m str1 maxlen1 str2 maxlen2 =
    (if str1 = 0 \<or> str2 = 0 then 0
     else if maxlen1 = 0 \<or> maxlen2 = 0 then 0
     else
       let len1 = strnlen_s m str1 maxlen1; len2 = strnlen_s m str2 maxlen2
       in if len1 < len2 then 0
          else if str1 = str2 \<or> len2 = 0 then str1
          else strstr_loop m str1 len1 str2 len2)"

definition strncat_s :: "addr \<Rightarrow> nat \<Rightarrow> addr \<Rightarrow> nat \<Rightarrow> mem \<Rightarrow> int \<times> mem" where
  "strncat_s dest dmax src slen m =
    (let len_d = strnlen_s m dest dmax; len_s = strnlen_s m src slen; start = dest + len_d
     in if dest \<noteq> 0 \<and> src \<noteq> 0 \<and> dmax > len_d + len_s \<and> (dest > src + len_s \<or> src > dest + len_d)
        then (0, (snd (memcpy_s start (dmax - len_d) src len_s m))(start + len_s := 0))
        else (-1, if dest \<noteq> 0 then m(dest := 0) else m))"

text \<open>The digit loop of \<open>strtol_deci\<close>: whether the number overflowed, and the accumulated value.\<close>

partial_function (option) strtol_deci_loop ::
  "mem \<Rightarrow> addr \<Rightarrow> u8 \<Rightarrow> u64 \<Rightarrow> u64 \<Rightarrow> u64 \<Rightarrow> (bool \<times> u64) option" where
  "strtol_deci_loop m s c acc cutoff cutlim =
    (if 0x30 \<le> c \<and> c \<le> 0x39
     then
       let c = c - 0x30
       in if acc > cutoff \<or> (acc = cutoff \<and> ucast c > cutlim) then Some (True, acc)
          else strtol_deci_loop m (s + 1) (m s) (acc * 10 + ucast c) cutoff cutlim
     else Some (False, acc))"

declare strtol_deci_loop.simps [code]

definition strtol_deci :: "mem \<Rightarrow> addr \<Rightarrow> u64 option" where
  "strtol_deci m nptr = do {
     (c, s) \<leftarrow> skip_space m nptr;
     let (neg, c, s) = (if c = 0x2d then (True, m s, s + 1)
                        else if c = 0x2b then (False, m s, s + 1)
                        else (False, c, s));
     let lim = (if neg then LONG_MIN else LONG_MAX);
     (ovf, acc) \<leftarrow> strtol_deci_loop m s c 0 (lim div 10) (lim mod 10);
     Some (if ovf then lim else if neg then NOT acc + 1 else acc)
   }"

subsection \<open>Strings in memory\<close>

fun cstring :: "mem \<Rightarrow> addr \<Rightarrow> u8 list \<Rightarrow> bool" where
  "cstring m p [] \<longleftrightarrow> m p = 0"
| "cstring m p (x # xs) \<longleftrightarrow> x \<noteq> 0 \<and> m p = x \<and> cstring m (p + 1) xs"

lemma cstring_append:
  "cstring m p (xs @ ys) \<longleftrightarrow> 0 \<notin> set xs \<and> bytes m p (length xs) = xs \<and> cstring m (p + length xs) ys"
  by (induction xs arbitrary: p) (auto simp: bytes_Suc)

lemma cstring_iff:
  "cstring m p xs \<longleftrightarrow> 0 \<notin> set xs \<and> bytes m p (length xs) = xs \<and> m (p + length xs) = 0"
  using cstring_append [of m p xs "[]"] by simp

lemma cstring_unique: "cstring m p xs \<Longrightarrow> cstring m p ys \<Longrightarrow> xs = ys"
proof (induction xs arbitrary: p ys)
  case (Cons x xs)
  thus ?case by (cases ys) auto
next
  case Nil
  thus ?case by (cases ys) auto
qed

lemma strnlen_loop_cstring:
  "cstring m p xs \<Longrightarrow> strnlen_loop m p n k = k + min (length xs) n"
proof (induction xs arbitrary: p n k)
  case (Cons x xs)
  thus ?case by (cases n) auto
next
  case Nil
  thus ?case by (cases n) auto
qed

lemma strnlen_s_cstring: "cstring m p xs \<Longrightarrow> p \<noteq> 0 \<Longrightarrow> strnlen_s m p n = min (length xs) n"
  by (simp add: strnlen_s_def strnlen_loop_cstring)

lemma strnlen_loop_bound: "strnlen_loop m p n k \<le> k + n"
  by (induction m p n k rule: strnlen_loop.induct) auto

lemma strnlen_s_bound: "strnlen_s m p n \<le> n"
  using strnlen_loop_bound [of m p n 0] by (simp add: strnlen_s_def)

subsection \<open>Searching and comparing\<close>

lemma strchr_cstring:
  assumes "cstring m p xs" and "p \<noteq> 0"
  shows "strchr m p ch = Some (if ch \<in> set xs then p + length (takeWhile (\<lambda>x. x \<noteq> ch) xs) else 0)"
  using assms
proof (induction xs arbitrary: p)
  case (Cons x xs)
  thus ?case by (subst strchr.simps) auto
qed (simp add: strchr.simps)

lemma uint_nonzero: "(x::u8) \<noteq> 0 \<Longrightarrow> 0 < uint x"
  using uint_ge_0 [of x] uint_0_iff [of x] by linarith

lemma strcmp_cstring:
  assumes "cstring m p xs" and "cstring m q ys"
  shows "\<exists>r. strcmp m p q = Some r \<and> (r = 0 \<longleftrightarrow> xs = ys) \<and> (r < 0 \<longleftrightarrow> ord_class.lexordp xs ys)"
  using assms
proof (induction xs arbitrary: p q ys)
  case Nil
  thus ?case using uint_nonzero [of "m q"] by (cases ys) (auto simp: strcmp.simps)
next
  case (Cons x xs)
  show ?case
  proof (cases ys)
    case Nil
    thus ?thesis using Cons.prems uint_nonzero [of "m p"] by (auto simp: strcmp.simps)
  next
    case (Cons y zs)
    thus ?thesis using Cons.prems Cons.IH [of "p + 1" "q + 1" zs]
      by (cases "x = y") (subst strcmp.simps; auto simp: word_less_def word_uint_eq_iff)+
  qed
qed

lemma strncmp_loop_cstring:
  assumes "cstring m p xs" and "cstring m q ys"
  shows "(strncmp_loop m p q n = 0 \<longleftrightarrow> take (Suc n) xs = take (Suc n) ys) \<and>
    (strncmp_loop m p q n < 0 \<longleftrightarrow> ord_class.lexordp (take (Suc n) xs) (take (Suc n) ys))"
  using assms
proof (induction n arbitrary: p q xs ys)
  case 0
  thus ?case using uint_nonzero [of "m p"] uint_nonzero [of "m q"]
    by (cases xs; cases ys) (auto simp: word_less_def word_uint_eq_iff)
next
  case (Suc n)
  thus ?case using uint_nonzero [of "m p"] uint_nonzero [of "m q"] Suc.IH [of "p + 1" "tl xs" "q + 1" "tl ys"]
    by (cases xs; cases ys) (auto simp: word_less_def word_uint_eq_iff)
qed

lemma strstr_match_iff: "strstr_match m p q n \<longleftrightarrow> bytes m p n = bytes m q n"
  by (induction n arbitrary: p q) (auto simp: bytes_Suc)

lemma bytes_window: "i + k \<le> n \<Longrightarrow> bytes m (p + i) k = take k (drop i (bytes m p n))"
  by (rule nth_equalityI) (auto simp: ac_simps)

lemma strstr_loop_found:
  assumes "p \<noteq> 0"
  shows "strstr_loop m p n q k =
    (if \<exists>i. i + k \<le> n \<and> bytes m (p + i) k = bytes m q k
     then p + (LEAST i. i + k \<le> n \<and> bytes m (p + i) k = bytes m q k) else 0)"
  using assms
proof (induction n arbitrary: p)
  case 0
  show ?case by (cases k) (auto simp: strstr_match_iff Least_eq_0)
next
  case (Suc n)
  let ?P = "\<lambda>p n i. i + k \<le> n \<and> bytes m (p + i) k = bytes m q k"
  have shift: "?P p (Suc n) (Suc i) \<longleftrightarrow> ?P (p + 1) n i" for i by simp
  show ?case
  proof (cases "?P p (Suc n) 0")
    case True
    hence "(LEAST i. ?P p (Suc n) i) = 0" by (intro Least_equality) auto
    moreover have "strstr_loop m p (Suc n) q k = p" using True by (subst strstr_loop.simps) (simp add: strstr_match_iff)
    ultimately show ?thesis using True by (simp del: strstr_loop.simps) (metis add_0_right add_0)
  next
    case False
    hence ex: "(\<exists>i. ?P p (Suc n) i) \<longleftrightarrow> (\<exists>i. ?P (p + 1) n i)"
      using shift by (metis not0_implies_Suc)
    have least: "(LEAST i. ?P p (Suc n) i) = Suc (LEAST i. ?P (p + 1) n i)" if "\<exists>i. ?P p (Suc n) i"
      using that Least_Suc [of "?P p (Suc n)", OF _ False] by (auto simp only: shift)
    have "strstr_loop m p (Suc n) q k = (if Suc n < k then 0 else strstr_loop m (p + 1) n q k)"
      using False by (subst strstr_loop.simps) (auto simp: strstr_match_iff)
    thus ?thesis using Suc.IH [of "p + 1"] ex least by auto
  qed
qed

lemma sublist_iff_window: "sublist ys xs \<longleftrightarrow> (\<exists>i. i + length ys \<le> length xs \<and> take (length ys) (drop i xs) = ys)"
proof
  assume "sublist ys xs"
  then obtain us vs where "xs = us @ ys @ vs" by (auto simp: sublist_def)
  thus "\<exists>i. i + length ys \<le> length xs \<and> take (length ys) (drop i xs) = ys"
    by (intro exI [of _ "length us"]) simp
next
  assume "\<exists>i. i + length ys \<le> length xs \<and> take (length ys) (drop i xs) = ys"
  then obtain i where "take (length ys) (drop i xs) = ys" by blast
  hence "xs = take i xs @ ys @ drop (length ys) (drop i xs)" by (metis append_take_drop_id)
  thus "sublist ys xs" by (auto simp: sublist_def)
qed

lemma strstr_s_cstring:
  assumes xs: "cstring m p xs" "length xs \<le> n1" and ys: "cstring m q ys" "length ys \<le> n2"
    and "p \<noteq> 0" "q \<noteq> 0" "n1 \<noteq> 0" "n2 \<noteq> 0"
  shows "strstr_s m p n1 q n2 = (if sublist ys xs
    then p + (LEAST i. i + length ys \<le> length xs \<and> take (length ys) (drop i xs) = ys) else 0)"
proof -
  have len: "strnlen_s m p n1 = length xs" "strnlen_s m q n2 = length ys"
    using assms by (simp_all add: strnlen_s_cstring)
  have b: "bytes m p (length xs) = xs" "bytes m q (length ys) = ys" using assms by (simp_all add: cstring_iff)
  have w: "(i + length ys \<le> length xs \<and> bytes m (p + i) (length ys) = bytes m q (length ys)) =
      (i + length ys \<le> length xs \<and> take (length ys) (drop i xs) = ys)" for i
    using bytes_window [of i "length ys" "length xs" m p] b by auto
  have zero: "(LEAST i. i + length ys \<le> length xs \<and> take (length ys) (drop i xs) = ys) = 0" if "xs = ys \<or> ys = []"
    using that by (intro Least_equality) auto
  consider "length xs < length ys" | "length ys \<le> length xs" "p = q \<or> ys = []" | "length ys \<le> length xs" "p \<noteq> q" "ys \<noteq> []"
    by linarith
  thus ?thesis
  proof cases
    case 1
    thus ?thesis using assms len by (auto simp: strstr_s_def dest: sublist_length_le)
  next
    case 2
    hence "xs = ys \<or> ys = []" using assms cstring_unique by blast
    thus ?thesis using assms len 2 zero by (auto simp: strstr_s_def)
  next
    case 3
    have "strstr_s m p n1 q n2 = strstr_loop m p (length xs) q (length ys)"
      using assms len 3 by (simp add: strstr_s_def del: strstr_loop.simps)
    thus ?thesis using strstr_loop_found [OF assms(5), of m "length xs" q "length ys"]
      by (simp only: w sublist_iff_window)
  qed
qed

subsection \<open>Copying and appending\<close>

lemma strncpy_s_copies:
  assumes xs: "cstring m s xs" "length xs < dmax" and p: "d \<noteq> 0" "s \<noteq> 0"
    and apart: "d > s + length xs \<or> s > d + dmax" and r: "strncpy_s d dmax s slen m = (ret, m')"
  shows "ret = 0" "cstring m' d xs" "a < d \<or> d + length xs < a \<Longrightarrow> m' a = m a"
proof -
  have len: "strnlen_s m s dmax = length xs" using xs p by (simp add: strnlen_s_cstring)
  note cp = memcpy_s_ok [OF p less_imp_le [OF xs(2)] apart, where m = m]
  have m': "ret = 0" "m' = (snd (memcpy_s d dmax s (length xs) m))(d + length xs := 0)"
    using r xs(2) cp(1) by (auto simp: strncpy_s_def len split_beta Let_def)
  show "ret = 0" by (rule m')
  show "cstring m' d xs"
    using xs(1) cp(2) by (simp add: cstring_iff m'(2) bytes_upd_other)
  show "a < d \<or> d + length xs < a \<Longrightarrow> m' a = m a" using cp(3) [of a] by (auto simp: m'(2))
qed

lemma strncpy_s_rejects:
  assumes "cstring m s xs" "s \<noteq> 0" "dmax \<le> length xs" "dmax \<le> slen" "d \<noteq> 0" "dmax > 0"
  shows "strncpy_s d dmax s slen m = (-1, m(d := 0))"
  using assms by (simp add: strncpy_s_def strnlen_s_cstring)

text \<open>With \<open>slen < dmax\<close> a string that does not fit is copied, and terminated behind the buffer.\<close>

lemma strncpy_s_overflow:
  assumes xs: "cstring m s xs" "dmax \<le> length xs" "slen < dmax" and p: "d \<noteq> 0" "s \<noteq> 0"
    and apart: "d > s + dmax \<or> s > d + dmax"
  shows "fst (strncpy_s d dmax s slen m) = 0" "snd (strncpy_s d dmax s slen m) (d + dmax) = 0"
    "bytes (snd (strncpy_s d dmax s slen m)) d dmax = take dmax xs"
proof -
  have len: "strnlen_s m s dmax = dmax" using xs p by (simp add: strnlen_s_cstring)
  note cp = memcpy_s_ok [OF p order.refl apart, where m = m]
  have eq: "strncpy_s d dmax s slen m = (0, (snd (memcpy_s d dmax s dmax m))(d + dmax := 0))"
    using xs(3) cp(1) by (auto simp: strncpy_s_def len split_beta Let_def)
  show "fst (strncpy_s d dmax s slen m) = 0" "snd (strncpy_s d dmax s slen m) (d + dmax) = 0"
    by (simp_all add: eq)
  have "bytes m s dmax = take dmax xs"
    using xs(1,2) bytes_window [of 0 dmax "length xs" m s] by (simp add: cstring_iff)
  thus "bytes (snd (strncpy_s d dmax s slen m)) d dmax = take dmax xs"
    using cp(2) by (simp add: eq bytes_upd_other)
qed

lemma strncat_s_appends:
  assumes xs: "cstring m d xs" and ys: "cstring m s ys" and p: "d \<noteq> 0" "s \<noteq> 0"
    and room: "length xs + length ys < dmax" "length ys \<le> slen"
    and apart: "d > s + length ys \<or> s > d + dmax" and r: "strncat_s d dmax s slen m = (ret, m')"
  shows "ret = 0" "cstring m' d (xs @ ys)" "a < d \<or> d + length (xs @ ys) < a \<Longrightarrow> m' a = m a"
proof -
  let ?st = "d + length xs" and ?dm = "dmax - length xs"
  have len: "strnlen_s m d dmax = length xs" "strnlen_s m s slen = length ys"
    using xs ys p room by (simp_all add: strnlen_s_cstring)
  have ok: "?st \<noteq> 0" "s \<noteq> 0" "length ys \<le> ?dm" "?st > s + length ys \<or> s > ?st + ?dm"
    using p room apart by auto
  note cp = memcpy_s_ok [OF ok, where m = m]
  have "d > s + length ys \<or> s > d + length xs" using apart room by auto
  hence m': "ret = 0" "m' = (snd (memcpy_s ?st ?dm s (length ys) m))(?st + length ys := 0)"
    using r p room by (auto simp: strncat_s_def len Let_def)
  show "ret = 0" by (rule m')
  have "bytes m' d (length xs) = bytes m d (length xs)"
    using cp(3) by (intro bytes_eqI) (simp add: m'(2))
  moreover have "bytes m' ?st (length ys) = bytes m s (length ys)"
    using cp(2) by (simp add: m'(2) bytes_upd_other)
  ultimately show "cstring m' d (xs @ ys)"
    using xs ys by (simp add: cstring_iff m'(2) bytes_add ac_simps)
  show "a < d \<or> d + length (xs @ ys) < a \<Longrightarrow> m' a = m a"
    using cp(3) [of a] by (auto simp: m'(2))
qed

subsection \<open>Numbers\<close>

lemma skip_space_cstring:
  "cstring m p (xs @ ys) \<Longrightarrow> list_all is_space xs \<Longrightarrow> \<not> is_space (hd (ys @ [0])) \<Longrightarrow>
    skip_space m p = Some (hd (ys @ [0]), p + length xs + 1)"
proof (induction xs arbitrary: p)
  case Nil
  thus ?case by (cases ys) (auto simp: skip_space.simps)
next
  case (Cons x xs)
  thus ?case by (subst skip_space.simps) auto
qed

definition is_deci :: "u8 \<Rightarrow> bool" where
  "is_deci c \<longleftrightarrow> 0x30 \<le> c \<and> c \<le> 0x39"

text \<open>The number a sequence of decimal digits denotes, continuing from \<open>a\<close>.\<close>

fun deci_value :: "nat \<Rightarrow> u8 list \<Rightarrow> nat" where
  "deci_value a [] = a"
| "deci_value a (c # cs) = deci_value (10 * a + unat (c - 0x30)) cs"

lemma deci_value_mono: "a \<le> deci_value a cs"
proof (induction cs arbitrary: a)
  case (Cons c cs)
  have "a \<le> 10 * a + unat (c - 0x30)" by simp
  also have "\<dots> \<le> deci_value (10 * a + unat (c - 0x30)) cs" by (rule Cons.IH)
  finally show ?case by simp
qed simp

lemma is_deci_digit: "is_deci c \<Longrightarrow> unat (c - 0x30) \<le> 9"
  by (auto simp: is_deci_def unat_sub_le word_le_nat_alt)

lemma nat_cutoff:
  assumes "(c::nat) \<le> 9"
  shows "(l div 10 < a \<or> (a = l div 10 \<and> l mod 10 < c)) \<longleftrightarrow> l < 10 * a + c"
proof -
  define q r where "q = l div 10" and "r = l mod 10"
  have "l = 10 * q + r" "r < 10" by (auto simp: q_def r_def)
  thus ?thesis using assms by (auto simp flip: q_def r_def)
qed

lemma deci_cutoff:
  fixes acc lim :: u64 and c :: u8
  assumes "unat c \<le> 9"
  shows "acc > lim div 10 \<or> (acc = lim div 10 \<and> ucast c > lim mod 10) \<longleftrightarrow> unat lim < 10 * unat acc + unat c"
proof -
  have "unat (lim div 10) = unat lim div 10" "unat (lim mod 10) = unat lim mod 10"
    by (simp_all add: unat_div unat_mod)
  moreover have "unat (ucast c :: u64) = unat c" by (simp add: unat_ucast_up)
  ultimately show ?thesis using nat_cutoff [OF assms, of "unat lim" "unat acc"]
    by (simp add: word_less_nat_alt word_unat_eq_iff)
qed

lemma strtol_deci_loop_value:
  assumes "cstring m (s - 1) (ds @ rest)" "s > 0" "list_all is_deci ds" "rest = [] \<or> \<not> is_deci (hd rest)"
    and "unat acc \<le> unat lim"
  shows "\<exists>acc'. strtol_deci_loop m s (m (s - 1)) acc (lim div 10) (lim mod 10)
      = Some (unat lim < deci_value (unat acc) ds, acc') \<and>
    (deci_value (unat acc) ds \<le> unat lim \<longrightarrow> unat acc' = deci_value (unat acc) ds)"
  using assms
proof (induction ds arbitrary: s acc)
  case Nil
  have "\<not> is_deci (m (s - 1))" using Nil.prems by (cases rest) (auto simp: is_deci_def)
  thus ?case using Nil.prems by (subst strtol_deci_loop.simps) (auto simp: is_deci_def)
next
  case (Cons c ds)
  have c: "is_deci c" "m (s - 1) = c" using Cons.prems by auto
  let ?v = "10 * unat acc + unat (c - 0x30)"
  have cut: "acc > lim div 10 \<or> (acc = lim div 10 \<and> ucast (c - 0x30) > lim mod 10) \<longleftrightarrow> unat lim < ?v"
    using deci_cutoff [OF is_deci_digit [OF c(1)]] by simp
  show ?case
  proof (cases "unat lim < ?v")
    case True
    moreover have "?v \<le> deci_value ?v ds" by (rule deci_value_mono)
    ultimately show ?thesis using c cut by (subst strtol_deci_loop.simps) (auto simp: is_deci_def)
  next
    case False
    have "unat lim < 2 ^ 64" using unsigned_less [of lim, where 'a = nat] by simp
    hence v: "unat (acc * 10 + ucast (c - 0x30)) = ?v"
      using False by (simp add: unat_word_ariths unat_ucast_up)
    have "strtol_deci_loop m s (m (s - 1)) acc (lim div 10) (lim mod 10)
        = strtol_deci_loop m (s + 1) (m s) (acc * 10 + ucast (c - 0x30)) (lim div 10) (lim mod 10)"
      using c cut False by (subst strtol_deci_loop.simps) (auto simp: is_deci_def)
    thus ?thesis using Cons.IH [of "s + 1" "acc * 10 + ucast (c - 0x30)"] Cons.prems False v by simp
  qed
qed

lemma LONG_vals: "ULONG_MAX = 0xffffffffffffffff" "LONG_MAX = 0x7fffffffffffffff" "LONG_MIN = 0x8000000000000000"
  by (simp_all add: LONG_MIN_def LONG_MAX_def ULONG_MAX_def mask_eq_exp_minus_1)

lemma sint_of_nat_small: "n < 2 ^ 63 \<Longrightarrow> sint (of_nat n :: u64) = int n"
  using signed_take_bit_int_eq_self [of 63 "int n"] by (simp add: signed_of_nat)

lemma sint_minus_of_nat: "n \<le> 2 ^ 63 \<Longrightarrow> sint (- of_nat n :: u64) = - int n"
  using signed_take_bit_int_eq_self [of 63 "- int n"] signed_of_int [of "- int n", where 'b = 64] by simp

text \<open>The value of \<open>strtol_deci\<close>: the number with its sign, saturated at the ends of the range.\<close>

lemma strtol_deci_value:
  assumes cs: "cstring m p (sp @ sg @ ds @ rest)" and sp: "list_all is_space sp"
    and sg: "sg \<in> {[], [0x2b], [0x2d]}" and ds: "ds \<noteq> []" "list_all is_deci ds"
    and rest: "rest = [] \<or> \<not> is_deci (hd rest)"
  shows "\<exists>r. strtol_deci m p = Some r \<and> sint r = (if sg = [0x2d] then - min (int (deci_value 0 ds)) (2 ^ 63)
      else min (int (deci_value 0 ds)) (2 ^ 63 - 1))"
proof -
  obtain d ds' where d: "ds = d # ds'" "is_deci d" using ds by (cases ds) auto
  have hd_ns: "\<not> is_space (hd (sg @ ds @ rest @ [0]))"
    using sg d by (auto simp: is_space_def is_deci_def)
  define q where "q = p + length sp + length sg"
  have skip: "skip_space m p = Some (hd (sg @ ds), p + length sp + 1)"
    using skip_space_cstring [OF cs sp] hd_ns d by (cases sg) auto
  have str: "cstring m q (ds @ rest)" using cs by (auto simp: cstring_append q_def ac_simps)
  hence mq: "m q = d" using d by simp
  define lim where "lim = (if sg = [0x2d] then LONG_MIN else LONG_MAX)"
  have lim: "unat lim = (if sg = [0x2d] then 2 ^ 63 else 2 ^ 63 - 1)"
    by (simp add: lim_def LONG_vals)
  have eq: "strtol_deci m p = map_option (\<lambda>(ovf, acc). if ovf then lim else if sg = [0x2d] then - acc else acc)
      (strtol_deci_loop m (q + 1) (m q) 0 (lim div 10) (lim mod 10))"
    using sg skip mq d
    by (auto simp: strtol_deci_def lim_def q_def is_deci_def split: Option.bind_split simp flip: minus_eq_not_plus_1)
  obtain acc where acc: "strtol_deci_loop m (q + 1) (m q) 0 (lim div 10) (lim mod 10)
      = Some (unat lim < deci_value 0 ds, acc)" "deci_value 0 ds \<le> unat lim \<longrightarrow> unat acc = deci_value 0 ds"
    using strtol_deci_loop_value [of m "q + 1" ds rest 0 lim] str ds rest by auto
  define r where "r = (if unat lim < deci_value 0 ds then lim else if sg = [0x2d] then - acc else acc)"
  have "strtol_deci m p = Some r" using eq acc(1) by (simp add: r_def)
  moreover have "sint r = (if sg = [0x2d] then - min (int (deci_value 0 ds)) (2 ^ 63)
      else min (int (deci_value 0 ds)) (2 ^ 63 - 1))"
  proof (cases "unat lim < deci_value 0 ds")
    case True
    hence "sint r = (if sg = [0x2d] then - (2 ^ 63) else 2 ^ 63 - 1)"
      by (simp add: r_def lim_def LONG_vals)
    thus ?thesis using True lim by (simp split: if_splits)
  next
    case False
    hence "of_nat (unat acc) = (of_nat (deci_value 0 ds) :: u64)" using acc(2) by simp
    hence "acc = of_nat (deci_value 0 ds)" by simp
    hence "sint r = (if sg = [0x2d] then - int (deci_value 0 ds) else int (deci_value 0 ds))"
      using False lim sint_of_nat_small [of "deci_value 0 ds"] sint_minus_of_nat [of "deci_value 0 ds"]
      by (simp add: r_def split: if_splits)
    thus ?thesis using False lim by (simp split: if_splits)
  qed
  ultimately show ?thesis by blast
qed

subsection \<open>The hexadecimal parser\<close>

text \<open>
  The digit of a character that is no hexadecimal digit is \<open>-1\<close>, stored in an
  unsigned \<open>char\<close>: the loop takes it for 255 and runs on, behind the end of the
  string, until its overflow check fires.
\<close>

lemma hex_loop_step:
  "strtoul_hex_loop m s acc 255 = (if acc \<ge> 0xfffffffffffffff then Some ULONG_MAX
     else strtoul_hex_loop m (s + 1) (acc * 16 + 255) (hex_digit_value (m s)))"
proof -
  have "ULONG_MAX div 16 = 0xfffffffffffffff" "ULONG_MAX mod 16 = 15" by (simp_all add: LONG_vals)
  thus ?thesis by (subst strtoul_hex_loop.simps) auto
qed

lemma hex_digit_value_0: "hex_digit_value 0 = 255"
  by (simp add: hex_digit_value_def)

lemma hex_acc_step:
  assumes "acc < (0xfffffffffffffff :: u64)" "unat acc mod 16 = 15"
  shows "unat (acc * 16 + 255) + 17 = 16 * (unat acc + 17)" "unat (acc * 16 + 255) mod 16 = 15"
proof -
  have lt: "unat acc < 0xfffffffffffffff" using assms(1) by (simp add: word_less_nat_alt)
  obtain n where n: "unat acc = 16 * n + 15" using assms(2) by (metis mult_div_mod_eq)
  have "unat acc * 16 + 255 < 2 ^ 64" using lt unfolding n by simp
  hence eq: "unat (acc * 16 + 255) = unat acc * 16 + 255" by (simp add: unat_word_ariths)
  show "unat (acc * 16 + 255) + 17 = 16 * (unat acc + 17)" using eq by simp
  show "unat (acc * 16 + 255) mod 16 = 15" unfolding eq mod_mult_self3 by simp
qed

lemma hex_loop_zeros:
  assumes "\<forall>i < k. m (s + i) = 0" "unat acc mod 16 = 15" "2 ^ 61 \<le> (unat acc + 17) * 16 ^ k"
  shows "strtoul_hex_loop m s acc 255 = Some ULONG_MAX"
  using assms
proof (induction k arbitrary: s acc)
  case 0
  hence "acc \<ge> 0xfffffffffffffff" by (simp add: word_le_nat_alt)
  thus ?case by (simp add: hex_loop_step)
next
  case (Suc k)
  show ?case
  proof (cases "acc \<ge> 0xfffffffffffffff")
    case False
    note st = hex_acc_step [OF _ Suc.prems(2)]
    have "strtoul_hex_loop m (s + 1) (acc * 16 + 255) 255 = Some ULONG_MAX"
    proof (rule Suc.IH)
      show "\<forall>i<k. m (s + 1 + i) = 0" using Suc.prems(1) by auto
      show "unat (acc * 16 + 255) mod 16 = 15" using st(2) False by simp
      show "2 ^ 61 \<le> (unat (acc * 16 + 255) + 17) * 16 ^ k"
        unfolding st(1) [OF False [unfolded not_le]] using Suc.prems(3) by (simp only: power_Suc ac_simps)
    qed
    moreover have "m s = 0" using Suc.prems(1) by auto
    ultimately show ?thesis using False by (simp add: hex_loop_step [of m s acc] hex_digit_value_0)
  qed (simp add: hex_loop_step)
qed

lemma unat_mod_16: "unat ((acc :: u64) * 16 + 255) mod 16 = 15"
proof -
  have "unat (acc * 16 + 255) = (unat acc * 16 + 255) mod 2 ^ 64"
    by (simp add: unat_word_ariths mod_simps)
  also have "\<dots> mod 16 = (unat acc * 16 + 255) mod 16"
    by (rule mod_mod_cancel) simp
  also have "\<dots> = 255 mod 16" by (rule mod_mult_self3)
  finally show ?thesis by simp
qed

lemma strtoul_hex_loop_saturates:
  assumes "cstring m p xs" "\<forall>i < 16. m (p + length xs + i) = 0"
  shows "strtoul_hex_loop m (p + 1) acc (hex_digit_value (m p)) = Some ULONG_MAX"
  using assms
proof (induction xs arbitrary: p acc)
  case Nil
  have z: "m (p + 1) = 0" "\<forall>i < 14. m (p + 2 + i) = 0" "m p = 0"
    using Nil.prems(2) [rule_format, of 1] Nil.prems(2) [rule_format, of "2 + _"] Nil.prems(1)
    by (auto simp: add.assoc)
  have "strtoul_hex_loop m (p + 2) (acc * 16 + 255) 255 = Some ULONG_MAX"
  proof (rule hex_loop_zeros [OF z(2) unat_mod_16])
    have "15 \<le> unat (acc * 16 + 255)" using unat_mod_16 [of acc] mod_less_eq_dividend by metis
    hence "32 * 16 ^ 14 \<le> (unat (acc * 16 + 255) + 17) * 16 ^ (14::nat)" by (intro mult_right_mono) simp_all
    thus "2 ^ 61 \<le> (unat (acc * 16 + 255) + 17) * 16 ^ (14::nat)" by simp
  qed
  thus ?case unfolding z(3) hex_digit_value_0 hex_loop_step [of m "p + 1" acc] z(1) by simp
next
  case (Cons x xs)
  have "strtoul_hex_loop m (p + 1 + 1) a (hex_digit_value (m (p + 1))) = Some ULONG_MAX" for a
    using Cons.prems by (intro Cons.IH) auto
  thus ?case by (subst strtoul_hex_loop.simps) (auto simp del: add_Suc_right)
qed

lemma cstring_drop: "cstring m p xs \<Longrightarrow> n \<le> length xs \<Longrightarrow> cstring m (p + n) (drop n xs)"
  using cstring_append [of m p "take n xs" "drop n xs"] by simp

lemma skip_space_stops:
  assumes "cstring m p xs"
  obtains n where "n \<le> length xs" "skip_space m p = Some (m (p + n), p + n + 1)"
  using assms
proof (induction xs arbitrary: p thesis)
  case Nil
  thus ?case by (auto simp: skip_space.simps is_space_def)
next
  case (Cons x xs)
  show ?case
  proof (cases "is_space x")
    case True
    obtain n where n: "n \<le> length xs" "skip_space m (p + 1) = Some (m (p + 1 + n), p + 1 + n + 1)"
      using Cons.IH [of "p + 1"] Cons.prems(2) by auto
    show ?thesis using Cons.prems True n
      by (intro Cons.prems(1) [of "Suc n"]) (auto simp: skip_space.simps [of m p])
  next
    case False
    thus ?thesis using Cons.prems by (intro Cons.prems(1) [of 0]) (auto simp: skip_space.simps)
  qed
qed

lemma strtoul_hex_saturates:
  assumes xs: "cstring m p xs" and z: "\<forall>i < 16. m (p + length xs + i) = 0"
  shows "strtoul_hex m p = Some ULONG_MAX"
proof -
  obtain n where n: "n \<le> length xs" "skip_space m p = Some (m (p + n), p + n + 1)"
    using skip_space_stops [OF xs] .
  have loop: "strtoul_hex_loop m (p + k + 1) 0 (hex_digit_value (m (p + k))) = Some ULONG_MAX"
    if "k \<le> length xs" for k
    using strtoul_hex_loop_saturates [OF cstring_drop [OF xs that]] z that by simp
  have in_string: "k < length xs" if "m (p + k) \<noteq> 0" "k \<le> length xs" for k
    using that xs by (cases "k = length xs") (auto simp: cstring_iff)
  have "n + 2 \<le> length xs" if "m (p + n) = 0x30" "m (p + n + 1) = 0x78 \<or> m (p + n + 1) = 0x58"
    using in_string [of n] in_string [of "n + 1"] that n(1) by auto
  thus ?thesis using n loop [of n] loop [of "n + 2"]
    by (auto simp: strtoul_hex_def)
qed

end
