(* ===== verification/Sprintf.thy ===== *)
theory Sprintf
  imports Strings
begin

text \<open>
  Formatted output: \<open>lib/sprintf.c\<close>, its users \<open>debug/printf.c\<close> and
  \<open>arch/riscv/uart.c\<close>.

  The formatter reads the format string and the string arguments from memory
  and passes pieces of text to \<open>param->emit\<close>, a function pointer; it is an
  argument here, and theory \<open>Format_Text\<close> states its contract.  A pointer is an
  address in memory, or the start of an array in the local frame or of a
  literal.  An argument list is a list of typed values; fetching one of another
  type is undefined and gives \<open>None\<close>, as do an exhausted list and a write
  outside a local array.
\<close>

subsection \<open>Data\<close>

datatype cptr = Mem addr | Local "u8 list"

abbreviation NULL :: cptr where "NULL \<equiv> Mem 0"

text \<open>Reading through a pointer, and through a pointer as a string.\<close>

fun deref :: "mem \<Rightarrow> cptr \<Rightarrow> nat \<Rightarrow> u8" where
  "deref m (Mem a) i = m (a + i)"
| "deref m (Local xs) i = (if i < length xs then xs ! i else 0)"

fun ptr_strnlen :: "mem \<Rightarrow> cptr \<Rightarrow> nat \<Rightarrow> nat" where
  "ptr_strnlen m (Mem a) n = strnlen_s m a n"
| "ptr_strnlen m (Local xs) n = strnlen_s (\<lambda>i. deref m (Local xs) (i - 1)) 1 n"

datatype va_arg = VA32 u32 | VA64 u64 | VAPtr addr

record snprint_param =
  dst :: addr
  sz :: u32
  wrtn :: u32

record print_vars =
  flags :: u32
  width :: u32
  precision :: u32
  vmask :: u64
  val :: cptr
  valuelen :: u32
  prefx :: cptr
  prefixlen :: u32

type_synonym 'd emit = "u32 \<Rightarrow> cptr \<Rightarrow> u32 \<Rightarrow> mem \<times> 'd \<Rightarrow> mem \<times> 'd"

definition PRINT_CMD_COPY :: u32 where "PRINT_CMD_COPY = 0"
definition PRINT_CMD_FILL :: u32 where "PRINT_CMD_FILL = 1"
definition PRINT_STRING_MAX_LEN :: nat where "PRINT_STRING_MAX_LEN = 4096"
definition PRINT_FLAG_UPPER :: u32 where "PRINT_FLAG_UPPER = 0x1"
definition PRINT_FLAG_ALTERNATE_FORM :: u32 where "PRINT_FLAG_ALTERNATE_FORM = 0x2"
definition PRINT_FLAG_PAD_ZERO :: u32 where "PRINT_FLAG_PAD_ZERO = 0x4"
definition PRINT_FLAG_LEFT_JUSTIFY :: u32 where "PRINT_FLAG_LEFT_JUSTIFY = 0x8"
definition PRINT_FLAG_SIGN :: u32 where "PRINT_FLAG_SIGN = 0x10"
definition PRINT_FLAG_SPACE :: u32 where "PRINT_FLAG_SPACE = 0x20"
definition PRINT_FLAG_CHAR :: u32 where "PRINT_FLAG_CHAR = 0x40"
definition PRINT_FLAG_SHORT :: u32 where "PRINT_FLAG_SHORT = 0x80"
definition PRINT_FLAG_LONG :: u32 where "PRINT_FLAG_LONG = 0x200"
definition PRINT_FLAG_LONG_LONG :: u32 where "PRINT_FLAG_LONG_LONG = 0x200"
definition PRINT_FLAG_UINT32 :: u32 where "PRINT_FLAG_UINT32 = 0x400"

abbreviation has_flag :: "u32 \<Rightarrow> u32 \<Rightarrow> bool" where
  "has_flag fl f \<equiv> fl AND f \<noteq> 0"

definition upper_hex_digits :: "u8 list" where
  "upper_hex_digits = [0x30, 0x31, 0x32, 0x33, 0x34, 0x35, 0x36, 0x37, 0x38, 0x39, 0x41, 0x42, 0x43, 0x44, 0x45, 0x46, 0x58]"

definition lower_hex_digits :: "u8 list" where
  "lower_hex_digits = [0x30, 0x31, 0x32, 0x33, 0x34, 0x35, 0x36, 0x37, 0x38, 0x39, 0x61, 0x62, 0x63, 0x64, 0x65, 0x66, 0x78]"

subsection \<open>Parsing a conversion\<close>

partial_function (option) get_param_loop :: "mem \<Rightarrow> addr \<Rightarrow> u32 \<Rightarrow> (addr \<times> u32) option" where
  "get_param_loop m s x =
    (if 0x30 \<le> m s \<and> m s \<le> 0x39 then get_param_loop m (s + 1) (x * 10 + ucast (m s - 0x30)) else Some (s, x))"

declare get_param_loop.simps [code]

definition get_param :: "mem \<Rightarrow> addr \<Rightarrow> (addr \<times> u32) option" where
  "get_param m s = get_param_loop m (if m s = 0x2d then s + 1 else s) 0"

definition flagchars :: "u8 list" where
  "flagchars = [0x23, 0x30, 0x2d, 0x20, 0x2b]"

definition flag_table :: "u32 list" where
  "flag_table = [PRINT_FLAG_ALTERNATE_FORM, PRINT_FLAG_PAD_ZERO, PRINT_FLAG_LEFT_JUSTIFY, PRINT_FLAG_SPACE, PRINT_FLAG_SIGN]"

text \<open>The flag of a character, by a linear search of the table.\<close>

definition flag_of :: "u8 \<Rightarrow> u32 option" where
  "flag_of c = map_of (zip flagchars flag_table) c"

partial_function (option) get_flags_loop :: "mem \<Rightarrow> addr \<Rightarrow> u32 \<Rightarrow> (addr \<times> u32) option" where
  "get_flags_loop m s fl =
    (if m s \<noteq> 0
     then case flag_of (m s) of Some f \<Rightarrow> get_flags_loop m (s + 1) (fl OR f) | None \<Rightarrow> Some (s, fl)
     else Some (s, fl))"

declare get_flags_loop.simps [code]

text \<open>The priorities among the flags.\<close>

definition adjust_flags :: "u32 \<Rightarrow> u32" where
  "adjust_flags fl =
    (let fl = (if has_flag fl PRINT_FLAG_LEFT_JUSTIFY then fl AND NOT PRINT_FLAG_PAD_ZERO else fl)
     in if has_flag fl PRINT_FLAG_SIGN then fl AND NOT PRINT_FLAG_SPACE else fl)"

definition get_flags :: "mem \<Rightarrow> addr \<Rightarrow> u32 \<Rightarrow> (addr \<times> u32) option" where
  "get_flags m s fl = map_option (\<lambda>(s, fl). (s, adjust_flags fl)) (get_flags_loop m s fl)"

definition get_length_modifier :: "mem \<Rightarrow> addr \<Rightarrow> u32 \<Rightarrow> u64 \<Rightarrow> addr \<times> u32 \<times> u64" where
  "get_length_modifier m s fl msk =
    (if m s = 0x68
     then if m (s + 1) = 0x68 then (s + 2, fl OR PRINT_FLAG_CHAR, 0xff)
          else (s + 1, fl OR PRINT_FLAG_SHORT, 0xffff)
     else if m s = 0x6c
     then if m (s + 1) = 0x6c then (s + 2, fl OR PRINT_FLAG_LONG_LONG, msk)
          else (s + 1, fl OR PRINT_FLAG_LONG, msk)
     else (s, fl, msk))"

subsection \<open>Printing a value\<close>

definition format_number :: "'d emit \<Rightarrow> print_vars \<Rightarrow> mem \<times> 'd \<Rightarrow> print_vars \<times> mem \<times> 'd" where
  "format_number emit v st =
    (let wid = valuelen v + prefixlen v;
         p = (if precision v > wid then precision v - wid else 0);
         w = (if width v > wid + p then width v - (wid + p) else 0);
         (v, st) =
           (if \<not> has_flag (flags v) PRINT_FLAG_LEFT_JUSTIFY
            then
              let (pad, v, st) =
                (if has_flag (flags v) PRINT_FLAG_PAD_ZERO
                 then (0x30, v\<lparr>prefx := NULL, prefixlen := 0\<rparr>, emit PRINT_CMD_COPY (prefx v) (prefixlen v) st)
                 else (0x20, v, st))
              in (v, emit PRINT_CMD_FILL (Local [pad]) w st)
            else (v, st));
         st = emit PRINT_CMD_COPY (prefx v) (prefixlen v) st;
         st = emit PRINT_CMD_FILL (Local [0x30]) p st;
         st = emit PRINT_CMD_COPY (val v) (valuelen v) st;
         st = (if has_flag (flags v) PRINT_FLAG_LEFT_JUSTIFY then emit PRINT_CMD_FILL (Local [0x20]) w st else st)
     in (v, st))"

text \<open>The digits of \<open>print_pow2\<close>, written from the end of a buffer of \<open>n\<close> more bytes.\<close>

fun pow2_digits :: "u8 list \<Rightarrow> nat \<Rightarrow> nat \<Rightarrow> u64 \<Rightarrow> u8 list \<Rightarrow> u8 list option" where
  "pow2_digits digits shift 0 v buf = None"
| "pow2_digits digits shift (Suc n) v buf =
    (let buf = digits ! unat (v AND (push_bit shift 1 - 1)) # buf; v = drop_bit shift v
     in if v \<noteq> 0 then pow2_digits digits shift n v buf else Some buf)"

definition print_pow2 :: "'d emit \<Rightarrow> print_vars \<Rightarrow> u64 \<Rightarrow> nat \<Rightarrow> mem \<times> 'd \<Rightarrow> (mem \<times> 'd) option" where
  "print_pow2 emit v v_arg shift st =
    (let digits = (if has_flag (flags v) PRINT_FLAG_UPPER then upper_hex_digits else lower_hex_digits);
         n = v_arg AND vmask v;
         v = (if n = 0 \<and> has_flag (flags v) PRINT_FLAG_ALTERNATE_FORM
              then if shift = 4 then v\<lparr>prefx := Local [0x30, digits ! 16], prefixlen := 2\<rparr>
                   else v\<lparr>prefx := Local [0x30], prefixlen := 1\<rparr>
              else v)
     in do {
       buf \<leftarrow> pow2_digits digits shift 22 n [];
       Some (snd (format_number emit (v\<lparr>val := Local buf, valuelen := of_nat (length buf)\<rparr>) st))
     })"

text \<open>The two loops of \<open>print_decimal\<close>, with the free bytes at the front of the buffer.\<close>

fun deci_digits64 :: "nat \<Rightarrow> u64 \<Rightarrow> u8 list \<Rightarrow> (nat \<times> u64 \<times> u8 list) option" where
  "deci_digits64 0 v buf = (if (ucast (drop_bit 32 v) :: u32) \<noteq> 0 then None else Some (0, v, buf))"
| "deci_digits64 (Suc n) v buf =
    (if (ucast (drop_bit 32 v) :: u32) \<noteq> 0
     then deci_digits64 n (v div 10) ((ucast (v mod 10) + 0x30) # buf)
     else Some (Suc n, v, buf))"

fun deci_digits32 :: "nat \<Rightarrow> u32 \<Rightarrow> u8 list \<Rightarrow> u8 list option" where
  "deci_digits32 0 v buf = None"
| "deci_digits32 (Suc n) v buf =
    (let buf = (ucast (v mod 10) + 0x30) # buf; v = v div 10
     in if v \<noteq> 0 then deci_digits32 n v buf else Some buf)"

definition print_decimal :: "'d emit \<Rightarrow> print_vars \<Rightarrow> u64 \<Rightarrow> mem \<times> 'd \<Rightarrow> (mem \<times> 'd) option" where
  "print_decimal emit v vl st =
    (let (n, v) = (if \<not> has_flag (flags v) PRINT_FLAG_UINT32 \<and> sint vl < 0
                   then (- vl, v\<lparr>prefx := Local [0x2d], prefixlen := 1\<rparr>)
                   else (vl AND vmask v, v));
         v = (if prefx v = NULL
              then if has_flag (flags v) PRINT_FLAG_SIGN then v\<lparr>prefx := Local [0x2b], prefixlen := 1\<rparr>
                   else if has_flag (flags v) PRINT_FLAG_SPACE then v\<lparr>prefx := Local [0x20], prefixlen := 1\<rparr>
                   else v
              else v)
     in do {
       (k, n, buf) \<leftarrow> deci_digits64 20 n [];
       buf \<leftarrow> deci_digits32 k (ucast n) buf;
       Some (snd (format_number emit (v\<lparr>val := Local buf, valuelen := of_nat (length buf)\<rparr>) st))
     })"

definition print_string :: "'d emit \<Rightarrow> print_vars \<Rightarrow> cptr \<Rightarrow> mem \<times> 'd \<Rightarrow> mem \<times> 'd" where
  "print_string emit v s st =
    (let len = of_nat (ptr_strnlen (fst st) s PRINT_STRING_MAX_LEN);
         len = (if precision v \<noteq> 0 \<and> len > precision v then precision v else len);
         w = (if width v > 0 \<and> width v > len then width v - len else 0);
         st = (if \<not> has_flag (flags v) PRINT_FLAG_LEFT_JUSTIFY then emit PRINT_CMD_FILL (Local [0x20]) w st else st);
         st = emit PRINT_CMD_COPY s len st
     in if has_flag (flags v) PRINT_FLAG_LEFT_JUSTIFY then emit PRINT_CMD_FILL (Local [0x20]) w st else st)"

subsection \<open>The formatter\<close>

fun va_arg32 :: "va_arg list \<Rightarrow> (u32 \<times> va_arg list) option" where
  "va_arg32 (VA32 x # args) = Some (x, args)"
| "va_arg32 _ = None"

fun va_arg64 :: "va_arg list \<Rightarrow> (u64 \<times> va_arg list) option" where
  "va_arg64 (VA64 x # args) = Some (x, args)"
| "va_arg64 _ = None"

fun va_argptr :: "va_arg list \<Rightarrow> (addr \<times> va_arg list) option" where
  "va_argptr (VAPtr x # args) = Some (x, args)"
| "va_argptr _ = None"

text \<open>An integer argument of the width the flags select, extended by \<open>ext\<close>.\<close>

definition va_int :: "(u32 \<Rightarrow> u64) \<Rightarrow> u32 \<Rightarrow> va_arg list \<Rightarrow> (u64 \<times> va_arg list) option" where
  "va_int ext fl args =
    (if has_flag fl PRINT_FLAG_LONG_LONG then va_arg64 args
     else map_option (\<lambda>(x, args). (ext x, args)) (va_arg32 args))"

definition null_text :: "u8 list" where
  "null_text = [0x28, 0x6e, 0x75, 0x6c, 0x6c, 0x29]"

text \<open>The selection of a printer by the conversion character.\<close>

definition print_conversion ::
  "'d emit \<Rightarrow> addr \<Rightarrow> addr \<Rightarrow> u8 \<Rightarrow> print_vars \<Rightarrow> va_arg list \<Rightarrow> mem \<times> 'd \<Rightarrow> (va_arg list \<times> mem \<times> 'd) option" where
  "print_conversion emit start fmt ch v args st =
    (if ch = 0x25 then Some (args, emit PRINT_CMD_COPY (Local [ch]) 1 st)
     else if ch = 0x64 \<or> ch = 0x69 then do {
       (x, args) \<leftarrow> va_int scast (flags v) args;
       st \<leftarrow> print_decimal emit v x st;
       Some (args, st)
     }
     else if ch = 0x75 then do {
       let v = v\<lparr>flags := flags v OR PRINT_FLAG_UINT32\<rparr>;
       (x, args) \<leftarrow> va_int ucast (flags v) args;
       st \<leftarrow> print_decimal emit v x st;
       Some (args, st)
     }
     else if ch = 0x58 \<or> ch = 0x78 then do {
       let v = (if ch = 0x58 then v\<lparr>flags := flags v OR PRINT_FLAG_UPPER\<rparr> else v);
       (x, args) \<leftarrow> va_int ucast (flags v) args;
       st \<leftarrow> print_pow2 emit v x 4 st;
       Some (args, st)
     }
     else if ch = 0x73 then do {
       (s, args) \<leftarrow> va_argptr args;
       Some (args, print_string emit v (if s = 0 then Local null_text else Mem s) st)
     }
     else if ch = 0x63 then do {
       (x, args) \<leftarrow> va_arg32 args;
       Some (args, print_string emit v (Local [ucast x, 0]) st)
     }
     else Some (args, emit PRINT_CMD_COPY (Mem start) (of_nat (fmt - start)) st))"

definition init_vars :: print_vars where
  "init_vars = \<lparr>flags = 0, width = 0, precision = 0, vmask = NOT 0, val = NULL, valuelen = 0, prefx = NULL, prefixlen = 0\<rparr>"

text \<open>The conversion that starts with the percent sign at \<open>start\<close>.\<close>

definition do_conversion ::
  "'d emit \<Rightarrow> addr \<Rightarrow> va_arg list \<Rightarrow> mem \<times> 'd \<Rightarrow> (addr \<times> va_arg list \<times> mem \<times> 'd) option" where
  "do_conversion emit start args st = do {
     let m = fst st;
     (fmt, fl) \<leftarrow> get_flags m (start + 1) 0;
     (fmt, wid) \<leftarrow> get_param m fmt;
     (fmt, prec) \<leftarrow> (if m fmt = 0x2e then get_param m (fmt + 1) else Some (fmt, 0));
     let (fmt, fl, msk) = get_length_modifier m fmt fl (NOT 0);
     (args, st) \<leftarrow> print_conversion emit start (fmt + 1) (m fmt)
       (init_vars\<lparr>flags := fl, width := wid, precision := prec, vmask := msk\<rparr>) args st;
     Some (fmt + 1, args, st)
   }"

partial_function (option) scan_percent :: "mem \<Rightarrow> addr \<Rightarrow> addr option" where
  "scan_percent m fmt = (if m fmt \<noteq> 0 \<and> m fmt \<noteq> 0x25 then scan_percent m (fmt + 1) else Some fmt)"

declare scan_percent.simps [code]

partial_function (option) do_print ::
  "'d emit \<Rightarrow> addr \<Rightarrow> va_arg list \<Rightarrow> mem \<times> 'd \<Rightarrow> (mem \<times> 'd) option" where
  "do_print emit fmt args st =
    (if fst st fmt = 0 then Some st
     else do {
       fmt' \<leftarrow> scan_percent (fst st) fmt;
       let st = emit PRINT_CMD_COPY (Mem fmt) (of_nat (fmt' - fmt)) st;
       if fst st fmt' = 0x25
       then do {
         (fmt, args, st) \<leftarrow> do_conversion emit fmt' args st;
         do_print emit fmt args st
       }
       else do_print emit fmt' args st
     })"

declare do_print.simps [code]

subsection \<open>Emitting to a buffer\<close>

text \<open>The copy loop: \<open>n\<close> bytes are done, \<open>k\<close> are left.\<close>

fun charmem_copy :: "cptr \<Rightarrow> nat \<Rightarrow> nat \<Rightarrow> addr \<Rightarrow> u32 \<Rightarrow> mem \<Rightarrow> nat \<times> mem" where
  "charmem_copy s n 0 p avail m = (n, m)"
| "charmem_copy s n (Suc k) p avail m =
    (if deref m s n \<noteq> 0
     then charmem_copy s (n + 1) k (p + 1) avail (if of_nat n < avail then m(p := deref m s n) else m)
     else (n, m))"

definition charmem :: "snprint_param emit" where
  "charmem cmd s n st =
    (let (m, param) = st; p = dst param + unat (wrtn param); avail = sz param - wrtn param
     in if cmd = PRINT_CMD_COPY
        then let (k, m) = charmem_copy s 0 (unat n) p avail m
             in (m, param\<lparr>wrtn := wrtn param + of_nat k\<rparr>)
        else (memset p (deref m s 0) (if n < avail then unat n else 0) m, param\<lparr>wrtn := wrtn param + n\<rparr>))"

definition vsnprintf :: "addr \<Rightarrow> nat \<Rightarrow> addr \<Rightarrow> va_arg list \<Rightarrow> mem \<Rightarrow> (u32 \<times> mem) option" where
  "vsnprintf dst_arg sz_arg fmt args m =
    (let s = of_nat sz_arg
     in do {
       (m, snparam) \<leftarrow> do_print charmem fmt args (m, \<lparr>dst = dst_arg, sz = s, wrtn = 0\<rparr>);
       Some (wrtn snparam,
         if wrtn snparam < s then m(dst_arg + unat (wrtn snparam) := 0) else m(dst_arg + unat (s - 1) := 0))
     })"

definition snprintf :: "addr \<Rightarrow> nat \<Rightarrow> addr \<Rightarrow> va_arg list \<Rightarrow> mem \<Rightarrow> (u32 \<times> mem) option" where
  "snprintf dest n fmt args m = vsnprintf dest n fmt args m"

subsection \<open>Emitting to the console\<close>

text \<open>The bytes written to the data register of the UART; waiting for the transmitter is not modelled.\<close>

definition put_char :: "u8 \<Rightarrow> u8 list \<Rightarrow> u8 list" where
  "put_char c uart = uart @ [c]"

fun uart_loop :: "mem \<Rightarrow> cptr \<Rightarrow> nat \<Rightarrow> nat \<Rightarrow> u8 list \<Rightarrow> u8 list" where
  "uart_loop m buf i 0 uart = uart"
| "uart_loop m buf i (Suc n) uart =
    uart_loop m buf (i + 1) n
      (put_char (deref m buf i) (if deref m buf i = 0x0a then put_char 0x0d uart else uart))"

definition uart16550_puts :: "mem \<Rightarrow> cptr \<Rightarrow> u32 \<Rightarrow> u8 list \<Rightarrow> nat \<times> u8 list" where
  "uart16550_puts m buf len uart = (if buf = NULL then (0, uart) else (unat len, uart_loop m buf 0 (unat len) uart))"

definition console_write :: "mem \<Rightarrow> cptr \<Rightarrow> u32 \<Rightarrow> u8 list \<Rightarrow> nat \<times> u8 list" where
  "console_write m s len uart = uart16550_puts m s len uart"

definition console_putc :: "mem \<Rightarrow> cptr \<Rightarrow> u8 list \<Rightarrow> u8 list" where
  "console_putc m ch uart = snd (uart16550_puts m ch 1 uart)"

definition charout :: "(u32 \<times> u8 list) emit" where
  "charout cmd s n st =
    (let (m, nchars, uart) = st
     in if cmd = PRINT_CMD_COPY
        then let (len, uart) = (if n > 0 then console_write m s n uart else (0, uart))
             in (m, nchars + of_nat len, uart)
        else (m, nchars + n, (console_putc m s ^^ unat n) uart))"

definition vprintf :: "addr \<Rightarrow> va_arg list \<Rightarrow> mem \<Rightarrow> u8 list \<Rightarrow> u8 list option" where
  "vprintf fmt args m uart = map_option (snd \<circ> snd) (do_print charout fmt args (m, 0, uart))"

subsection \<open>Digits\<close>

text \<open>The digits of a number in a base up to 16, most significant first.\<close>

fun digits_text :: "u8 list \<Rightarrow> nat \<Rightarrow> nat \<Rightarrow> u8 list" where
  "digits_text tab b n =
    (if b < 2 \<or> n < b then [tab ! n] else digits_text tab b (n div b) @ [tab ! (n mod b)])"

declare digits_text.simps [simp del]

lemma digits_text_length:
  "n < b ^ Suc k \<Longrightarrow> 2 \<le> b \<Longrightarrow> length (digits_text tab b n) \<le> Suc k"
proof (induction k arbitrary: n)
  case 0
  thus ?case by (simp add: digits_text.simps)
next
  case (Suc k)
  have "n div b < b ^ Suc k" using Suc.prems by (simp add: less_mult_imp_div_less mult.commute)
  hence "length (digits_text tab b (n div b)) \<le> Suc k" using Suc by blast
  thus ?case by (subst digits_text.simps) simp
qed

lemma digits_text_not_Nil [simp]: "digits_text tab b n \<noteq> []"
  by (subst digits_text.simps) simp

lemma digits_text_set:
  "2 \<le> b \<Longrightarrow> b \<le> length tab \<Longrightarrow> set (digits_text tab b n) \<subseteq> set (take b tab)"
proof (induction tab b n rule: digits_text.induct)
  case (1 tab b n)
  have nth: "tab ! i \<in> set (take b tab)" if "i < b" for i
    using nth_mem [of i "take b tab"] that 1(3) by simp
  show ?case
  proof (cases "n < b")
    case False
    hence "set (digits_text tab b (n div b)) \<subseteq> set (take b tab)" using 1 by simp
    thus ?thesis using nth [of "n mod b"] 1(2) False by (subst digits_text.simps) auto
  qed (use nth [of n] 1(2) in \<open>simp add: digits_text.simps [of _ _ n]\<close>)
qed

definition deci_text :: "nat \<Rightarrow> u8 list" where
  "deci_text n = digits_text lower_hex_digits 10 n"

lemma deci_char: "i < 10 \<Longrightarrow> lower_hex_digits ! i = of_nat i + 0x30"
proof -
  assume "i < 10"
  hence "i \<in> {0,1,2,3,4,5,6,7,8,9}" by auto
  thus ?thesis by (auto simp: lower_hex_digits_def)
qed

lemma deci_text_rec:
  "deci_text n = (if n < 10 then [of_nat n + 0x30] else deci_text (n div 10) @ [of_nat (n mod 10) + 0x30])"
  unfolding deci_text_def by (subst digits_text.simps) (simp add: deci_char)

lemma ucast_digit:
  fixes v :: u32 and w :: u64
  shows "ucast (v mod 10) + 0x30 = (of_nat (unat v mod 10) + 0x30 :: u8)"
    "ucast (w mod 10) + 0x30 = (of_nat (unat w mod 10) + 0x30 :: u8)"
proof -
  have "ucast (v mod 10) = (of_nat (unat (v mod 10)) :: u8)" "ucast (w mod 10) = (of_nat (unat (w mod 10)) :: u8)"
    by (simp_all only: of_nat_unat)
  thus "ucast (v mod 10) + 0x30 = (of_nat (unat v mod 10) + 0x30 :: u8)"
    "ucast (w mod 10) + 0x30 = (of_nat (unat w mod 10) + 0x30 :: u8)" by (simp_all add: unat_mod)
qed

lemma deci_digits32_text:
  "length (deci_text (unat v)) \<le> n \<Longrightarrow> deci_digits32 n v buf = Some (deci_text (unat v) @ buf)"
proof (induction n v buf rule: deci_digits32.induct)
  case (1 v buf)
  thus ?case by (simp add: deci_text_def)
next
  case (2 n v buf)
  note digit = ucast_digit(1) [of v]
  show ?case
  proof (cases "unat v < 10")
    case True
    hence "v div 10 = 0" by (simp add: word_unat_eq_iff unat_div)
    thus ?thesis using True digit by (simp add: deci_text_rec [of "unat v"])
  next
    case False
    hence "v div 10 \<noteq> 0" by (simp add: word_unat_eq_iff unat_div)
    moreover have "length (deci_text (unat (v div 10))) \<le> n"
      using 2 False by (simp add: deci_text_rec [of "unat v"] unat_div)
    ultimately show ?thesis using 2 False digit
      by (simp add: deci_text_rec [of "unat v"] unat_div)
  qed
qed

lemma high_dword: "(ucast (drop_bit 32 v) :: u32) = 0 \<longleftrightarrow> unat (v :: u64) < 2 ^ 32"
proof -
  have "unat (ucast (drop_bit 32 v) :: u32) = unat v div 2 ^ 32"
    using less_mult_imp_div_less [of "unat v" "2 ^ 32" "2 ^ 32"] unsigned_less [of v, where 'a = nat]
    by (simp add: unsigned_ucast_eq drop_bit_eq_div unat_div take_bit_nat_eq_self)
  moreover have "(ucast (drop_bit 32 v) :: u32) = 0 \<longleftrightarrow> unat (ucast (drop_bit 32 v) :: u32) = 0"
    by (simp only: unsigned_eq_0_iff)
  ultimately show ?thesis by (simp add: div_eq_0_iff)
qed

lemma deci_digits64_text:
  "length (deci_text (unat v)) \<le> n \<Longrightarrow> \<exists>k w buf'. deci_digits64 n v buf = Some (k, w, buf') \<and>
    unat w < 2 ^ 32 \<and> deci_text (unat v) @ buf = deci_text (unat w) @ buf' \<and> length (deci_text (unat w)) \<le> k"
proof (induction n arbitrary: v buf)
  case 0
  thus ?case by (simp add: deci_text_def)
next
  case (Suc n)
  show ?case
  proof (cases "unat v < 2 ^ 32")
    case True
    thus ?thesis using Suc.prems by (simp add: high_dword)
  next
    case False
    have rec: "deci_text (unat v) = deci_text (unat (v div 10)) @ [ucast (v mod 10) + 0x30]"
      using False by (subst deci_text_rec) (simp add: unat_div ucast_digit(2))
    hence "length (deci_text (unat (v div 10))) \<le> n" using Suc.prems by simp
    from Suc.IH [OF this, of "(ucast (v mod 10) + 0x30) # buf"] show ?thesis
      using False rec by (simp add: high_dword)
  qed
qed

lemma deci_digits_text:
  "do { (k, n, buf) \<leftarrow> deci_digits64 20 v []; deci_digits32 k (ucast n) buf } = Some (deci_text (unat v))"
proof -
  have "unat v < 10 ^ Suc 19" using unsigned_less [of v, where 'a = nat] by simp
  hence "length (deci_text (unat v)) \<le> 20" unfolding deci_text_def using digits_text_length [of "unat v" 10 19] by simp
  then obtain k w buf where w: "deci_digits64 20 v [] = Some (k, w, buf)" "unat w < 2 ^ 32"
    "deci_text (unat v) = deci_text (unat w) @ buf" "length (deci_text (unat w)) \<le> k"
    using deci_digits64_text [of v 20 "[]"] by auto
  have "unat (ucast w :: u32) = unat w" using w(2) by (simp add: unsigned_ucast_eq take_bit_nat_eq_self)
  thus ?thesis using w deci_digits32_text [of "ucast w :: u32" k buf] by simp
qed

lemma pow2_digits_text:
  "length (digits_text tab 16 (unat v)) \<le> n \<Longrightarrow>
    pow2_digits tab 4 n v buf = Some (digits_text tab 16 (unat v) @ buf)"
proof (induction n arbitrary: v buf)
  case 0
  thus ?case by simp
next
  case (Suc n)
  have "v AND (push_bit 4 1 - 1) = take_bit 4 v" by (simp add: take_bit_eq_mask mask_eq_exp_minus_1)
  hence low: "unat (v AND (push_bit 4 1 - 1)) = unat v mod 16"
    by (simp only: unsigned_take_bit_eq) (simp add: take_bit_eq_mod)
  have high: "unat (drop_bit 4 v) = unat v div 16"
    by (simp add: unsigned_drop_bit_eq drop_bit_eq_div unat_div)
  have zero: "drop_bit 4 v = 0 \<longleftrightarrow> unat v < 16"
    using high by (metis div_eq_0_iff unsigned_eq_0_iff zero_neq_numeral)
  show ?case
  proof (cases "unat v < 16")
    case True
    thus ?thesis using low zero by (simp add: digits_text.simps [of _ _ "unat v"])
  next
    case False
    hence rec: "digits_text tab 16 (unat v) = digits_text tab 16 (unat v div 16) @ [tab ! (unat v mod 16)]"
      by (simp add: digits_text.simps [of _ _ "unat v"])
    hence "length (digits_text tab 16 (unat (drop_bit 4 v))) \<le> n" using Suc.prems high by simp
    from Suc.IH [OF this, of "tab ! (unat v mod 16) # buf"] show ?thesis
      using low zero False high rec by simp
  qed
qed

lemma pow2_digits_22: "pow2_digits tab 4 22 v [] = Some (digits_text tab 16 (unat v))"
proof -
  have "unat v < 16 ^ Suc 15" using unsigned_less [of v, where 'a = nat] by simp
  hence "length (digits_text tab 16 (unat v)) \<le> Suc 15" by (rule digits_text_length) simp
  thus ?thesis using pow2_digits_text [of tab v 22 "[]"] by simp
qed

end
