(* ===== verification/Format_Text.thy ===== *)
theory Format_Text
  imports Sprintf
begin

text \<open>
  What the formatter prints: the text of a format string and its arguments, as a
  function on lists, and the proof that \<open>do_print\<close> emits this text through any
  emitter that meets the contract \<open>text_sink\<close>.  The two emitters of the code
  meet it: \<open>charmem\<close>, which fills a buffer, and \<open>charout\<close>, which drives the
  console.  Printing a number and parsing it back is the identity.
\<close>

subsection \<open>The text of a conversion\<close>

definition number_text :: "u32 \<Rightarrow> nat \<Rightarrow> nat \<Rightarrow> u8 list \<Rightarrow> u8 list \<Rightarrow> u8 list" where
  "number_text fl w p pf ds =
    (let len = length ds + length pf; zeros = replicate (p - len) 0x30; fill = w - (len + (p - len))
     in if has_flag fl PRINT_FLAG_LEFT_JUSTIFY then pf @ zeros @ ds @ replicate fill 0x20
        else if has_flag fl PRINT_FLAG_PAD_ZERO then pf @ replicate fill 0x30 @ zeros @ ds
        else replicate fill 0x20 @ pf @ zeros @ ds)"

definition decimal_text :: "print_vars \<Rightarrow> u64 \<Rightarrow> u8 list" where
  "decimal_text v x =
    (let neg = (\<not> has_flag (flags v) PRINT_FLAG_UINT32 \<and> sint x < 0)
     in number_text (flags v) (unat (width v)) (unat (precision v))
       (if neg then [0x2d] else if has_flag (flags v) PRINT_FLAG_SIGN then [0x2b]
        else if has_flag (flags v) PRINT_FLAG_SPACE then [0x20] else [])
       (deci_text (unat (if neg then - x else x AND vmask v))))"

definition hex_text :: "print_vars \<Rightarrow> u64 \<Rightarrow> u8 list" where
  "hex_text v x =
    (let tab = (if has_flag (flags v) PRINT_FLAG_UPPER then upper_hex_digits else lower_hex_digits);
         n = x AND vmask v
     in number_text (flags v) (unat (width v)) (unat (precision v))
       (if n = 0 \<and> has_flag (flags v) PRINT_FLAG_ALTERNATE_FORM then [0x30, tab ! 16] else [])
       (digits_text tab 16 (unat n)))"

definition string_text :: "print_vars \<Rightarrow> u8 list \<Rightarrow> u8 list" where
  "string_text v xs =
    (let xs = take PRINT_STRING_MAX_LEN xs;
         xs = (if precision v \<noteq> 0 then take (unat (precision v)) xs else xs);
         fill = replicate (unat (width v) - length xs) 0x20
     in if has_flag (flags v) PRINT_FLAG_LEFT_JUSTIFY then xs @ fill else fill @ xs)"

subsection \<open>The text of a format string\<close>

fun fmt_digits :: "u8 list \<Rightarrow> u32 \<Rightarrow> u8 list \<times> u32" where
  "fmt_digits [] x = ([], x)"
| "fmt_digits (c # cs) x = (if is_deci c then fmt_digits cs (x * 10 + ucast (c - 0x30)) else (c # cs, x))"

definition fmt_param :: "u8 list \<Rightarrow> u8 list \<times> u32" where
  "fmt_param xs = (case xs of c # cs \<Rightarrow> fmt_digits (if c = 0x2d then cs else xs) 0 | [] \<Rightarrow> ([], 0))"

fun fmt_flags :: "u8 list \<Rightarrow> u32 \<Rightarrow> u8 list \<times> u32" where
  "fmt_flags [] fl = ([], fl)"
| "fmt_flags (c # cs) fl = (case flag_of c of Some f \<Rightarrow> fmt_flags cs (fl OR f) | None \<Rightarrow> (c # cs, fl))"

definition fmt_modifier :: "u8 list \<Rightarrow> u32 \<Rightarrow> u8 list \<times> u32 \<times> u64" where
  "fmt_modifier xs fl =
    (if prefix [0x68, 0x68] xs then (drop 2 xs, fl OR PRINT_FLAG_CHAR, 0xff)
     else if prefix [0x68] xs then (drop 1 xs, fl OR PRINT_FLAG_SHORT, 0xffff)
     else if prefix [0x6c, 0x6c] xs then (drop 2 xs, fl OR PRINT_FLAG_LONG_LONG, NOT 0)
     else if prefix [0x6c] xs then (drop 1 xs, fl OR PRINT_FLAG_LONG, NOT 0)
     else (xs, fl, NOT 0))"

text \<open>What follows a percent sign: the conversion character, the variables, and the rest of the format.\<close>

definition parse_conv :: "u8 list \<Rightarrow> (u8 \<times> print_vars \<times> u8 list) option" where
  "parse_conv xs =
    (let (xs, fl) = fmt_flags xs 0;
         (xs, wid) = fmt_param xs;
         (xs, prec) = (if prefix [0x2e] xs then fmt_param (tl xs) else (xs, 0));
         (xs, fl, msk) = fmt_modifier xs (adjust_flags fl)
     in case xs of [] \<Rightarrow> None
        | ch # rest \<Rightarrow> Some (ch, init_vars\<lparr>flags := fl, width := wid, precision := prec, vmask := msk\<rparr>, rest))"

text \<open>The text of a conversion; \<open>raw\<close> is its source text without the percent sign.\<close>

definition conv_text :: "mem \<Rightarrow> u8 list \<Rightarrow> u8 \<Rightarrow> print_vars \<Rightarrow> va_arg list \<Rightarrow> (u8 list \<times> va_arg list) option" where
  "conv_text m raw ch v args =
    (if ch = 0x25 then Some ([0x25], args)
     else if ch = 0x64 \<or> ch = 0x69 then map_option (apfst (decimal_text v)) (va_int scast (flags v) args)
     else if ch = 0x75 then
       map_option (apfst (decimal_text (v\<lparr>flags := flags v OR PRINT_FLAG_UINT32\<rparr>)))
         (va_int ucast (flags v OR PRINT_FLAG_UINT32) args)
     else if ch = 0x58 then
       map_option (apfst (hex_text (v\<lparr>flags := flags v OR PRINT_FLAG_UPPER\<rparr>)))
         (va_int ucast (flags v OR PRINT_FLAG_UPPER) args)
     else if ch = 0x78 then map_option (apfst (hex_text v)) (va_int ucast (flags v) args)
     else if ch = 0x73 then
       map_option (apfst (\<lambda>s. string_text v
         (if s = 0 then null_text else bytes m s (strnlen_s m s PRINT_STRING_MAX_LEN)))) (va_argptr args)
     else if ch = 0x63 then
       map_option (apfst (\<lambda>x. string_text v (if (ucast x :: u8) = 0 then [] else [ucast x]))) (va_arg32 args)
     else Some (0x25 # raw, args))"

lemma fmt_digits_suffix: "suffix (fst (fmt_digits xs x)) xs"
  by (induction xs x rule: fmt_digits.induct) (auto simp: suffix_Cons)

lemma fmt_flags_suffix: "suffix (fst (fmt_flags xs fl)) xs"
  by (induction xs fl rule: fmt_flags.induct) (auto simp: suffix_Cons split: option.split)

lemma fmt_param_suffix: "suffix (fst (fmt_param xs)) xs"
  using fmt_digits_suffix by (auto simp: fmt_param_def suffix_Cons split: list.split)

lemma fmt_modifier_suffix: "suffix (fst (fmt_modifier xs fl)) xs"
  by (simp add: fmt_modifier_def suffix_drop)

lemma parse_conv_suffix: "parse_conv xs = Some (ch, v, rest) \<Longrightarrow> suffix (ch # rest) xs"
proof -
  assume p: "parse_conv xs = Some (ch, v, rest)"
  obtain xs1 fl where 1: "fmt_flags xs 0 = (xs1, fl)" by fastforce
  obtain xs2 wid where 2: "fmt_param xs1 = (xs2, wid)" by fastforce
  obtain xs3 prec where 3: "(if prefix [0x2e] xs2 then fmt_param (tl xs2) else (xs2, 0)) = (xs3, prec)" by fastforce
  obtain xs4 fl' msk where 4: "fmt_modifier xs3 (adjust_flags fl) = (xs4, fl', msk)" by (metis surj_pair)
  have "xs4 = ch # rest" using p 1 2 3 4 by (auto simp: parse_conv_def split: list.splits)
  moreover have "suffix xs4 xs3" using fmt_modifier_suffix [of xs3 "adjust_flags fl"] 4 by simp
  moreover have "suffix xs3 xs2"
    using 3 suffix_order.trans [OF fmt_param_suffix [of "tl xs2"] suffix_tl [of xs2]] by (auto split: if_splits)
  moreover have "suffix xs2 xs1" "suffix xs1 xs"
    using fmt_param_suffix [of xs1] fmt_flags_suffix [of xs 0] 1 2 by simp_all
  ultimately show ?thesis using suffix_order.trans by metis
qed

function format_text :: "mem \<Rightarrow> u8 list \<Rightarrow> va_arg list \<Rightarrow> u8 list option" where
  "format_text m [] args = Some []"
| "format_text m (c # cs) args =
    (if c \<noteq> 0x25 then map_option (Cons c) (format_text m cs args)
     else case parse_conv cs of
       None \<Rightarrow> None
     | Some (ch, v, rest) \<Rightarrow>
        (case conv_text m (take (length cs - length rest) cs) ch v args of
           None \<Rightarrow> None
         | Some (t, args) \<Rightarrow> map_option ((@) t) (format_text m rest args)))"
  by pat_completeness auto
termination
proof (relation "measure (\<lambda>(m, xs, args). length xs)")
  fix m c cs args x ch y v rest
  assume "parse_conv cs = Some x" "(ch, y) = x" "(v, rest) = y"
  thus "((m, rest, args'), (m, c # cs, args)) \<in> measure (\<lambda>(m, xs, args). length xs)" for args'
    using parse_conv_suffix [of cs ch v rest] suffix_length_le by fastforce
qed auto

text \<open>The parsers read these lists from memory.\<close>

lemma cstring_suffix:
  "cstring m s xs \<Longrightarrow> suffix r xs \<Longrightarrow> cstring m (s + length xs - length r) r"
  by (auto simp: suffix_def cstring_append)

lemma cstring_hd: "cstring m s xs \<Longrightarrow> m s = hd (xs @ [0])"
  by (cases xs) auto

lemma get_param_loop_text:
  "cstring m s xs \<Longrightarrow> get_param_loop m s x = Some (s + length xs - length (fst (fmt_digits xs x)), snd (fmt_digits xs x))"
proof (induction xs x arbitrary: s rule: fmt_digits.induct)
  case (1 x)
  thus ?case by (subst get_param_loop.simps) simp
next
  case (2 c cs x)
  thus ?case by (subst get_param_loop.simps) (auto simp: is_deci_def)
qed

lemma get_param_text:
  "cstring m s xs \<Longrightarrow> get_param m s = Some (s + length xs - length (fst (fmt_param xs)), snd (fmt_param xs))"
  using get_param_loop_text [of m s xs 0] get_param_loop_text [of m "s + 1" "tl xs" 0]
  by (cases xs) (auto simp: get_param_def fmt_param_def)

lemma get_flags_loop_text:
  "cstring m s xs \<Longrightarrow> get_flags_loop m s fl = Some (s + length xs - length (fst (fmt_flags xs fl)), snd (fmt_flags xs fl))"
proof (induction xs fl arbitrary: s rule: fmt_flags.induct)
  case (1 fl)
  thus ?case by (subst get_flags_loop.simps) simp
next
  case (2 c cs fl)
  thus ?case by (subst get_flags_loop.simps) (auto split: option.split)
qed

lemma get_length_modifier_text:
  assumes "cstring m s xs" and "fmt_modifier xs fl = (r, fl', msk)"
  shows "get_length_modifier m s fl (NOT 0) = (s + length xs - length r, fl', msk)"
proof (cases xs)
  case Nil
  thus ?thesis using assms by (auto simp: get_length_modifier_def fmt_modifier_def)
next
  case (Cons c cs)
  have "m (s + 1) = hd (cs @ [0])" using assms(1) Cons cstring_hd [of m "s + 1" cs] by simp
  thus ?thesis using assms Cons
    by (cases cs) (auto simp: get_length_modifier_def fmt_modifier_def split: if_splits)
qed

text \<open>The parsing half of \<open>do_conversion\<close>.\<close>

lemma do_conversion_parse:
  assumes c: "cstring (fst st) (start + 1) cs" and p: "parse_conv cs = Some (ch, v, rest)"
  shows "do_conversion emit start args st = do {
    let fmt = start + 1 + length cs - length rest;
    (args, st) \<leftarrow> print_conversion emit start fmt ch v args st; Some (fmt, args, st) }"
proof -
  let ?m = "fst st" and ?e = "start + 1 + length cs"
  obtain xs1 fl where 1: "fmt_flags cs 0 = (xs1, fl)" by fastforce
  obtain xs2 wid where 2: "fmt_param xs1 = (xs2, wid)" by fastforce
  obtain xs3 prec where 3: "(if prefix [0x2e] xs2 then fmt_param (tl xs2) else (xs2, 0)) = (xs3, prec)" by fastforce
  obtain xs4 fl' msk where 4: "fmt_modifier xs3 (adjust_flags fl) = (xs4, fl', msk)" by (metis surj_pair)
  have xs4: "xs4 = ch # rest" and v: "v = init_vars\<lparr>flags := fl', width := wid, precision := prec, vmask := msk\<rparr>"
    using p 1 2 3 4 by (auto simp: parse_conv_def split: list.splits)
  have s1: "suffix xs1 cs" using fmt_flags_suffix [of cs 0] 1 by simp
  have s2: "suffix xs2 cs" using suffix_order.trans [OF fmt_param_suffix [of xs1] s1] 2 by simp
  have s3: "suffix xs3 cs"
    using 3 suffix_order.trans [OF suffix_order.trans [OF fmt_param_suffix [of "tl xs2"] suffix_tl [of xs2]] s2] s2
    by (auto split: if_splits)
  have s4: "suffix xs4 cs" using suffix_order.trans [OF fmt_modifier_suffix [of xs3 "adjust_flags fl"] s3] 4 by simp
  note at = cstring_suffix [OF c]
  have pos: "?e - length xs + length xs = ?e" if "suffix xs cs" for xs using suffix_length_le [OF that] by simp
  have g1: "get_flags ?m (start + 1) 0 = Some (?e - length xs1, adjust_flags fl)"
    using get_flags_loop_text [OF c, of 0] 1 by (simp add: get_flags_def)
  have g2: "get_param ?m (?e - length xs1) = Some (?e - length xs2, wid)"
    using get_param_text [OF at [OF s1]] 2 pos [OF s1] by simp
  have g3: "(if ?m (?e - length xs2) = 0x2e then get_param ?m (?e - length xs2 + 1) else Some (?e - length xs2, 0))
      = Some (?e - length xs3, prec)"
  proof (cases "prefix [0x2e] xs2")
    case True
    then obtain ys where ys: "xs2 = 0x2e # ys" by (auto simp: prefix_def)
    have "suffix ys cs" using s2 ys by (meson suffix_ConsD)
    hence "get_param ?m (?e - length ys) = Some (?e - length xs3, prec)"
      using get_param_text [OF at] 3 True ys pos [of ys] by simp
    moreover have "?e - length xs2 + 1 = ?e - length ys" using pos [OF s2] ys by simp
    ultimately show ?thesis using at [OF s2] ys by simp
  next
    case False
    thus ?thesis using 3 cstring_hd [OF at [OF s2]] by (cases xs2) auto
  qed
  have g4: "get_length_modifier ?m (?e - length xs3) (adjust_flags fl) (NOT 0) = (?e - length xs4, fl', msk)"
    using get_length_modifier_text [OF at [OF s3] 4] pos [OF s3] by simp
  have "?m (?e - length xs4) = ch" "?e - length xs4 + 1 = ?e - length rest"
    using at [OF s4] pos [OF s4] xs4 by auto
  thus ?thesis unfolding do_conversion_def Let_def g1 bind.bind_lunit case_prod_conv g2 g3 g4 v by simp
qed

subsection \<open>The contract of an emitter\<close>

text \<open>The pointer \<open>s\<close> points to the bytes \<open>xs\<close>, none of them zero and none in \<open>D\<close>.\<close>

fun source :: "mem \<Rightarrow> addr set \<Rightarrow> cptr \<Rightarrow> u8 list \<Rightarrow> bool" where
  "source m D (Mem a) xs \<longleftrightarrow> 0 \<notin> set xs \<and> (xs \<noteq> [] \<longrightarrow> a \<noteq> 0) \<and> bytes m a (length xs) = xs \<and> (\<forall>i < length xs. a + i \<notin> D)"
| "source m D (Local ys) xs \<longleftrightarrow> 0 \<notin> set xs \<and> prefix xs ys"

lemma source_Nil [simp]: "source m D s []"
  by (cases s) auto

text \<open>String arguments are strings, or null, and lie outside \<open>D\<close>.\<close>

definition args_ok :: "mem \<Rightarrow> addr set \<Rightarrow> va_arg list \<Rightarrow> bool" where
  "args_ok m D args \<longleftrightarrow> (\<forall>a. VAPtr a \<in> set args \<longrightarrow> a \<noteq> 0 \<longrightarrow>
    (\<exists>xs. cstring m a xs \<and> (\<forall>i \<le> length xs. a + i \<notin> D)))"

lemma ptr_strnlen_Local:
  assumes "0 \<notin> set xs" and "ys = [] \<or> hd ys = 0"
  shows "ptr_strnlen m (Local (xs @ ys)) n = min (length xs) n"
proof -
  have "bytes (\<lambda>i. deref m (Local (xs @ ys)) (i - 1)) 1 (length xs) = xs"
    by (rule nth_equalityI) (auto simp: nth_append)
  hence "cstring (\<lambda>i. deref m (Local (xs @ ys)) (i - 1)) 1 xs"
    using assms by (cases ys) (auto simp: cstring_iff)
  thus ?thesis by (simp add: strnlen_s_cstring)
qed

lemma cstring_outside:
  assumes "cstring m p xs" and "\<And>i. i \<le> length xs \<Longrightarrow> m' (p + i) = m (p + i)"
  shows "cstring m' p xs"
proof -
  have "bytes m' p (length xs) = bytes m p (length xs)" using assms(2) by (auto intro: bytes_eqI)
  thus ?thesis using assms by (simp add: cstring_iff)
qed

lemma scan_percent_text:
  "cstring m s xs \<Longrightarrow> scan_percent m s = Some (s + length (takeWhile (\<lambda>c. c \<noteq> 0x25) xs))"
proof (induction xs arbitrary: s)
  case (Cons x xs)
  thus ?case by (subst scan_percent.simps) auto
qed (simp add: scan_percent.simps)

lemma format_text_literal:
  "0x25 \<notin> set lit \<Longrightarrow> format_text m (lit @ xs) args = map_option ((@) lit) (format_text m xs args)"
proof (induction lit)
  case (Cons c lit)
  thus ?case by (cases "format_text m xs args") auto
qed (cases "format_text m xs args"; simp)

lemma conv_text_args: "conv_text m raw ch v args = Some (t, args') \<Longrightarrow> set args' \<subseteq> set args"
  by (auto simp: conv_text_def va_int_def split: if_splits elim!: va_arg32.elims va_arg64.elims va_argptr.elims)

lemma parse_conv_vars: "parse_conv xs = Some (ch, v, rest) \<Longrightarrow> prefx v = NULL \<and> prefixlen v = 0"
  by (auto simp: parse_conv_def init_vars_def split: prod.splits list.splits)

lemma raw_source:
  assumes "cstring m fmt fs" "\<forall>i \<le> length fs. fmt + i \<notin> D" and fs: "fs = lit @ 0x25 # cs"
    and raw: "raw = take (length cs - length r) cs" and "length r \<le> length cs" and "fmt \<noteq> 0"
  shows "source m D (Mem (fmt + length lit)) (0x25 # raw)" "fmt + length fs - length r = fmt + length lit + 1 + length raw"
proof -
  have "cstring m (fmt + length lit) (0x25 # cs)" using assms(1) by (simp only: fs cstring_append)
  moreover have "0x25 # cs = (0x25 # raw) @ drop (length cs - length r) cs" by (simp add: raw)
  ultimately have "0 \<notin> set (0x25 # raw)" "bytes m (fmt + length lit) (length (0x25 # raw)) = 0x25 # raw"
    by (metis cstring_append)+
  moreover have "fmt + length lit + i \<notin> D" if "i < length (0x25 # raw)" for i
    using assms(2) [rule_format, of "length lit + i"] that raw by (simp add: fs add.assoc)
  ultimately show "source m D (Mem (fmt + length lit)) (0x25 # raw)" using \<open>fmt \<noteq> 0\<close> by simp
  show "fmt + length fs - length r = fmt + length lit + 1 + length raw" using assms(5) by (simp add: fs raw)
qed

lemma source_take: "source m D s xs \<Longrightarrow> source m D s (take n xs)"
proof (cases s)
  case (Mem a)
  moreover assume "source m D s xs"
  moreover from calculation have "bytes m a (length (take n xs)) = take n xs"
    using bytes_window [of 0 "length (take n xs)" "length xs" m a]
    by (cases "n \<le> length xs") (simp_all add: min_def)
  ultimately show ?thesis by (auto dest: in_set_takeD)
next
  case (Local ys)
  moreover assume "source m D s xs"
  ultimately show ?thesis using prefix_order.trans [OF take_is_prefix] by (auto dest: in_set_takeD)
qed

text \<open>The counts of padding that \<open>format_number\<close> computes.\<close>

definition number_zeros :: "print_vars \<Rightarrow> u32" where
  "number_zeros v =
    (let wid = valuelen v + prefixlen v in if precision v > wid then precision v - wid else 0)"

definition number_fill :: "print_vars \<Rightarrow> u32" where
  "number_fill v =
    (let wid = valuelen v + prefixlen v + number_zeros v in if width v > wid then width v - wid else 0)"

lemma format_number_eq:
  "snd (format_number emit v st) =
    (if has_flag (flags v) PRINT_FLAG_LEFT_JUSTIFY
     then emit PRINT_CMD_FILL (Local [0x20]) (number_fill v) (emit PRINT_CMD_COPY (val v) (valuelen v)
       (emit PRINT_CMD_FILL (Local [0x30]) (number_zeros v) (emit PRINT_CMD_COPY (prefx v) (prefixlen v) st)))
     else if has_flag (flags v) PRINT_FLAG_PAD_ZERO
     then emit PRINT_CMD_COPY (val v) (valuelen v) (emit PRINT_CMD_FILL (Local [0x30]) (number_zeros v)
       (emit PRINT_CMD_COPY NULL 0 (emit PRINT_CMD_FILL (Local [0x30]) (number_fill v)
       (emit PRINT_CMD_COPY (prefx v) (prefixlen v) st))))
     else emit PRINT_CMD_COPY (val v) (valuelen v) (emit PRINT_CMD_FILL (Local [0x30]) (number_zeros v)
       (emit PRINT_CMD_COPY (prefx v) (prefixlen v) (emit PRINT_CMD_FILL (Local [0x20]) (number_fill v) st))))"
  unfolding format_number_def number_zeros_def number_fill_def Let_def by simp

lemma number_widths:
  assumes "valuelen v = of_nat (length ds)" "length ds < 2 ^ 31" "prefixlen v = of_nat (length pf)" "length pf < 2 ^ 31"
  shows "unat (number_zeros v) = unat (precision v) - (length ds + length pf)"
    "unat (number_fill v) = unat (width v) -
      (length ds + length pf + (unat (precision v) - (length ds + length pf)))"
proof -
  define wid where "wid = valuelen v + prefixlen v"
  define len where "len = length ds + length pf"
  have "wid = of_nat len" using assms by (simp add: wid_def len_def)
  moreover have "len < 2 ^ 32" using assms by (simp add: len_def)
  ultimately have wid: "unat wid = len" by (simp add: unsigned_of_nat take_bit_nat_eq_self)
  hence z: "unat (number_zeros v) = unat (precision v) - len"
    by (auto simp: number_zeros_def unat_sub_le word_less_nat_alt word_le_nat_alt simp flip: wid_def)
  have "len + unat (number_zeros v) < 2 ^ 32"
    using \<open>len < 2 ^ 32\<close> unsigned_less [of "precision v", where 'a = nat] z by auto
  hence "unat (wid + number_zeros v) = len + unat (number_zeros v)" using wid by (simp add: unat_add_no_wrap)
  hence f: "unat (number_fill v) = unat (width v) - (len + (unat (precision v) - len))"
    using z by (auto simp: number_fill_def Let_def unat_sub_le word_less_nat_alt word_le_nat_alt simp flip: wid_def)
  show "unat (number_zeros v) = unat (precision v) - (length ds + length pf)"
    "unat (number_fill v) = unat (width v) -
      (length ds + length pf + (unat (precision v) - (length ds + length pf)))"
    using z f by (simp_all add: len_def)
qed

lemma digits_text_source:
  assumes "tab \<in> {upper_hex_digits, lower_hex_digits}" "2 \<le> b" "b \<le> 16" "n < 2 ^ 64"
  shows "source m D (Local (digits_text tab b n)) (digits_text tab b n)" "length (digits_text tab b n) < 2 ^ 31"
proof -
  have "set (digits_text tab b n) \<subseteq> set (take b tab)"
    using assms by (intro digits_text_set) (auto simp: upper_hex_digits_def lower_hex_digits_def)
  moreover have "0 \<notin> set tab" using assms(1) by (auto simp: upper_hex_digits_def lower_hex_digits_def)
  ultimately show "source m D (Local (digits_text tab b n)) (digits_text tab b n)"
    using set_take_subset [of b tab] by auto
  have "(2::nat) ^ Suc 63 \<le> b ^ Suc 63" using assms(2) by (rule power_mono) simp
  hence "length (digits_text tab b n) \<le> Suc 63" using assms by (intro digits_text_length) simp_all
  thus "length (digits_text tab b n) < 2 ^ 31" by simp
qed

lemma deci_text_source:
  "source m D (Local (deci_text (unat (x :: u64)))) (deci_text (unat x))" "length (deci_text (unat x)) < 2 ^ 31"
  unfolding deci_text_def using digits_text_source [of lower_hex_digits 10 "unat x"] unsigned_less [of x, where 'a = nat]
  by simp_all

text \<open>
  \<open>holds m out st\<close>: \<open>st\<close> is a state in which the text \<open>out\<close> has been emitted, from
  the memory \<open>m\<close>.  The emitter writes to memory in \<open>D\<close> only; \<open>room out\<close>: it can
  take the text \<open>out\<close>.
\<close>

locale text_sink =
  fixes emit :: "'d emit" and holds :: "mem \<Rightarrow> u8 list \<Rightarrow> mem \<times> 'd \<Rightarrow> bool"
    and room :: "u8 list \<Rightarrow> bool" and D :: "addr set"
  assumes copy: "holds m out st \<Longrightarrow> room (out @ xs) \<Longrightarrow> source m D s xs \<Longrightarrow> length xs < 2 ^ 32 \<Longrightarrow>
      holds m (out @ xs) (emit PRINT_CMD_COPY s (of_nat (length xs)) st)"
    and fill: "holds m out st \<Longrightarrow> room (out @ replicate (unat n) c) \<Longrightarrow>
      holds m (out @ replicate (unat n) c) (emit PRINT_CMD_FILL (Local [c]) n st)"
    and frame: "holds m out st \<Longrightarrow> a \<notin> D \<Longrightarrow> fst st a = m a"
    and room_prefix: "room (xs @ ys) \<Longrightarrow> room xs"
begin

lemma room_shorter: "room (xs @ ys @ zs) \<Longrightarrow> room (xs @ ys)"
  using room_prefix [of "xs @ ys" zs] by simp

lemma copy_step:
  assumes "holds m out st" "room (out @ xs @ ys)" "source m D s xs" "n = of_nat (length xs)" "length xs < 2 ^ 32"
  shows "holds m (out @ xs) (emit PRINT_CMD_COPY s n st)" "room ((out @ xs) @ ys)"
  using assms copy [of m out st xs s] room_shorter [of out xs ys] by auto

lemma fill_step:
  assumes "holds m out st" "room (out @ replicate k c @ ys)" "k = unat n"
  shows "holds m (out @ replicate k c) (emit PRINT_CMD_FILL (Local [c]) n st)" "room ((out @ replicate k c) @ ys)"
  using assms fill [of m out st n c] room_shorter [of out _ ys] by auto

lemma format_number_text:
  assumes h: "holds m out st" and r: "room (out @ number_text (flags v) (unat (width v)) (unat (precision v)) pf ds)"
    and ds: "source m D (val v) ds" "valuelen v = of_nat (length ds)" "length ds < 2 ^ 31"
    and pf: "source m D (prefx v) pf" "prefixlen v = of_nat (length pf)" "length pf < 2 ^ 31"
  shows "holds m (out @ number_text (flags v) (unat (width v)) (unat (precision v)) pf ds) (snd (format_number emit v st))"
proof -
  define len where "len = length ds + length pf"
  define p where "p = number_zeros v"
  define w where "w = number_fill v"
  note wp = number_widths [OF ds(2,3) pf(2,3), folded len_def p_def w_def]
  have small: "length ds < 2 ^ 32" "length pf < 2 ^ 32" using ds(3) pf(3) by simp_all
  consider (left) "has_flag (flags v) PRINT_FLAG_LEFT_JUSTIFY"
    | (zero) "\<not> has_flag (flags v) PRINT_FLAG_LEFT_JUSTIFY" "has_flag (flags v) PRINT_FLAG_PAD_ZERO"
    | (blank) "\<not> has_flag (flags v) PRINT_FLAG_LEFT_JUSTIFY" "\<not> has_flag (flags v) PRINT_FLAG_PAD_ZERO"
    by blast
  thus ?thesis
  proof cases
    case left
    have t: "number_text (flags v) (unat (width v)) (unat (precision v)) pf ds
        = pf @ replicate (unat p) 0x30 @ ds @ replicate (unat w) 0x20 @ []"
      using left wp by (simp add: number_text_def flip: len_def)
    note 1 = copy_step [OF h r [unfolded t] pf(1,2) small(2)]
    note 2 = fill_step [OF 1 refl]
    note 3 = copy_step [OF 2 ds(1,2) small(1)]
    note 4 = fill_step [OF 3 refl]
    show ?thesis using 4(1) left unfolding t by (simp add: format_number_eq p_def w_def)
  next
    case zero
    have t: "number_text (flags v) (unat (width v)) (unat (precision v)) pf ds
        = pf @ replicate (unat w) 0x30 @ [] @ replicate (unat p) 0x30 @ ds @ []"
      using zero wp by (simp add: number_text_def flip: len_def)
    note 1 = copy_step [OF h r [unfolded t] pf(1,2) small(2)]
    note 2 = fill_step [OF 1 refl]
    have "0 = of_nat (length ([] :: u8 list))" "length ([] :: u8 list) < 2 ^ 32" by simp_all
    note 3 = copy_step [OF 2 source_Nil [of m D NULL] this]
    note 4 = fill_step [OF 3 refl]
    note 5 = copy_step [OF 4 ds(1,2) small(1)]
    show ?thesis using 5(1) zero unfolding t by (simp add: format_number_eq p_def w_def)
  next
    case blank
    have t: "number_text (flags v) (unat (width v)) (unat (precision v)) pf ds
        = replicate (unat w) 0x20 @ pf @ replicate (unat p) 0x30 @ ds @ []"
      using blank wp by (simp add: number_text_def flip: len_def)
    note 1 = fill_step [OF h r [unfolded t] refl]
    note 2 = copy_step [OF 1 pf(1,2) small(2)]
    note 3 = fill_step [OF 2 refl]
    note 4 = copy_step [OF 3 ds(1,2) small(1)]
    show ?thesis using 4(1) blank unfolding t by (simp add: format_number_eq p_def w_def)
  qed
qed

lemma print_decimal_text:
  assumes h: "holds m out st" and r: "room (out @ decimal_text v x)" and v: "prefx v = NULL" "prefixlen v = 0"
  shows "\<exists>st'. print_decimal emit v x st = Some st' \<and> holds m (out @ decimal_text v x) st'"
proof -
  define neg where "neg = (\<not> has_flag (flags v) PRINT_FLAG_UINT32 \<and> sint x < 0)"
  define n where "n = (if neg then - x else x AND vmask v)"
  define pf :: "u8 list" where "pf = (if neg then [0x2d] else if has_flag (flags v) PRINT_FLAG_SIGN then [0x2b]
    else if has_flag (flags v) PRINT_FLAG_SPACE then [0x20] else [])"
  define v' where "v' = (if pf = [] then v else v\<lparr>prefx := Local pf, prefixlen := 1\<rparr>)
    \<lparr>val := Local (deci_text (unat n)), valuelen := of_nat (length (deci_text (unat n)))\<rparr>"
  have pf: "source m D (prefx v') pf" "prefixlen v' = of_nat (length pf)" "length pf < 2 ^ 31"
    using v by (auto simp: v'_def pf_def)
  have ds: "source m D (val v') (deci_text (unat n))" "length (deci_text (unat n)) < 2 ^ 31"
    using deci_text_source by (auto simp: v'_def)
  have t: "decimal_text v x = number_text (flags v') (unat (width v')) (unat (precision v')) pf (deci_text (unat n))"
    by (simp add: decimal_text_def v'_def pf_def neg_def n_def Let_def)
  obtain k w buf where "deci_digits64 20 n [] = Some (k, w, buf)" "deci_digits32 k (ucast w) buf = Some (deci_text (unat n))"
    using deci_digits_text [of n] by (auto split: Option.bind_splits)
  moreover have nv: "(if \<not> has_flag (flags v) PRINT_FLAG_UINT32 \<and> sint x < 0
      then (- x, v\<lparr>prefx := Local [0x2d], prefixlen := 1\<rparr>) else (x AND vmask v, v))
    = (n, if neg then v\<lparr>prefx := Local [0x2d], prefixlen := 1\<rparr> else v)"
    by (simp add: n_def neg_def)
  ultimately have "print_decimal emit v x st = Some (snd (format_number emit v' st))"
    using v unfolding print_decimal_def nv by (simp add: v'_def pf_def)
  thus ?thesis using format_number_text [OF h r [unfolded t] ds(1) _ ds(2) pf] unfolding t
    by (simp add: v'_def)
qed

lemma print_pow2_text:
  assumes h: "holds m out st" and r: "room (out @ hex_text v x)" and v: "prefx v = NULL" "prefixlen v = 0"
  shows "\<exists>st'. print_pow2 emit v x 4 st = Some st' \<and> holds m (out @ hex_text v x) st'"
proof -
  define tab where "tab = (if has_flag (flags v) PRINT_FLAG_UPPER then upper_hex_digits else lower_hex_digits)"
  define n where "n = x AND vmask v"
  define pf where "pf = (if n = 0 \<and> has_flag (flags v) PRINT_FLAG_ALTERNATE_FORM then [0x30, tab ! 16] else [])"
  define v' where "v' = (if pf = [] then v else v\<lparr>prefx := Local pf, prefixlen := 2\<rparr>)
    \<lparr>val := Local (digits_text tab 16 (unat n)), valuelen := of_nat (length (digits_text tab 16 (unat n)))\<rparr>"
  have "tab ! 16 \<noteq> 0" by (simp add: tab_def upper_hex_digits_def lower_hex_digits_def)
  hence pf: "source m D (prefx v') pf" "prefixlen v' = of_nat (length pf)" "length pf < 2 ^ 31"
    using v by (auto simp: v'_def pf_def)
  have "unat n < 2 ^ 64" using unsigned_less [of n, where 'a = nat] by simp
  hence ds: "source m D (val v') (digits_text tab 16 (unat n))" "length (digits_text tab 16 (unat n)) < 2 ^ 31"
    using digits_text_source [of tab 16 "unat n"] by (auto simp: v'_def tab_def)
  have t: "hex_text v x = number_text (flags v') (unat (width v')) (unat (precision v')) pf (digits_text tab 16 (unat n))"
    by (simp add: hex_text_def v'_def pf_def tab_def n_def Let_def)
  have "print_pow2 emit v x 4 st = Some (snd (format_number emit v' st))"
    unfolding print_pow2_def using pow2_digits_22 [of tab n]
    by (simp add: v'_def pf_def flip: tab_def n_def)
  thus ?thesis using format_number_text [OF h r [unfolded t] ds(1) _ ds(2) pf] unfolding t
    by (simp add: v'_def)
qed

lemma print_string_text:
  assumes h: "holds m out st" and r: "room (out @ string_text v xs)" and s: "source m D s xs"
    and len: "ptr_strnlen (fst st) s PRINT_STRING_MAX_LEN = min (length xs) PRINT_STRING_MAX_LEN"
  shows "holds m (out @ string_text v xs) (print_string emit v s st)"
proof -
  define ys where "ys = (if precision v \<noteq> 0 then take (unat (precision v)) (take PRINT_STRING_MAX_LEN xs)
    else take PRINT_STRING_MAX_LEN xs)"
  define k :: u32 where "k = of_nat (ptr_strnlen (fst st) s PRINT_STRING_MAX_LEN)"
  define l where "l = (if precision v \<noteq> 0 \<and> k > precision v then precision v else k)"
  have k: "unat k = min (length xs) PRINT_STRING_MAX_LEN"
    unfolding k_def len by (simp add: unsigned_of_nat take_bit_nat_eq_self PRINT_STRING_MAX_LEN_def)
  have l: "unat l = length ys" using k by (auto simp: l_def ys_def word_less_nat_alt)
  define w where "w = (if width v > 0 \<and> width v > l then width v - l else 0)"
  have w: "unat w = unat (width v) - length ys"
    using l by (auto simp: w_def unat_sub_le word_less_nat_alt word_le_nat_alt)
  have l': "l = of_nat (length ys)" using l by (metis of_nat_unat ucast_id)
  have "length ys \<le> PRINT_STRING_MAX_LEN" by (simp add: ys_def min_def)
  hence ly: "length ys < 2 ^ 32" by (simp add: PRINT_STRING_MAX_LEN_def)
  have sy: "source m D s ys" unfolding ys_def using s source_take by auto
  have eq: "print_string emit v s st = (if has_flag (flags v) PRINT_FLAG_LEFT_JUSTIFY
      then emit PRINT_CMD_FILL (Local [0x20]) w (emit PRINT_CMD_COPY s l st)
      else emit PRINT_CMD_COPY s l (emit PRINT_CMD_FILL (Local [0x20]) w st))"
    unfolding print_string_def Let_def k_def [symmetric] l_def [symmetric] w_def [symmetric] by simp
  show ?thesis
  proof (cases "has_flag (flags v) PRINT_FLAG_LEFT_JUSTIFY")
    case True
    hence t: "string_text v xs = ys @ replicate (unat w) 0x20 @ []"
      by (simp add: string_text_def ys_def w Let_def)
    note 1 = copy_step [OF h r [unfolded t] sy l' ly]
    note 2 = fill_step [OF 1 refl]
    show ?thesis using 2(1) True unfolding t eq by simp
  next
    case False
    hence t: "string_text v xs = replicate (unat w) 0x20 @ ys @ []"
      by (simp add: string_text_def ys_def w Let_def)
    note 1 = fill_step [OF h r [unfolded t] refl]
    note 2 = copy_step [OF 1 sy l' ly]
    show ?thesis using 2(1) False unfolding t eq by simp
  qed
qed

lemma print_string_mem:
  assumes h: "holds m out st" and r: "room (out @ string_text v (bytes m a (strnlen_s m a PRINT_STRING_MAX_LEN)))"
    and a: "a \<noteq> 0" "cstring m a xs" "\<forall>i \<le> length xs. a + i \<notin> D"
  shows "holds m (out @ string_text v (bytes m a (strnlen_s m a PRINT_STRING_MAX_LEN))) (print_string emit v (Mem a) st)"
proof -
  have "bytes (fst st) a (length xs) = bytes m a (length xs)" "fst st (a + length xs) = m (a + length xs)"
    using frame [OF h] a(3) by (auto intro: bytes_eqI)
  hence "cstring (fst st) a xs" using a(2) by (simp add: cstring_iff)
  hence len: "ptr_strnlen (fst st) (Mem a) PRINT_STRING_MAX_LEN = min (length xs) PRINT_STRING_MAX_LEN"
    using a(1) by (simp add: strnlen_s_cstring)
  have "source m D (Mem a) xs" using a by (simp add: cstring_iff)
  moreover have "string_text v (bytes m a (strnlen_s m a PRINT_STRING_MAX_LEN)) = string_text v xs"
  proof -
    have "bytes m a (strnlen_s m a PRINT_STRING_MAX_LEN) = take PRINT_STRING_MAX_LEN xs"
      using a bytes_window [of 0 "min (length xs) PRINT_STRING_MAX_LEN" "length xs" m a]
      by (simp add: strnlen_s_cstring cstring_iff min_def split: if_splits)
    thus ?thesis by (simp add: string_text_def)
  qed
  ultimately show ?thesis using print_string_text [OF h _ _ len] r by simp
qed

lemma print_conversion_text:
  assumes h: "holds m out st" and t: "conv_text m raw ch v args = Some (t, args')" and r: "room (out @ t)"
    and v: "prefx v = NULL" "prefixlen v = 0" and args: "args_ok m D args"
    and raw: "source m D (Mem start) (0x25 # raw)" "fmt = start + 1 + length raw" "length raw < 2 ^ 31"
  shows "\<exists>st'. print_conversion emit start fmt ch v args st = Some (args', st') \<and> holds m (out @ t) st'"
proof -
  have local: "holds m (out @ t) (print_string emit v (Local (xs @ ys)) st)"
    if "t = string_text v xs" "0 \<notin> set xs" "ys = [] \<or> hd ys = 0" for xs ys
    using print_string_text [OF h _ _ ptr_strnlen_Local [OF that(2,3)]] that r by simp
  have dec: "\<exists>st'. print_decimal emit (v\<lparr>flags := f\<rparr>) x st = Some st' \<and> holds m (out @ t) st'"
    if "t = decimal_text (v\<lparr>flags := f\<rparr>) x" for f x
    using print_decimal_text [OF h, of "v\<lparr>flags := f\<rparr>" x] that r v by simp
  have hex: "\<exists>st'. print_pow2 emit (v\<lparr>flags := f\<rparr>) x 4 st = Some st' \<and> holds m (out @ t) st'"
    if "t = hex_text (v\<lparr>flags := f\<rparr>) x" for f x
    using print_pow2_text [OF h, of "v\<lparr>flags := f\<rparr>" x] that r v by simp
  have self: "v\<lparr>flags := flags v\<rparr> = v" by simp
  consider "ch = 0x25" | "ch = 0x64 \<or> ch = 0x69" | "ch = 0x75" | "ch = 0x58" | "ch = 0x78" | "ch = 0x73" | "ch = 0x63"
    | "ch \<notin> {0x25, 0x64, 0x69, 0x75, 0x58, 0x78, 0x73, 0x63}" by blast
  thus ?thesis
  proof cases
    case 1
    thus ?thesis using t copy [OF h, of "[0x25]" "Local [0x25]"] r by (auto simp: print_conversion_def conv_text_def)
  next
    case 2
    then obtain x where "va_int scast (flags v) args = Some (x, args')" "t = decimal_text v x"
      using t by (auto simp: conv_text_def)
    thus ?thesis using 2 dec [of "flags v" x] self by (auto simp: print_conversion_def)
  next
    case 3
    then obtain x where "va_int ucast (flags v OR PRINT_FLAG_UINT32) args = Some (x, args')"
      "t = decimal_text (v\<lparr>flags := flags v OR PRINT_FLAG_UINT32\<rparr>) x" using t by (auto simp: conv_text_def)
    thus ?thesis using 3 dec [of "flags v OR PRINT_FLAG_UINT32" x] by (auto simp: print_conversion_def)
  next
    case 4
    then obtain x where "va_int ucast (flags v OR PRINT_FLAG_UPPER) args = Some (x, args')"
      "t = hex_text (v\<lparr>flags := flags v OR PRINT_FLAG_UPPER\<rparr>) x" using t by (auto simp: conv_text_def)
    thus ?thesis using 4 hex [of "flags v OR PRINT_FLAG_UPPER" x] by (auto simp: print_conversion_def)
  next
    case 5
    then obtain x where "va_int ucast (flags v) args = Some (x, args')" "t = hex_text v x"
      using t by (auto simp: conv_text_def)
    thus ?thesis using 5 hex [of "flags v" x] self by (auto simp: print_conversion_def)
  next
    case 6
    then obtain a where a: "args = VAPtr a # args'"
      "t = string_text v (if a = 0 then null_text else bytes m a (strnlen_s m a PRINT_STRING_MAX_LEN))"
      using t by (auto simp: conv_text_def elim: va_argptr.elims)
    show ?thesis
    proof (cases "a = 0")
      case True
      thus ?thesis using 6 a local [of null_text "[]"] by (simp add: print_conversion_def null_text_def)
    next
      case False
      then obtain xs where "cstring m a xs" "\<forall>i \<le> length xs. a + i \<notin> D" using args a(1) by (auto simp: args_ok_def)
      thus ?thesis using 6 a False print_string_mem [OF h _ False] r by (simp add: print_conversion_def)
    qed
  next
    case 7
    then obtain x where x: "args = VA32 x # args'" "t = string_text v (if (ucast x :: u8) = 0 then [] else [ucast x])"
      using t by (auto simp: conv_text_def elim: va_arg32.elims)
    show ?thesis using 7 x local [of "[]" "[0, 0]"] local [of "[ucast x]" "[0]"]
      by (cases "(ucast x :: u8) = 0") (simp_all add: print_conversion_def)
  next
    case 8
    have "fmt - start = length (0x25 # raw)" using raw(2) by simp
    thus ?thesis using 8 t copy [OF h, of "0x25 # raw" "Mem start"] r raw(1,3)
      by (auto simp: print_conversion_def conv_text_def)
  qed
qed

lemma do_print_text:
  assumes "holds m out st" and "format_text m fs args = Some t" and "room (out @ t)" and "args_ok m D args"
    and "cstring m fmt fs" and "\<forall>i \<le> length fs. fmt + i \<notin> D" and "fmt \<noteq> 0" and "length fs < 2 ^ 31"
  shows "\<exists>st'. do_print emit fmt args st = Some st' \<and> holds m (out @ t) st'"
  using assms
proof (induction "length fs" arbitrary: fs fmt args t out st rule: less_induct)
  case less
  note h = less.prems(1) and fs = less.prems(5) and off = less.prems(6)
  define lit where "lit = takeWhile (\<lambda>c. c \<noteq> 0x25) fs"
  define rest where "rest = dropWhile (\<lambda>c. c \<noteq> 0x25) fs"
  have split: "fs = lit @ rest" by (simp add: lit_def rest_def)
  have nolit: "0x25 \<notin> set lit" by (auto simp: lit_def dest: set_takeWhileD)
  have mem: "cstring (fst st) fmt fs" if "holds m out' st" for out' st
    using cstring_outside [OF fs, of "fst st"] frame [OF that] off by blast
  show ?case
  proof (cases "fs = []")
    case True
    thus ?thesis using less.prems mem [OF h] by (auto simp: do_print.simps)
  next
    case False
    have scan: "scan_percent (fst st) fmt = Some (fmt + length lit)"
      using scan_percent_text [OF mem [OF h]] by (simp add: lit_def)
    obtain t' where t': "format_text m rest args = Some t'" "t = lit @ t'"
      using less.prems(2) format_text_literal [OF nolit, of m rest args] unfolding split by auto
    have src: "source m D (Mem fmt) lit"
      using fs off less.prems(7) by (auto simp: split cstring_append)
    have "length lit < 2 ^ 32" using less.prems(8) by (simp add: split)
    note c = copy_step [OF h less.prems(3) [unfolded t'(2)] src refl this]
    define u where "u = emit PRINT_CMD_COPY (Mem fmt) (of_nat (length lit)) st"
    have un: "do_print emit fmt args st = (if fst u (fmt + length lit) = 0x25
        then do { (fmt, args, st) \<leftarrow> do_conversion emit (fmt + length lit) args u; do_print emit fmt args st }
        else do_print emit (fmt + length lit) args u)"
      using False mem [OF h] scan by (subst do_print.simps) (cases fs; simp add: u_def)
    show ?thesis
    proof (cases rest)
      case Nil
      hence "fst u (fmt + length lit) = 0" using mem [OF c(1)] by (auto simp: split u_def cstring_iff)
      moreover from this have "do_print emit (fmt + length lit) args u = Some u" by (simp add: do_print.simps)
      ultimately show ?thesis using un c(1) t' Nil by (simp add: u_def)
    next
      case (Cons p cs)
      hence p: "p = 0x25" using hd_dropWhile [of "\<lambda>c. c \<noteq> 0x25" fs] by (simp add: rest_def)
      obtain ch v r where pc: "parse_conv cs = Some (ch, v, r)"
        using t'(1) p Cons by (auto split: option.splits)
      define raw where "raw = take (length cs - length r) cs"
      obtain t1 args' t2 where t1: "conv_text m raw ch v args = Some (t1, args')"
        and t2: "format_text m r args' = Some t2" "t' = t1 @ t2"
        using t'(1) p Cons pc by (auto simp: raw_def split: option.splits)
      have sfx: "suffix (ch # r) cs" by (rule parse_conv_suffix [OF pc])
      let ?s = "fmt + length lit" and ?f = "fmt + length fs - length r"
      have cs: "cstring (fst u) (?s + 1) cs" using mem [OF c(1)] Cons by (auto simp: split u_def cstring_append)
      have raw: "source m D (Mem ?s) (0x25 # raw)" "?f = ?s + 1 + length raw" "length raw < 2 ^ 31"
        using raw_source [OF fs off, of lit cs raw r] sfx p Cons less.prems(7,8) raw_def suffix_length_le [OF sfx] split by auto
      obtain st2 where st2: "print_conversion emit ?s ?f ch v args u = Some (args', st2)" "holds m ((out @ lit) @ t1) st2"
        using print_conversion_text [OF c(1) t1 _ _ _ less.prems(4) raw] room_shorter [OF c(2) [unfolded t2(2)]]
          parse_conv_vars [OF pc] unfolding u_def by auto
      have "do_conversion emit ?s args u = Some (?f, args', st2)"
        using do_conversion_parse [OF cs pc, of emit args] st2(1) by (simp add: split Cons Let_def add.assoc)
      moreover have "fst u ?s = 0x25" using mem [OF c(1)] Cons p by (simp add: u_def split cstring_append)
      moreover have "\<exists>st'. do_print emit ?f args' st2 = Some st' \<and> holds m (((out @ lit) @ t1) @ t2) st'"
      proof (rule less.hyps [OF _ st2(2) t2(1)])
        have lr: "length r < length cs" using suffix_length_le [OF sfx] by simp
        thus "length r < length fs" "length r < 2 ^ 31" using less.prems(8) by (simp_all add: split Cons)
        show "room (((out @ lit) @ t1) @ t2)" using c(2) t2(2) by simp
        show "args_ok m D args'" using less.prems(4) conv_text_args [OF t1] by (auto simp: args_ok_def)
        have "suffix r fs" using suffix_ConsD [OF sfx] by (simp add: split Cons suffix_appendI suffix_ConsI)
        thus "cstring m ?f r" by (rule cstring_suffix [OF fs])
        have f: "?f = fmt + (length fs - length r)" using lr by (simp add: split Cons)
        show "?f \<noteq> 0" using less.prems(7) by (simp add: f)
        have "fmt + (length fs - length r + i) \<notin> D" if "i \<le> length r" for i
          using off [rule_format, of "length fs - length r + i"] that lr by (auto simp: split Cons)
        thus "\<forall>i\<le>length r. ?f + i \<notin> D" unfolding f add.assoc by blast
      qed
      ultimately show ?thesis using un t' t2 by auto
    qed
  qed
qed

end

subsection \<open>The buffer as a sink\<close>

definition buf_area :: "addr \<Rightarrow> nat \<Rightarrow> addr set" where
  "buf_area d n = {d..<d + n}"

definition buf_room :: "nat \<Rightarrow> u8 list \<Rightarrow> bool" where
  "buf_room n out \<longleftrightarrow> length out < n \<and> n < 2 ^ 32"

definition buf_holds :: "addr \<Rightarrow> nat \<Rightarrow> mem \<Rightarrow> u8 list \<Rightarrow> mem \<times> snprint_param \<Rightarrow> bool" where
  "buf_holds d n m out st \<longleftrightarrow>
    snd st = \<lparr>dst = d, sz = of_nat n, wrtn = of_nat (length out)\<rparr> \<and> bytes (fst st) d (length out) = out \<and>
    (\<forall>a. a \<notin> buf_area d n \<longrightarrow> fst st a = m a)"

lemma source_deref:
  assumes "source m D s xs" "\<forall>a. a \<notin> D \<longrightarrow> m' a = m a" "i < length xs"
  shows "deref m' s i = xs ! i"
proof (cases s)
  case (Mem a)
  have "m' (a + i) = m (a + i)" using assms Mem by simp
  also have "\<dots> = xs ! i" using assms(1,3) Mem nth_bytes [of i "length xs" m a] by simp
  finally show ?thesis using Mem by simp
next
  case (Local ys)
  thus ?thesis using assms by (auto simp: prefix_def nth_append)
qed

lemma charmem_copy_text:
  assumes "source m D s xs" "\<forall>a. a \<notin> D \<longrightarrow> m' a = m a" "{p..<p + j} \<subseteq> D" "k + j = length xs"
    "\<forall>i < length xs. of_nat i < avail"
  shows "charmem_copy s k j p avail m' = (k + j, \<lambda>a. if p \<le> a \<and> a < p + j then xs ! (k + (a - p)) else m' a)"
  using assms
proof (induction j arbitrary: k p m')
  case (Suc j)
  let ?m = "m'(p := xs ! k)"
  have d: "deref m' s k = xs ! k" using source_deref [OF Suc.prems(1,2)] Suc.prems(4) by simp
  have "0 \<notin> set xs" using Suc.prems(1) by (cases s) auto
  moreover have "xs ! k \<in> set xs" using Suc.prems(4) by simp
  ultimately have "xs ! k \<noteq> 0" by auto
  hence "charmem_copy s k (Suc j) p avail m' = charmem_copy s (k + 1) j (p + 1) avail ?m"
    using d Suc.prems(4,5) by simp
  moreover have "charmem_copy s (k + 1) j (p + 1) avail ?m
      = (k + 1 + j, \<lambda>a. if p + 1 \<le> a \<and> a < p + 1 + j then xs ! (k + 1 + (a - (p + 1))) else ?m a)"
  proof (rule Suc.IH [OF Suc.prems(1)])
    have "p \<in> D" using Suc.prems(3) by auto
    thus "\<forall>a. a \<notin> D \<longrightarrow> ?m a = m a" using Suc.prems(2) by auto
  qed (use Suc.prems in auto)
  moreover have "k + 1 + (a - (p + 1)) = k + (a - p)" if "p + 1 \<le> a" for a using that by simp
  hence "(\<lambda>a. if p + 1 \<le> a \<and> a < p + 1 + j then xs ! (k + 1 + (a - (p + 1))) else ?m a)
      = (\<lambda>a. if p \<le> a \<and> a < p + Suc j then xs ! (k + (a - p)) else m' a)"
    by (intro ext) auto
  ultimately show ?case by simp
qed (auto simp: fun_eq_iff)

lemma buf_avail:
  assumes "l \<le> n" "n < 2 ^ 32"
  shows "unat (of_nat n - of_nat l :: u32) = n - l"
proof -
  have "(of_nat n - of_nat l :: u32) = of_nat (n - l)" using assms(1) by simp
  thus ?thesis using assms(2) by (simp add: unsigned_of_nat take_bit_nat_eq_self)
qed

lemma buf_holds_append:
  assumes h: "buf_holds d n m out st" and r: "buf_room n (out @ xs)"
  shows "buf_holds d n m (out @ xs)
    (\<lambda>a. if d + length out \<le> a \<and> a < d + length out + length xs then xs ! (a - (d + length out)) else fst st a,
     (snd st)\<lparr>wrtn := wrtn (snd st) + of_nat (length xs)\<rparr>)"
    (is "buf_holds d n m _ (?m, _)")
proof -
  have "bytes ?m d (length out) = bytes (fst st) d (length out)" by (rule bytes_eqI) simp
  moreover have "bytes ?m (d + length out) (length xs) = xs" by (rule nth_equalityI) auto
  ultimately have "bytes ?m d (length (out @ xs)) = out @ xs"
    using h by (simp add: bytes_add buf_holds_def)
  thus ?thesis using h r by (auto simp: buf_holds_def buf_area_def buf_room_def)
qed

lemma buf_copy:
  assumes h: "buf_holds d n m out st" and r: "buf_room n (out @ xs)" and s: "source m (buf_area d n) s xs"
  shows "buf_holds d n m (out @ xs) (charmem PRINT_CMD_COPY s (of_nat (length xs)) st)"
proof -
  obtain m' where st: "st = (m', \<lparr>dst = d, sz = of_nat n, wrtn = of_nat (length out)\<rparr>)"
    and fr: "\<forall>a. a \<notin> buf_area d n \<longrightarrow> m' a = m a"
    using h by (cases st) (auto simp: buf_holds_def)
  have len: "length out + length xs < n" "n < 2 ^ 32" using r by (auto simp: buf_room_def)
  let ?p = "d + length out" and ?av = "of_nat n - of_nat (length out) :: u32"
  have av: "unat ?av = n - length out" using len by (intro buf_avail) auto
  have "unat (of_nat i :: u32) < unat ?av" if "i < length xs" for i
    using that len by (simp add: av unsigned_of_nat take_bit_nat_eq_self)
  hence "\<forall>i < length xs. of_nat i < ?av" by (simp only: word_less_nat_alt) blast
  moreover have "{?p..<?p + length xs} \<subseteq> buf_area d n" using len by (auto simp: buf_area_def)
  ultimately have "charmem_copy s 0 (length xs) ?p ?av m'
      = (length xs, \<lambda>a. if ?p \<le> a \<and> a < ?p + length xs then xs ! (a - ?p) else m' a)"
    using charmem_copy_text [OF s fr, of ?p "length xs" 0 ?av] by (simp cong: if_cong)
  moreover have "unat (of_nat (length out) :: u32) = length out" "unat (of_nat (length xs) :: u32) = length xs"
    using len by (simp_all add: unsigned_of_nat take_bit_nat_eq_self)
  ultimately show ?thesis using buf_holds_append [OF h r] by (simp add: charmem_def st cong: if_cong)
qed

lemma buf_fill:
  assumes h: "buf_holds d n m out st" and r: "buf_room n (out @ replicate (unat k) c)"
  shows "buf_holds d n m (out @ replicate (unat k) c) (charmem PRINT_CMD_FILL (Local [c]) k st)"
proof -
  obtain m' where st: "st = (m', \<lparr>dst = d, sz = of_nat n, wrtn = of_nat (length out)\<rparr>)"
    using h by (cases st) (auto simp: buf_holds_def)
  have len: "length out + unat k < n" "n < 2 ^ 32" using r by (auto simp: buf_room_def)
  have "k < of_nat n - of_nat (length out)"
    using buf_avail [of "length out" n] len by (simp add: word_less_nat_alt)
  moreover have "memset (d + length out) c (unat k) m' =
      (\<lambda>a. if d + length out \<le> a \<and> a < d + length out + unat k then replicate (unat k) c ! (a - (d + length out)) else m' a)"
    by (rule ext) auto
  moreover have "unat (of_nat (length out) :: u32) = length out"
    using len by (simp add: unsigned_of_nat take_bit_nat_eq_self)
  moreover have "PRINT_CMD_FILL \<noteq> PRINT_CMD_COPY" by (simp add: PRINT_CMD_FILL_def PRINT_CMD_COPY_def)
  ultimately show ?thesis using buf_holds_append [OF h r] by (simp add: charmem_def st cong: if_cong)
qed

interpretation buf: text_sink charmem "buf_holds d n" "buf_room n" "buf_area d n" for d n
  by unfold_locales (auto simp: buf_copy buf_fill, auto simp: buf_holds_def buf_room_def)

lemma vsnprintf_text:
  assumes t: "format_text m fs args = Some t" "length t < n" "n < 2 ^ 32"
    and fs: "cstring m fmt fs" "fmt \<noteq> 0" "length fs < 2 ^ 31" "\<forall>i \<le> length fs. fmt + i \<notin> {d..<d + n}"
    and args: "args_ok m {d..<d + n} args"
  shows "\<exists>m'. vsnprintf d n fmt args m = Some (of_nat (length t), m') \<and> bytes m' d (length t) = t \<and>
    m' (d + length t) = 0 \<and> (\<forall>a. a \<notin> {d..<d + n} \<longrightarrow> m' a = m a)"
proof -
  let ?st = "(m, \<lparr>dst = d, sz = of_nat n, wrtn = 0\<rparr>)"
  have "buf_holds d n m [] ?st" by (simp add: buf_holds_def)
  moreover have "buf_room n ([] @ t)" using t by (simp add: buf_room_def)
  ultimately obtain st where st: "do_print charmem fmt args ?st = Some st" "buf_holds d n m ([] @ t) st"
    using buf.do_print_text [of d n m "[]" ?st fs args t fmt] t fs args by (auto simp: buf_area_def)
  obtain m' where m': "st = (m', \<lparr>dst = d, sz = of_nat n, wrtn = of_nat (length t)\<rparr>)" "bytes m' d (length t) = t"
    "\<forall>a. a \<notin> {d..<d + n} \<longrightarrow> m' a = m a"
    using st(2) by (cases st) (auto simp: buf_holds_def buf_area_def)
  have u: "unat (of_nat (length t) :: u32) = length t" "unat (of_nat n :: u32) = n"
    using t by (simp_all add: unsigned_of_nat take_bit_nat_eq_self)
  have "(of_nat (length t) :: u32) < of_nat n" using u t(2) by (simp only: word_less_nat_alt)
  hence "vsnprintf d n fmt args m = Some (of_nat (length t), m'(d + length t := 0))"
    using st(1) u by (simp add: vsnprintf_def m')
  thus ?thesis using m'(2,3) t(2) by (auto simp: bytes_upd_other)
qed

subsection \<open>The console as a sink\<close>

definition crlf :: "u8 list \<Rightarrow> u8 list" where
  "crlf out = concat (map (\<lambda>c. if c = 0x0a then [0x0d, 0x0a] else [c]) out)"

lemma crlf_append [simp]: "crlf (xs @ ys) = crlf xs @ crlf ys"
  by (simp add: crlf_def)

definition con_holds :: "u8 list \<Rightarrow> mem \<Rightarrow> u8 list \<Rightarrow> mem \<times> u32 \<times> u8 list \<Rightarrow> bool" where
  "con_holds u m out st \<longleftrightarrow> fst st = m \<and> snd (snd st) = u @ crlf out"

lemma uart_loop_text:
  "\<forall>i < n. deref m s (k + i) = xs ! i \<Longrightarrow> length xs = n \<Longrightarrow> uart_loop m s k n u = u @ crlf xs"
proof (induction n arbitrary: k xs u)
  case (Suc n)
  obtain x ys where xs: "xs = x # ys" using Suc.prems(2) by (cases xs) auto
  have x: "deref m s k = x" using Suc.prems(1) [rule_format, of 0] xs by simp
  have "\<forall>i < n. deref m s (k + 1 + i) = ys ! i" using Suc.prems(1) xs by auto
  thus ?case using Suc.IH [of "k + 1" ys] Suc.prems(2) x xs by (simp add: put_char_def crlf_def)
qed (simp add: crlf_def)

lemma con_copy:
  assumes "con_holds u m out st" "source m {} s xs" "length xs < 2 ^ 32"
  shows "con_holds u m (out @ xs) (charout PRINT_CMD_COPY s (of_nat (length xs)) st)"
proof -
  obtain k where st: "st = (m, k, u @ crlf out)" using assms(1) by (cases st) (auto simp: con_holds_def)
  have len: "unat (of_nat (length xs) :: u32) = length xs"
    using assms(3) by (simp add: unsigned_of_nat take_bit_nat_eq_self)
  show ?thesis
  proof (cases "xs = []")
    case False
    hence "s \<noteq> NULL" using assms(2) by auto
    moreover have "(of_nat (length xs) :: u32) > 0" using False len by (metis length_0_conv unsigned_0 word_neq_0_conv)
    moreover have "uart_loop m s 0 (length xs) w = w @ crlf xs" for w
      using source_deref [OF assms(2)] by (intro uart_loop_text) auto
    ultimately show ?thesis using len
      by (simp add: st charout_def console_write_def uart16550_puts_def con_holds_def)
  qed (simp add: st charout_def con_holds_def crlf_def)
qed

lemma con_fill:
  assumes "con_holds u m out st"
  shows "con_holds u m (out @ replicate (unat k) c) (charout PRINT_CMD_FILL (Local [c]) k st)"
proof -
  obtain i where st: "st = (m, i, u @ crlf out)" using assms by (cases st) (auto simp: con_holds_def)
  have "console_putc m (Local [c]) w = w @ crlf [c]" for w
    by (simp add: console_putc_def uart16550_puts_def put_char_def crlf_def)
  moreover have "crlf (replicate (Suc n) c) = crlf (replicate n c) @ crlf [c]" for n
    by (metis crlf_append replicate_append_same replicate_Suc)
  ultimately have "(console_putc m (Local [c]) ^^ n) w = w @ crlf (replicate n c)" for n w
    by (induction n) (simp_all add: crlf_def [of "[]"] del: replicate_Suc)
  thus ?thesis by (simp add: st charout_def con_holds_def PRINT_CMD_FILL_def PRINT_CMD_COPY_def)
qed

interpretation con: text_sink charout "con_holds u" "\<lambda>_. True" "{}" for u
  by unfold_locales (auto simp: con_copy con_fill, auto simp: con_holds_def)

lemma vprintf_text:
  assumes "format_text m fs args = Some t" "cstring m fmt fs" "fmt \<noteq> 0" "length fs < 2 ^ 31" "args_ok m {} args"
  shows "vprintf fmt args m uart = Some (uart @ crlf t)"
proof -
  have "con_holds uart m [] (m, 0, uart)" by (simp add: con_holds_def crlf_def)
  then obtain st where "do_print charout fmt args (m, 0, uart) = Some st" "con_holds uart m ([] @ t) st"
    using con.do_print_text [of uart m "[]" "(m, 0, uart)" fs args t fmt] assms by auto
  thus ?thesis by (simp add: vprintf_def con_holds_def)
qed

subsection \<open>Round trips\<close>

lemma deci_value_append: "deci_value a (xs @ ys) = deci_value (deci_value a xs) ys"
  by (induction xs arbitrary: a) auto

lemma deci_text_is_deci: "list_all is_deci (deci_text n)"
proof -
  have "set (deci_text n) \<subseteq> set (take 10 lower_hex_digits)"
    unfolding deci_text_def by (rule digits_text_set) (simp_all add: lower_hex_digits_def)
  moreover have "\<forall>c \<in> set (take 10 lower_hex_digits). is_deci c"
    by (simp add: lower_hex_digits_def is_deci_def)
  ultimately show ?thesis by (auto simp: list_all_iff)
qed

lemma deci_value_text: "deci_value 0 (deci_text n) = n"
proof (induction n rule: less_induct)
  case (less n)
  have digit: "unat (of_nat i + 0x30 - 0x30 :: u8) = i" if "i < 10" for i
    using that by (simp add: unsigned_of_nat take_bit_nat_eq_self)
  show ?case
  proof (cases "n < 10")
    case True
    thus ?thesis using digit [OF True] by (subst deci_text_rec) simp
  next
    case False
    hence "deci_value 0 (deci_text (n div 10)) = n div 10" by (intro less.IH) simp
    thus ?thesis using False digit [of "n mod 10"] by (subst deci_text_rec) (simp add: deci_value_append)
  qed
qed

text \<open>The text of a plain signed decimal conversion.\<close>

lemma decimal_text_plain:
  assumes "flags v = PRINT_FLAG_LONG" "width v = 0" "precision v = 0" "vmask v = NOT 0"
  shows "decimal_text v x = (if sint x < 0 then 0x2d # deci_text (unat (- x)) else deci_text (unat x))"
  using assms
  by (simp add: decimal_text_def number_text_def PRINT_FLAG_LONG_def PRINT_FLAG_UINT32_def PRINT_FLAG_SIGN_def
      PRINT_FLAG_SPACE_def PRINT_FLAG_LEFT_JUSTIFY_def PRINT_FLAG_PAD_ZERO_def)

lemma parse_ld: "parse_conv [0x6c, 0x64] = Some (0x64, init_vars\<lparr>flags := PRINT_FLAG_LONG\<rparr>, [])"
  by (simp add: parse_conv_def fmt_param_def fmt_modifier_def is_deci_def flag_of_def flagchars_def flag_table_def
      adjust_flags_def init_vars_def)

lemma unat_of_sint:
  assumes "0 \<le> k" "k < 2 ^ 64"
  shows "int (unat (word_of_int k :: u64)) = k"
  using assms by (simp add: unsigned_of_int take_bit_int_eq_self)

lemma unat_abs_sint: "int (unat (if sint (x :: u64) < 0 then - x else x)) = abs (sint x)"
proof -
  have r: "- (2 ^ 63) \<le> sint x" "sint x < 2 ^ 63" using sint_greater_eq [of x] sint_less [of x] by simp_all
  have "(if sint x < 0 then - x else x) = word_of_int (abs (sint x))" by simp
  moreover have "int (unat (word_of_int (abs (sint x)) :: u64)) = abs (sint x)"
    using r by (intro unat_of_sint) auto
  ultimately show ?thesis by simp
qed

lemma strtol_deci_decimal:
  assumes "cstring m p (if sint x < 0 then 0x2d # deci_text (unat (- x)) else deci_text (unat x))"
  shows "strtol_deci m p = Some x"
proof -
  define sg :: "u8 list" where "sg = (if sint x < 0 then [0x2d] else [])"
  define n where "n = (if sint x < 0 then unat (- x) else unat x)"
  have cs: "cstring m p ([] @ sg @ deci_text n @ [])" using assms by (simp add: sg_def n_def split: if_splits)
  have sg: "sg \<in> {[], [0x2b], [0x2d]}" by (simp add: sg_def)
  have ne: "deci_text n \<noteq> []" by (simp add: deci_text_def)
  obtain r where r: "strtol_deci m p = Some r" "sint r = (if sg = [0x2d] then - min (int (deci_value 0 (deci_text n))) (2 ^ 63)
      else min (int (deci_value 0 (deci_text n))) (2 ^ 63 - 1))"
    using strtol_deci_value [OF cs _ sg ne deci_text_is_deci] by auto
  have "- (2 ^ 63) \<le> sint x" "sint x < 2 ^ 63" using sint_greater_eq [of x] sint_less [of x] by simp_all
  hence "sint r = sint x"
    using r(2) unat_abs_sint [of x] by (auto simp: sg_def n_def deci_value_text split: if_splits)
  thus ?thesis using r(1) by (simp add: signed_word_eqI)
qed

lemma snprintf_ld_roundtrip:
  assumes fmt: "cstring m fmt [0x25, 0x6c, 0x64]" "fmt \<noteq> 0" "\<forall>i \<le> 3. fmt + i \<notin> {d..<d + n}"
    and n: "22 \<le> n" "n < 2 ^ 32"
  shows "\<exists>r m'. snprintf d n fmt [VA64 x] m = Some (r, m') \<and> strtol_deci m' d = Some x"
proof -
  define t where "t = (if sint x < 0 then 0x2d # deci_text (unat (- x)) else deci_text (unat x))"
  have "format_text m [0x25, 0x6c, 0x64] [VA64 x] = Some t"
    using decimal_text_plain [of "init_vars\<lparr>flags := PRINT_FLAG_LONG\<rparr>" x]
    by (simp add: parse_ld conv_text_def va_int_def PRINT_FLAG_LONG_def PRINT_FLAG_LONG_LONG_def t_def init_vars_def)
  moreover have len: "length (deci_text (unat y)) \<le> Suc 19" for y :: u64
  proof -
    have "unat y < 10 ^ Suc 19" using unsigned_less [of y, where 'a = nat] by simp
    thus ?thesis unfolding deci_text_def by (rule digits_text_length) simp
  qed
  have "length t < n" using n(1) len [of x] len [of "- x"] by (auto simp: t_def)
  moreover have "args_ok m {d..<d + n} [VA64 x]" by (simp add: args_ok_def)
  ultimately obtain m' where m': "vsnprintf d n fmt [VA64 x] m = Some (of_nat (length t), m')" "bytes m' d (length t) = t"
    "m' (d + length t) = 0"
    using vsnprintf_text [of m "[0x25, 0x6c, 0x64]" "[VA64 x]" t n fmt d] fmt n by (auto simp: numeral_3_eq_3)
  have "0 \<notin> set t" using deci_text_source(1) by (auto simp: t_def)
  hence "cstring m' d t" using m'(2,3) by (simp add: cstring_iff)
  thus ?thesis using m'(1) strtol_deci_decimal [of m' d x] by (auto simp: snprintf_def t_def)
qed

subsection \<open>Truncation\<close>

text \<open>
  When the text is longer than the buffer, the unsigned difference \<open>sz - wrtn\<close>
  wraps around, and the next piece is written behind the buffer.
\<close>

lemma charmem_overrun:
  assumes "sz p < wrtn p" "deref m s 0 = c" "c \<noteq> 0"
  shows "fst (charmem PRINT_CMD_COPY s 1 (m, p)) (dst p + unat (wrtn p)) = c"
proof -
  have "sz p - wrtn p \<noteq> 0" using assms(1) by simp
  hence "0 < sz p - wrtn p" by (simp only: word_greater_zero_iff not_False_eq_True)
  thus ?thesis using assms by (simp add: charmem_def)
qed

end
