(* ===== verification/Sbuf.thy ===== *)
theory Sbuf
  imports Memory
begin

text \<open>
  The shared ring buffer: \<open>common/sbuf.c\<close>, \<open>release/sbuf.c\<close>, and \<open>struct shared_buf\<close>
  of \<open>include/public/acrn_common.h\<close>.

  The header is a record beside the memory that holds the elements, which start
  \<open>SBUF_HEAD_SIZE\<close> bytes behind the address of the buffer.  The lemmas show that
  the ring refines a bounded queue of elements.
\<close>

subsection \<open>Operations\<close>

record shared_buf =
  magic :: u64
  ele_num :: u32
  ele_size :: u32
  head :: u32
  tail :: u32
  sflags :: u32
  overrun_cnt :: u32
  sbsize :: u32

definition SBUF_HEAD_SIZE :: nat where "SBUF_HEAD_SIZE = 64"
definition OVERRUN_CNT_EN :: u32 where "OVERRUN_CNT_EN = 1"
definition OVERWRITE_EN :: u32 where "OVERWRITE_EN = 2"

definition sbuf_next_ptr :: "u32 \<Rightarrow> u32 \<Rightarrow> u32 \<Rightarrow> u32" where
  "sbuf_next_ptr pos_arg span scope =
    (let pos = pos_arg + span in if pos \<ge> scope then pos - scope else pos)"

definition sbuf_put :: "addr \<Rightarrow> addr \<Rightarrow> shared_buf \<times> mem \<Rightarrow> u32 \<times> shared_buf \<times> mem" where
  "sbuf_put sbuf data st =
    (let (h, m) = st; next_tail = sbuf_next_ptr (tail h) (ele_size h) (sbsize h)
     in if next_tail = head h \<and> sflags h AND OVERWRITE_EN = 0 then (0, h, m)
        else
          let full = (next_tail = head h);
              h = (if full then h\<lparr>overrun_cnt := overrun_cnt h + (sflags h AND OVERRUN_CNT_EN)\<rparr> else h);
              m = snd (memcpy_s (sbuf + SBUF_HEAD_SIZE + unat (tail h)) (unat (ele_size h)) data (unat (ele_size h)) m);
              h = (if full then h\<lparr>head := sbuf_next_ptr (head h) (ele_size h) (sbsize h)\<rparr> else h)
          in (ele_size h, h\<lparr>tail := next_tail\<rparr>, m))"

definition ACRN_TRACE :: u32 where "ACRN_TRACE = 0"
definition ACRN_HVLOG :: u32 where "ACRN_HVLOG = 1"
definition ACRN_SEP :: u32 where "ACRN_SEP = 2"
definition ACRN_SOCWATCH :: u32 where "ACRN_SOCWATCH = 3"
definition ACRN_ASYNCIO :: u32 where "ACRN_ASYNCIO = 64"
definition sbuf_share_setup :: "nat \<Rightarrow> u32 \<Rightarrow> u64 \<Rightarrow> int" where
  "sbuf_share_setup cpu_id sbuf_id hva = - EPERM"

text \<open>\<open>init_asyncio\<close>, of the device model interface in theory Io_Req, is an argument here.\<close>

definition sbuf_setup_common :: "(u64 \<Rightarrow> int) \<Rightarrow> nat \<Rightarrow> u32 \<Rightarrow> u64 \<Rightarrow> int" where
  "sbuf_setup_common init_asyncio cpu_id sbuf_id hva =
    (if sbuf_id \<in> {ACRN_TRACE, ACRN_HVLOG, ACRN_SEP, ACRN_SOCWATCH} then sbuf_share_setup cpu_id sbuf_id hva
     else if sbuf_id = ACRN_ASYNCIO then init_asyncio hva
     else -1)"

subsection \<open>The queue of elements\<close>

text \<open>Put into a queue of bounded capacity, dropping the oldest element of a full one if allowed.\<close>

definition queue_put :: "bool \<Rightarrow> nat \<Rightarrow> 'a \<Rightarrow> 'a list \<Rightarrow> bool \<times> 'a list" where
  "queue_put overwrite cap x q =
    (if length q < cap then (True, q @ [x]) else if overwrite then (True, tl q @ [x]) else (False, q))"

text \<open>The header describes \<open>n\<close> slots of \<open>e\<close> bytes, with the read and write positions at slots \<open>i\<close> and \<open>j\<close>.\<close>

definition sbuf_at :: "shared_buf \<Rightarrow> nat \<Rightarrow> nat \<Rightarrow> nat \<Rightarrow> nat \<Rightarrow> bool" where
  "sbuf_at h n e i j \<longleftrightarrow> 2 \<le> n \<and> 0 < e \<and> i < n \<and> j < n \<and>
    unat (sbsize h) = n * e \<and> unat (ele_size h) = e \<and> unat (head h) = i * e \<and> unat (tail h) = j * e"

definition slot :: "addr \<Rightarrow> mem \<Rightarrow> nat \<Rightarrow> nat \<Rightarrow> u8 list" where
  "slot sbuf m e k = bytes m (sbuf + SBUF_HEAD_SIZE + k * e) e"

definition ring_len :: "nat \<Rightarrow> nat \<Rightarrow> nat \<Rightarrow> nat" where
  "ring_len n i j = (if i \<le> j then j - i else n + j - i)"

definition ring_next :: "nat \<Rightarrow> nat \<Rightarrow> nat" where
  "ring_next n k = (if k + 1 \<ge> n then k + 1 - n else k + 1)"

text \<open>The slot \<open>k\<close> steps behind slot \<open>i\<close>.\<close>

definition ring_pos :: "nat \<Rightarrow> nat \<Rightarrow> nat \<Rightarrow> nat" where
  "ring_pos n i k = (if i + k \<ge> n then i + k - n else i + k)"

definition ring :: "addr \<Rightarrow> mem \<Rightarrow> nat \<Rightarrow> nat \<Rightarrow> nat \<Rightarrow> nat \<Rightarrow> u8 list list" where
  "ring sbuf m n e i j =
    map (\<lambda>k. slot sbuf m e (ring_pos n i k)) [0..<ring_len n i j]"

lemma sbuf_next_ptr_slot:
  assumes "unat span = e" "unat scope = n * e" "unat pos = k * e" "k < n" "0 < e"
  shows "unat (sbuf_next_ptr pos span scope) = ring_next n k * e"
proof -
  have "(k + 1) * e \<le> n * e" using assms(4) by (intro mult_le_mono1) simp
  hence le: "k * e + e \<le> n * e" by simp
  moreover have "n * e < 2 ^ 32" using unsigned_less [of scope, where 'a = nat] assms(2) by simp
  ultimately have sum: "unat (pos + span) = k * e + e"
    using assms by (simp add: unat_add_no_wrap)
  show ?thesis
  proof (cases "k + 1 = n")
    case True
    hence "pos + span = scope" using sum assms(2) by (simp add: word_unat_eq_iff flip: True)
    thus ?thesis using True by (simp add: sbuf_next_ptr_def ring_next_def)
  next
    case False
    hence "(k + 1) * e < n * e" using assms(4,5) by (intro mult_strict_right_mono) auto
    hence "pos + span < scope" using sum assms(2) by (simp add: word_less_nat_alt)
    hence "sbuf_next_ptr pos span scope = pos + span" by (auto simp: sbuf_next_ptr_def Let_def dest: leD)
    thus ?thesis using False assms(4) sum by (simp add: ring_next_def)
  qed
qed

lemma ring_next_full: "i < n \<Longrightarrow> j < n \<Longrightarrow> 2 \<le> n \<Longrightarrow> ring_next n j = i \<longleftrightarrow> ring_len n i j = n - 1"
  by (auto simp: ring_next_def ring_len_def)

lemma ring_len_bound: "i < n \<Longrightarrow> j < n \<Longrightarrow> ring_len n i j < n"
  by (auto simp: ring_len_def)

lemma ring_len_next:
  "i < n \<Longrightarrow> j < n \<Longrightarrow> ring_next n j \<noteq> i \<Longrightarrow> ring_len n i (ring_next n j) = Suc (ring_len n i j)"
  by (auto simp: ring_next_def ring_len_def)

lemma slot_other:
  assumes "\<And>a. a < sbuf + SBUF_HEAD_SIZE + j * e \<or> sbuf + SBUF_HEAD_SIZE + j * e + e \<le> a \<Longrightarrow> m' a = m a" "k \<noteq> j"
  shows "slot sbuf m' e k = slot sbuf m e k"
  unfolding slot_def
proof (rule bytes_eqI)
  fix x assume "x < e"
  have "k * e + e \<le> j * e \<or> j * e + e \<le> k * e"
    using assms(2) mult_le_mono1 [of "k + 1" j e] mult_le_mono1 [of "j + 1" k e] by (cases "k < j") auto
  thus "m' (sbuf + SBUF_HEAD_SIZE + k * e + x) = m (sbuf + SBUF_HEAD_SIZE + k * e + x)"
    using \<open>x < e\<close> by (intro assms(1)) auto
qed

text \<open>Writing an element at the tail slot appends it to the ring.\<close>

lemma ring_append:
  assumes "i < n" "j < n" "ring_next n j \<noteq> i"
    and frame: "\<And>a. a < sbuf + SBUF_HEAD_SIZE + j * e \<or> sbuf + SBUF_HEAD_SIZE + j * e + e \<le> a \<Longrightarrow> m' a = m a"
    and elem: "slot sbuf m' e j = x"
  shows "ring sbuf m' n e i (ring_next n j) = ring sbuf m n e i j @ [x]"
proof -
  have "slot sbuf m' e (ring_pos n i k) = slot sbuf m e (ring_pos n i k)" if "k < ring_len n i j" for k
    using that assms(1,2) by (intro slot_other [OF frame]) (auto simp: ring_pos_def ring_len_def split: if_splits)
  moreover have "ring_pos n i (ring_len n i j) = j"
    using assms(1,2) by (auto simp: ring_pos_def ring_len_def)
  ultimately show ?thesis using elem by (simp add: ring_def ring_len_next [OF assms(1-3)])
qed

lemma ring_tl:
  assumes "i < n" "j < n" "0 < ring_len n i j"
  shows "ring sbuf m n e (ring_next n i) j = tl (ring sbuf m n e i j)"
proof (rule nth_equalityI)
  have len: "ring_len n (ring_next n i) j = ring_len n i j - 1"
    using assms by (auto simp: ring_next_def ring_len_def split: if_splits)
  thus "length (ring sbuf m n e (ring_next n i) j) = length (tl (ring sbuf m n e i j))" by (simp add: ring_def)
  fix k assume "k < length (ring sbuf m n e (ring_next n i) j)"
  hence k: "k + 1 < ring_len n i j" using len by (simp add: ring_def)
  have "ring_pos n (ring_next n i) k = ring_pos n i (Suc k)"
    using k assms by (auto simp: ring_pos_def ring_next_def ring_len_def split: if_splits)
  thus "ring sbuf m n e (ring_next n i) j ! k = tl (ring sbuf m n e i j) ! k"
    using k len nth_upt [of 0 k "ring_len n i j - 1"] by (simp add: ring_def nth_tl)
qed

lemma sbuf_put_refines:
  assumes h: "sbuf_at h n e i j" and p: "sbuf \<noteq> 0" "data \<noteq> 0"
    and apart: "data + e < sbuf + SBUF_HEAD_SIZE \<or> sbuf + SBUF_HEAD_SIZE + n * e < data"
    and r: "sbuf_put sbuf data (h, m) = (ret, h', m')"
    and q: "queue_put (sflags h AND OVERWRITE_EN \<noteq> 0) (n - 1) (bytes m data e) (ring sbuf m n e i j) = (ok, q')"
  shows "\<exists>i' j'. sbuf_at h' n e i' j' \<and> ring sbuf m' n e i' j' = q' \<and> unat ret = (if ok then e else 0)"
proof -
  have H: "2 \<le> n" "0 < e" "i < n" "j < n" "unat (sbsize h) = n * e" "unat (ele_size h) = e"
    "unat (head h) = i * e" "unat (tail h) = j * e" using h by (auto simp: sbuf_at_def)
  define nt where "nt = sbuf_next_ptr (tail h) (ele_size h) (sbsize h)"
  have nt: "unat nt = ring_next n j * e" unfolding nt_def using H by (intro sbuf_next_ptr_slot)
  hence full: "nt = head h \<longleftrightarrow> ring_next n j = i" using H by (simp add: word_unat_eq_iff)
  let ?d = "sbuf + SBUF_HEAD_SIZE + j * e" and ?R = "ring sbuf m n e i j"
  have len: "length ?R = ring_len n i j" by (simp add: ring_def)
  have jn: "ring_next n j < n" using H by (auto simp: ring_next_def)
  have "(j + 1) * e \<le> n * e" using H(4) by (intro mult_le_mono1) simp
  hence ok: "?d \<noteq> 0" "data \<noteq> 0" "e \<le> e" "?d > data + e \<or> data > ?d + e" using p apart by auto
  define m1 where "m1 = snd (memcpy_s ?d e data e m)"
  note cp = memcpy_s_ok [OF ok, where m = m, folded m1_def]
  have elem: "slot sbuf m1 e j = bytes m data e" using cp(2) by (simp add: slot_def)
  show ?thesis
  proof (cases "ring_next n j = i")
    case False
    hence "ring_len n i j < n - 1" using ring_len_bound [OF H(3,4)] ring_next_full [OF H(3,4,1)] by simp
    hence "q' = ?R @ [bytes m data e]" "ok" using q len by (auto simp: queue_put_def)
    moreover have "h' = h\<lparr>tail := nt\<rparr>" "m' = m1" "ret = ele_size h"
      using r False full H(6,8) by (simp_all add: sbuf_put_def Let_def m1_def flip: nt_def)
    moreover have "ring sbuf m1 n e i (ring_next n j) = ?R @ [bytes m data e]"
      by (rule ring_append [OF H(3,4) False cp(3) elem])
    moreover have "sbuf_at (h\<lparr>tail := nt\<rparr>) n e i (ring_next n j)" using h nt jn by (simp add: sbuf_at_def)
    ultimately show ?thesis using H(6) by auto
  next
    case True
    hence L: "ring_len n i j = n - 1" using ring_next_full [OF H(3,4,1)] by simp
    show ?thesis
    proof (cases "sflags h AND OVERWRITE_EN = 0")
      case True
      hence "h' = h" "m' = m" "ret = 0" "q' = ?R" "\<not> ok"
        using r q L len full \<open>ring_next n j = i\<close> by (auto simp: sbuf_put_def queue_put_def Let_def simp flip: nt_def)
      thus ?thesis using h by auto
    next
      case ow: False
      define hd' where "hd' = sbuf_next_ptr (head h) (ele_size h) (sbsize h)"
      have hd': "unat hd' = ring_next n i * e" unfolding hd'_def using H by (intro sbuf_next_ptr_slot)
      have in': "ring_next n i < n" "ring_next n i \<noteq> i" using H by (auto simp: ring_next_def)
      have "q' = tl ?R @ [bytes m data e]" "ok" using q len L ow by (auto simp: queue_put_def)
      moreover have "h' = h\<lparr>overrun_cnt := overrun_cnt h + (sflags h AND OVERRUN_CNT_EN), head := hd', tail := nt\<rparr>"
        "m' = m1" "ret = ele_size h"
        using r full ow \<open>ring_next n j = i\<close> H(6,8) by (auto simp: sbuf_put_def Let_def m1_def hd'_def simp flip: nt_def)
      moreover have "ring sbuf m1 n e (ring_next n i) (ring_next n j) = tl ?R @ [bytes m data e]"
        using ring_append [OF in'(1) H(4) _ cp(3) elem] ring_tl [OF H(3,4), of sbuf m e] L H(1) True in'(2) by simp
      moreover have "sbuf_at (h\<lparr>overrun_cnt := c, head := hd', tail := nt\<rparr>) n e (ring_next n i) (ring_next n j)" for c
        using h nt hd' jn in' by (simp add: sbuf_at_def)
      ultimately show ?thesis using H(6) by auto
    qed
  qed
qed

end
