(* ===== verification/Pgtable.thy ===== *)
theory Pgtable
  imports Prelude "HOL-Library.Monad_Syntax"
begin

text \<open>
  Page tables: \<open>arch/riscv/pgtable.c\<close> and \<open>include/arch/riscv/asm/pgtable.h\<close>.

  The store holds the 64-bit cells of the page-table pages, by their host
  virtual address.  The physical offset and the bounds of the hypervisor
  image come from the linker and the boot code; they form the environment.  A
  \<open>struct memory_ops\<close> is a record of functions; its page allocators clear the
  page they return.  Cache maintenance has no effect on the store, and
  \<open>pr_dbg\<close> prints in debug builds only.
\<close>

subsection \<open>Constants and entries\<close>

type_synonym pmem = "nat \<Rightarrow> u64"

record pt_env =
  phys_offset :: u64
  kern_start :: u64
  kern_end :: u64

datatype page_table_level = VPN3 | VPN2 | VPN1 | VPN0

record pgtable_pages_info =
  top_address_space :: u64
  vpn3_base :: nat
  vpn2_base :: nat
  vpn1_base :: nat
  vpn0_base :: nat

record memory_ops =
  info :: pgtable_pages_info
  large_page_support :: "page_table_level \<Rightarrow> bool"
  get_default_access_right :: u64
  pgentry_present :: "u64 \<Rightarrow> u64"
  get_pml4_page :: "pgtable_pages_info \<Rightarrow> pmem \<Rightarrow> nat \<times> pmem"
  get_pdpt_page :: "pgtable_pages_info \<Rightarrow> u64 \<Rightarrow> pmem \<Rightarrow> nat \<times> pmem"
  get_pd_page :: "pgtable_pages_info \<Rightarrow> u64 \<Rightarrow> pmem \<Rightarrow> nat \<times> pmem"
  get_pt_page :: "pgtable_pages_info \<Rightarrow> u64 \<Rightarrow> pmem \<Rightarrow> nat \<times> pmem"
  tweak_exe_right :: "u64 \<Rightarrow> u64"
  recover_exe_right :: "u64 \<Rightarrow> u64"

definition PAGE_V :: u64 where "PAGE_V = 0x1"
definition PAGE_X :: u64 where "PAGE_X = 0x8"
definition PAGE_U :: u64 where "PAGE_U = 0x10"
definition PAGE_TYPE_MASK :: u64 where "PAGE_TYPE_MASK = 0xf"
definition PAGE_TYPE_TABLE :: u64 where "PAGE_TYPE_TABLE = PAGE_V"
definition PAGE_ATTR_PMA :: u64 where "PAGE_ATTR_PMA = 0"
definition PAGE_ATTR_UC :: u64 where "PAGE_ATTR_UC = push_bit 61 1"
definition PAGE_ATTR_IO :: u64 where "PAGE_ATTR_IO = push_bit 61 2"

definition PG_TABLE_ENTRIES :: nat where "PG_TABLE_ENTRIES = 512"
definition PAGE_SIZE :: u64 where "PAGE_SIZE = push_bit 12 1"
definition PAGE_MASK :: u64 where "PAGE_MASK = NOT (PAGE_SIZE - 1)"
definition PTE_SIZE :: u64 where "PTE_SIZE = push_bit 12 1"
definition VPN1_SIZE :: u64 where "VPN1_SIZE = push_bit 21 1"
definition VPN1_MASK :: u64 where "VPN1_MASK = NOT (VPN1_SIZE - 1)"
definition VPN2_SIZE :: u64 where "VPN2_SIZE = push_bit 30 1"
definition VPN2_MASK :: u64 where "VPN2_MASK = NOT (VPN2_SIZE - 1)"
definition VPN3_SIZE :: u64 where "VPN3_SIZE = push_bit 39 1"
definition VPN3_MASK :: u64 where "VPN3_MASK = NOT (VPN3_SIZE - 1)"
definition VPN2_PFN_MASK :: u64 where "VPN2_PFN_MASK = 0x0000FFFFFFFFF000"
definition VPN1_PFN_MASK :: u64 where "VPN1_PFN_MASK = 0x0000FFFFFFFFF000"

definition round_page_up :: "u64 \<Rightarrow> u64" where
  "round_page_up a = (a + PAGE_SIZE - 1) AND PAGE_MASK"

definition round_page_down :: "u64 \<Rightarrow> u64" where
  "round_page_down a = a AND PAGE_MASK"

definition is_kernel :: "pt_env \<Rightarrow> u64 \<Rightarrow> bool" where
  "is_kernel env p = (kern_start env \<le> p \<and> p < kern_end env)"

definition hpa2hva :: "pt_env \<Rightarrow> u64 \<Rightarrow> u64" where
  "hpa2hva env hpa = (if \<not> is_kernel env (hpa - phys_offset env) then hpa else hpa - phys_offset env)"

definition hva2hpa :: "pt_env \<Rightarrow> u64 \<Rightarrow> u64" where
  "hva2hpa env va = (if \<not> is_kernel env va then va else va + phys_offset env)"

definition vpn3_index :: "u64 \<Rightarrow> nat" where "vpn3_index a = unat (drop_bit 39 a AND 511)"
definition vpn2_index :: "u64 \<Rightarrow> nat" where "vpn2_index a = unat (drop_bit 30 a AND 511)"
definition vpn1_index :: "u64 \<Rightarrow> nat" where "vpn1_index a = unat (drop_bit 21 a AND 511)"
definition pte_index :: "u64 \<Rightarrow> nat" where "pte_index a = unat (drop_bit 12 a AND 511)"

text \<open>The page frame number of an entry, a bit field of 44 bits.\<close>

definition pgtable_get_mfn :: "u64 \<Rightarrow> u64" where
  "pgtable_get_mfn e = take_bit 44 (drop_bit 10 e)"

definition vpn_to_vaddr :: "pt_env \<Rightarrow> pmem \<Rightarrow> nat \<Rightarrow> nat" where
  "vpn_to_vaddr env m vpn = unat (hpa2hva env (push_bit 12 (pgtable_get_mfn (m vpn)) AND VPN1_PFN_MASK))"

definition vpn3_offset :: "nat \<Rightarrow> u64 \<Rightarrow> nat" where
  "vpn3_offset page a = page + 8 * vpn3_index a"

definition vpn2_offset :: "pt_env \<Rightarrow> pmem \<Rightarrow> nat \<Rightarrow> u64 \<Rightarrow> nat" where
  "vpn2_offset env m vpn3 a = vpn_to_vaddr env m vpn3 + 8 * vpn2_index a"

definition vpn1_offset :: "pt_env \<Rightarrow> pmem \<Rightarrow> nat \<Rightarrow> u64 \<Rightarrow> nat" where
  "vpn1_offset env m vpn2 a = vpn_to_vaddr env m vpn2 + 8 * vpn1_index a"

definition pte_offset :: "pt_env \<Rightarrow> pmem \<Rightarrow> nat \<Rightarrow> u64 \<Rightarrow> nat" where
  "pte_offset env m vpn1 a = vpn_to_vaddr env m vpn1 + 8 * pte_index a"

definition set_pgentry :: "nat \<Rightarrow> u64 \<Rightarrow> pmem \<Rightarrow> pmem" where
  "set_pgentry ptep pte m = m(ptep := pte)"

definition vpn_large :: "u64 \<Rightarrow> bool" where
  "vpn_large e = (e AND PAGE_V \<noteq> 0 \<and> e AND PAGE_TYPE_MASK \<noteq> PAGE_TYPE_TABLE)"

definition mem_aligned_check :: "u64 \<Rightarrow> u64 \<Rightarrow> bool" where
  "mem_aligned_check v req_align = (v AND (req_align - 1) = 0)"

datatype memory_type = MT_PMA | MT_UC | MT_IO

text \<open>
  The entry is assembled in a bit field structure: valid, read, write in the low
  bits, the frame number from bit 10, the memory type \<open>pbmt\<close> in bits 61 and
  62.  The assignment to the two-bit member \<open>pbmt\<close> keeps the low two bits of
  the value.
\<close>

definition mfn_to_acrn_entry :: "u64 \<Rightarrow> memory_type \<Rightarrow> bool \<Rightarrow> u64" where
  "mfn_to_acrn_entry mfn attr table =
    (let low = (if table then 0x1 else 0x7);
         pbmt = take_bit 2 (case attr of MT_IO \<Rightarrow> PAGE_ATTR_IO | MT_UC \<Rightarrow> PAGE_ATTR_UC | MT_PMA \<Rightarrow> PAGE_ATTR_PMA)
     in low OR push_bit 10 (take_bit 44 mfn) OR push_bit 61 pbmt)"

definition pte_of_memaddr :: "pt_env \<Rightarrow> u64 \<Rightarrow> bool \<Rightarrow> u64" where
  "pte_of_memaddr env va table = mfn_to_acrn_entry (drop_bit 12 (va + phys_offset env)) MT_PMA table"

definition construct_pgentry :: "pt_env \<Rightarrow> nat \<Rightarrow> u64 \<Rightarrow> u64 \<Rightarrow> pmem \<Rightarrow> pmem" where
  "construct_pgentry env ptep pd_page prot m = m(ptep := pte_of_memaddr env pd_page True)"

definition construct_pte :: "pt_env \<Rightarrow> nat \<Rightarrow> u64 \<Rightarrow> u64 \<Rightarrow> pmem \<Rightarrow> pmem" where
  "construct_pte env ptep paddr prot m = m(ptep := pte_of_memaddr env paddr False OR (PAGE_U OR PAGE_X))"

subsection \<open>Adding a mapping\<close>

function add_pte_loop :: "pt_env \<Rightarrow> memory_ops \<Rightarrow> u64 \<Rightarrow> nat \<Rightarrow> nat \<Rightarrow> u64 \<Rightarrow> u64 \<Rightarrow> u64 \<Rightarrow> pmem \<Rightarrow> pmem" where
  "add_pte_loop env ops prot pt_page index paddr vaddr vaddr_end m =
    (if index < PG_TABLE_ENTRIES
     then
       let pte = pt_page + 8 * index;
           m = (if pgentry_present ops (m pte) \<noteq> 0 then m else construct_pte env pte paddr prot m)
       in if vaddr + PTE_SIZE \<ge> vaddr_end then m
          else add_pte_loop env ops prot pt_page (index + 1) (paddr + PTE_SIZE) (vaddr + PTE_SIZE) vaddr_end m
     else m)"
  by pat_completeness auto
termination by (relation "measure (\<lambda>(env, ops, prot, pt_page, index, _). PG_TABLE_ENTRIES - index)") auto

declare add_pte_loop.simps [simp del]

definition add_pte :: "pt_env \<Rightarrow> memory_ops \<Rightarrow> nat \<Rightarrow> u64 \<Rightarrow> u64 \<Rightarrow> u64 \<Rightarrow> u64 \<Rightarrow> pmem \<Rightarrow> pmem" where
  "add_pte env ops vpn1 paddr vaddr vaddr_end prot m =
    add_pte_loop env ops prot (vpn_to_vaddr env m vpn1) (pte_index vaddr) paddr vaddr vaddr_end m"

text \<open>
  The loops over the entries of the two middle levels have the same shape: the
  body \<open>entry\<close> treats one entry, and the loop goes on with the next entry unless
  the range ends.  The access rights are part of the state, since the body may
  adjust them.
\<close>

function table_loop :: "(nat \<Rightarrow> u64 \<Rightarrow> u64 \<Rightarrow> u64 \<Rightarrow> u64 \<Rightarrow> u64 \<times> pmem \<Rightarrow> u64 \<times> pmem) \<Rightarrow> u64 \<Rightarrow> u64 \<Rightarrow>
    nat \<Rightarrow> nat \<Rightarrow> u64 \<Rightarrow> u64 \<Rightarrow> u64 \<Rightarrow> u64 \<times> pmem \<Rightarrow> u64 \<times> pmem" where
  "table_loop entry msk sz page index paddr vaddr vaddr_end st =
    (if index < PG_TABLE_ENTRIES
     then
       let vaddr_next = (vaddr AND msk) + sz;
           st = entry (page + 8 * index) paddr vaddr vaddr_end vaddr_next st
       in if vaddr_next \<ge> vaddr_end then st
          else table_loop entry msk sz page (index + 1) (paddr + (vaddr_next - vaddr)) vaddr_next vaddr_end st
     else st)"
  by pat_completeness auto
termination by (relation "measure (\<lambda>(entry, msk, sz, page, index, _). PG_TABLE_ENTRIES - index)") auto

declare table_loop.simps [simp del]

definition add_vpn1_entry ::
  "pt_env \<Rightarrow> memory_ops \<Rightarrow> nat \<Rightarrow> u64 \<Rightarrow> u64 \<Rightarrow> u64 \<Rightarrow> u64 \<Rightarrow> u64 \<times> pmem \<Rightarrow> u64 \<times> pmem" where
  "add_vpn1_entry env ops vpn1 paddr vaddr vaddr_end vaddr_next st =
    (let (prot, m) = st
     in if vpn_large (m vpn1) then (prot, m)
        else if pgentry_present ops (m vpn1) = 0
        then
          if large_page_support ops VPN1 \<and> mem_aligned_check paddr VPN1_SIZE \<and>
             mem_aligned_check vaddr VPN1_SIZE \<and> vaddr_next \<le> vaddr_end
          then let prot = tweak_exe_right ops prot in (prot, construct_pte env vpn1 paddr prot m)
          else
            let (pt_page, m) = get_pt_page ops (info ops) vaddr m;
                m = construct_pgentry env vpn1 (of_nat pt_page) (get_default_access_right ops) m
            in (prot, add_pte env ops vpn1 paddr vaddr vaddr_end prot m)
        else (prot, add_pte env ops vpn1 paddr vaddr vaddr_end prot m))"

definition add_vpn1 :: "pt_env \<Rightarrow> memory_ops \<Rightarrow> nat \<Rightarrow> u64 \<Rightarrow> u64 \<Rightarrow> u64 \<Rightarrow> u64 \<Rightarrow> pmem \<Rightarrow> pmem" where
  "add_vpn1 env ops vpn2 paddr vaddr vaddr_end prot m =
    snd (table_loop (add_vpn1_entry env ops) VPN1_MASK VPN1_SIZE (vpn_to_vaddr env m vpn2) (vpn1_index vaddr)
      paddr vaddr vaddr_end (prot, m))"

definition add_vpn2_entry ::
  "pt_env \<Rightarrow> memory_ops \<Rightarrow> nat \<Rightarrow> u64 \<Rightarrow> u64 \<Rightarrow> u64 \<Rightarrow> u64 \<Rightarrow> u64 \<times> pmem \<Rightarrow> u64 \<times> pmem" where
  "add_vpn2_entry env ops vpn2 paddr vaddr vaddr_end vaddr_next st =
    (let (prot, m) = st
     in if vpn_large (m vpn2) then (prot, m)
        else if pgentry_present ops (m vpn2) = 0
        then
          if large_page_support ops VPN2 \<and> mem_aligned_check paddr VPN2_SIZE \<and>
             mem_aligned_check vaddr VPN2_SIZE \<and> vaddr_next \<le> vaddr_end
          then let prot = tweak_exe_right ops prot in (prot, construct_pte env vpn2 paddr prot m)
          else
            let (pd_page, m) = get_pd_page ops (info ops) vaddr m;
                m = construct_pgentry env vpn2 (of_nat pd_page) (get_default_access_right ops) m
            in (prot, add_vpn1 env ops vpn2 paddr vaddr vaddr_end prot m)
        else (prot, add_vpn1 env ops vpn2 paddr vaddr vaddr_end prot m))"

definition add_vpn2 :: "pt_env \<Rightarrow> memory_ops \<Rightarrow> nat \<Rightarrow> u64 \<Rightarrow> u64 \<Rightarrow> u64 \<Rightarrow> u64 \<Rightarrow> pmem \<Rightarrow> pmem" where
  "add_vpn2 env ops vpn3 paddr vaddr vaddr_end prot m =
    snd (table_loop (add_vpn2_entry env ops) VPN2_MASK VPN2_SIZE (vpn_to_vaddr env m vpn3) (vpn2_index vaddr)
      paddr vaddr vaddr_end (prot, m))"

partial_function (option) mmu_add_loop ::
  "pt_env \<Rightarrow> memory_ops \<Rightarrow> nat \<Rightarrow> u64 \<Rightarrow> u64 \<Rightarrow> u64 \<Rightarrow> u64 \<Rightarrow> pmem \<Rightarrow> pmem option" where
  "mmu_add_loop env ops vpn3_page prot paddr vaddr vaddr_end m =
    (if vaddr < vaddr_end
     then
       let vaddr_next = (vaddr AND VPN3_MASK) + VPN3_SIZE;
           vpn3 = vpn3_offset vpn3_page vaddr;
           m = (if pgentry_present ops (m vpn3) = 0
                then let (vpn2_page, m) = get_pdpt_page ops (info ops) vaddr m
                     in construct_pgentry env vpn3 (of_nat vpn2_page) (get_default_access_right ops) m
                else m);
           m = add_vpn2 env ops vpn3 paddr vaddr vaddr_end prot m
       in mmu_add_loop env ops vpn3_page prot (paddr + (vaddr_next - vaddr)) vaddr_next vaddr_end m
     else Some m)"

declare mmu_add_loop.simps [code]

definition mmu_add :: "pt_env \<Rightarrow> memory_ops \<Rightarrow> nat \<Rightarrow> u64 \<Rightarrow> u64 \<Rightarrow> u64 \<Rightarrow> u64 \<Rightarrow> pmem \<Rightarrow> pmem option" where
  "mmu_add env ops vpn3_page paddr_base vaddr_base sz prot m =
    (let vaddr = round_page_up vaddr_base; paddr = round_page_up paddr_base
     in mmu_add_loop env ops vpn3_page prot paddr vaddr (vaddr + round_page_down sz) m)"

subsection \<open>Looking up an address\<close>

text \<open>The pointer to the leaf entry and the size of the page it maps.\<close>

definition lookup_address :: "pt_env \<Rightarrow> memory_ops \<Rightarrow> nat \<Rightarrow> u64 \<Rightarrow> pmem \<Rightarrow> (nat \<times> u64) option" where
  "lookup_address env ops vpn3_page a m =
    (let vpn3 = vpn3_offset vpn3_page a
     in if pgentry_present ops (m vpn3) = 0 then None
        else
          let vpn2 = vpn2_offset env m vpn3 a
          in if pgentry_present ops (m vpn2) = 0 then None
             else if vpn_large (m vpn2) then Some (vpn2, VPN2_SIZE)
             else
               let vpn1 = vpn1_offset env m vpn2 a
               in if pgentry_present ops (m vpn1) = 0 then None
                  else if vpn_large (m vpn1) then Some (vpn1, VPN1_SIZE)
                  else
                    let pte = pte_offset env m vpn1 a
                    in if pgentry_present ops (m pte) = 0 then None else Some (pte, PTE_SIZE))"

subsection \<open>Changing and deleting mappings\<close>

definition MR_ADD :: u32 where "MR_ADD = 0"
definition MR_DEL :: u32 where "MR_DEL = 2"
definition MR_MODIFY :: u32 where "MR_MODIFY = 3"

fun split_loop :: "pt_env \<Rightarrow> page_table_level \<Rightarrow> u64 \<Rightarrow> u64 \<Rightarrow> nat \<Rightarrow> nat \<Rightarrow> u64 \<Rightarrow> pmem \<Rightarrow> pmem" where
  "split_loop env level ref_prot paddrinc p 0 paddr m = m"
| "split_loop env level ref_prot paddrinc p (Suc n) paddr m =
    split_loop env level ref_prot paddrinc (p + 8) n (paddr + paddrinc)
      (if level = VPN1 then construct_pgentry env p paddr ref_prot m else construct_pte env p paddr ref_prot m)"

definition split_large_page :: "pt_env \<Rightarrow> memory_ops \<Rightarrow> nat \<Rightarrow> page_table_level \<Rightarrow> u64 \<Rightarrow> pmem \<Rightarrow> pmem" where
  "split_large_page env ops pte level vaddr m =
    (let (ref_paddr, paddrinc, ref_prot, pbase, m) =
       (if level = VPN2
        then let (p, m') = get_pd_page ops (info ops) vaddr m
             in (m pte AND VPN2_PFN_MASK, VPN1_SIZE, m pte AND NOT VPN2_PFN_MASK, p, m')
        else let (p, m') = get_pt_page ops (info ops) vaddr m
             in (m pte AND VPN1_PFN_MASK, PTE_SIZE, recover_exe_right ops (m pte AND NOT VPN1_PFN_MASK), p, m'));
         m = split_loop env level ref_prot paddrinc pbase PG_TABLE_ENTRIES ref_paddr m
     in construct_pgentry env pte (of_nat pbase) (get_default_access_right ops) m)"

definition local_modify_or_del_pte :: "nat \<Rightarrow> u64 \<Rightarrow> u64 \<Rightarrow> u32 \<Rightarrow> pmem \<Rightarrow> pmem" where
  "local_modify_or_del_pte pte prot_set prot_clr type m =
    (if type = MR_MODIFY then set_pgentry pte ((m pte AND NOT prot_clr) OR prot_set) m
     else if type = MR_DEL then set_pgentry pte 0 m
     else m)"

function modify_pte_loop ::
  "memory_ops \<Rightarrow> u64 \<Rightarrow> u64 \<Rightarrow> u32 \<Rightarrow> nat \<Rightarrow> nat \<Rightarrow> u64 \<Rightarrow> u64 \<Rightarrow> pmem \<Rightarrow> pmem" where
  "modify_pte_loop ops prot_set prot_clr type pt_page index vaddr vaddr_end m =
    (if index < PG_TABLE_ENTRIES
     then
       let pte = pt_page + 8 * index;
           m = (if pgentry_present ops (m pte) = 0 then m else local_modify_or_del_pte pte prot_set prot_clr type m)
       in if vaddr + PTE_SIZE \<ge> vaddr_end then m
          else modify_pte_loop ops prot_set prot_clr type pt_page (index + 1) (vaddr + PTE_SIZE) vaddr_end m
     else m)"
  by pat_completeness auto
termination by (relation "measure (\<lambda>(ops, s, c, t, pt_page, index, _). PG_TABLE_ENTRIES - index)") auto

declare modify_pte_loop.simps [simp del]

definition modify_or_del_pte ::
  "pt_env \<Rightarrow> memory_ops \<Rightarrow> nat \<Rightarrow> u64 \<Rightarrow> u64 \<Rightarrow> u64 \<Rightarrow> u64 \<Rightarrow> u32 \<Rightarrow> pmem \<Rightarrow> pmem" where
  "modify_or_del_pte env ops vpn1 vaddr vaddr_end prot_set prot_clr type m =
    modify_pte_loop ops prot_set prot_clr type (vpn_to_vaddr env m vpn1) (pte_index vaddr) vaddr vaddr_end m"

text \<open>
  As for the additions, \<open>modify_loop\<close> is the loop of the two middle levels; a
  large page is changed whole, or split and changed below.
\<close>

function modify_loop :: "(nat \<Rightarrow> u64 \<Rightarrow> u64 \<Rightarrow> u64 \<Rightarrow> pmem \<Rightarrow> pmem) \<Rightarrow> u64 \<Rightarrow> u64 \<Rightarrow>
    nat \<Rightarrow> nat \<Rightarrow> u64 \<Rightarrow> u64 \<Rightarrow> pmem \<Rightarrow> pmem" where
  "modify_loop entry msk sz page index vaddr vaddr_end m =
    (if index < PG_TABLE_ENTRIES
     then
       let vaddr_next = (vaddr AND msk) + sz;
           m = entry (page + 8 * index) vaddr vaddr_end vaddr_next m
       in if vaddr_next \<ge> vaddr_end then m
          else modify_loop entry msk sz page (index + 1) vaddr_next vaddr_end m
     else m)"
  by pat_completeness auto
termination by (relation "measure (\<lambda>(entry, msk, sz, page, index, _). PG_TABLE_ENTRIES - index)") auto

declare modify_loop.simps [simp del]

definition modify_vpn1_entry ::
  "pt_env \<Rightarrow> memory_ops \<Rightarrow> u64 \<Rightarrow> u64 \<Rightarrow> u32 \<Rightarrow> nat \<Rightarrow> u64 \<Rightarrow> u64 \<Rightarrow> u64 \<Rightarrow> pmem \<Rightarrow> pmem" where
  "modify_vpn1_entry env ops prot_set prot_clr type vpn1 vaddr vaddr_end vaddr_next m =
    (if pgentry_present ops (m vpn1) = 0 then m
     else if vpn_large (m vpn1) \<and> \<not> (vaddr_next > vaddr_end \<or> \<not> mem_aligned_check vaddr VPN1_SIZE)
     then local_modify_or_del_pte vpn1 prot_set prot_clr type m
     else
       let m = (if vpn_large (m vpn1) then split_large_page env ops vpn1 VPN1 vaddr m else m)
       in modify_or_del_pte env ops vpn1 vaddr vaddr_end prot_set prot_clr type m)"

definition modify_or_del_vpn1 ::
  "pt_env \<Rightarrow> memory_ops \<Rightarrow> nat \<Rightarrow> u64 \<Rightarrow> u64 \<Rightarrow> u64 \<Rightarrow> u64 \<Rightarrow> u32 \<Rightarrow> pmem \<Rightarrow> pmem" where
  "modify_or_del_vpn1 env ops vpn2 vaddr vaddr_end prot_set prot_clr type m =
    modify_loop (modify_vpn1_entry env ops prot_set prot_clr type) VPN1_MASK VPN1_SIZE
      (vpn_to_vaddr env m vpn2) (vpn1_index vaddr) vaddr vaddr_end m"

definition modify_vpn2_entry ::
  "pt_env \<Rightarrow> memory_ops \<Rightarrow> u64 \<Rightarrow> u64 \<Rightarrow> u32 \<Rightarrow> nat \<Rightarrow> u64 \<Rightarrow> u64 \<Rightarrow> u64 \<Rightarrow> pmem \<Rightarrow> pmem" where
  "modify_vpn2_entry env ops prot_set prot_clr type vpn2 vaddr vaddr_end vaddr_next m =
    (if pgentry_present ops (m vpn2) = 0 then m
     else if vpn_large (m vpn2) \<and> \<not> (vaddr_next > vaddr_end \<or> \<not> mem_aligned_check vaddr VPN2_SIZE)
     then local_modify_or_del_pte vpn2 prot_set prot_clr type m
     else
       let m = (if vpn_large (m vpn2) then split_large_page env ops vpn2 VPN3 vaddr m else m)
       in modify_or_del_vpn1 env ops vpn2 vaddr vaddr_end prot_set prot_clr type m)"

definition modify_or_del_vpn2 ::
  "pt_env \<Rightarrow> memory_ops \<Rightarrow> nat \<Rightarrow> u64 \<Rightarrow> u64 \<Rightarrow> u64 \<Rightarrow> u64 \<Rightarrow> u32 \<Rightarrow> pmem \<Rightarrow> pmem" where
  "modify_or_del_vpn2 env ops vpn3 vaddr vaddr_end prot_set prot_clr type m =
    modify_loop (modify_vpn2_entry env ops prot_set prot_clr type) VPN2_MASK VPN2_SIZE
      (vpn_to_vaddr env m vpn3) (vpn2_index vaddr) vaddr vaddr_end m"

text \<open>The assertion of the first branch is empty in release builds: the loop does not advance then.\<close>

partial_function (option) mmu_modify_loop ::
  "pt_env \<Rightarrow> memory_ops \<Rightarrow> nat \<Rightarrow> u64 \<Rightarrow> u64 \<Rightarrow> u32 \<Rightarrow> u64 \<Rightarrow> u64 \<Rightarrow> pmem \<Rightarrow> pmem option" where
  "mmu_modify_loop env ops vpn3_page prot_set prot_clr type vaddr vaddr_end m =
    (if vaddr < vaddr_end
     then
       let vaddr_next = (vaddr AND VPN3_MASK) + VPN3_SIZE;
           vpn3 = vpn3_offset vpn3_page vaddr
       in if pgentry_present ops (m vpn3) = 0 \<and> type = MR_MODIFY
          then mmu_modify_loop env ops vpn3_page prot_set prot_clr type vaddr vaddr_end m
          else mmu_modify_loop env ops vpn3_page prot_set prot_clr type vaddr_next vaddr_end
                 (modify_or_del_vpn2 env ops vpn3 vaddr vaddr_end prot_set prot_clr type m)
     else Some m)"

declare mmu_modify_loop.simps [code]

definition mmu_modify_or_del ::
  "pt_env \<Rightarrow> memory_ops \<Rightarrow> nat \<Rightarrow> u64 \<Rightarrow> u64 \<Rightarrow> u64 \<Rightarrow> u64 \<Rightarrow> u32 \<Rightarrow> pmem \<Rightarrow> pmem option" where
  "mmu_modify_or_del env ops vpn3_page vaddr_base sz prot_set prot_clr type m =
    (let vaddr = round_page_up vaddr_base
     in mmu_modify_loop env ops vpn3_page prot_set prot_clr type vaddr (vaddr + round_page_down sz) m)"

end
