(* ===== verification/Page_Map.thy ===== *)
theory Page_Map
  imports Pgtable
begin

text \<open>
  What the page tables translate, and that \<open>mmu_add\<close> adds exactly the mapping it
  is asked for.

  The pages of a table come from pools indexed by the mapped address, so the
  tables of one level form a flat array: the entry of level \<open>l\<close> for the address
  \<open>a\<close> is cell \<open>a div 2 ^ shift l\<close> of its pool.  The locale \<open>page_alloc\<close> is the
  contract of \<open>struct memory_ops\<close> that this rests on.
\<close>

subsection \<open>Words and blocks\<close>

definition shift :: "nat \<Rightarrow> nat" where
  "shift l = 12 + 9 * l"

lemma shift_simps [simp]: "shift 0 = 12" "shift (Suc 0) = 21" "shift (Suc (Suc 0)) = 30" "shift 2 = 30" "shift 3 = 39"
  by (simp_all add: shift_def)

lemma shift_Suc: "2 ^ shift (Suc l) = 512 * (2 ^ shift l :: nat)"
  by (simp add: shift_def power_add)

lemma unat_drop_bit: "unat (drop_bit k (a :: u64)) = unat a div 2 ^ k"
proof -
  have "unat (drop_bit k a) = drop_bit k (take_bit 64 (unat a))"
    by (simp only: unsigned_drop_bit_eq) simp
  also have "take_bit 64 (unat a) = unat a"
    using unsigned_less [of a, where 'a = nat] by (simp add: take_bit_nat_eq_self)
  finally show ?thesis by (simp add: drop_bit_eq_div)
qed

lemma unat_take_bit: "unat (take_bit k (a :: u64)) = unat a mod 2 ^ k"
  by (simp only: unsigned_take_bit_eq) (simp only: take_bit_eq_mod)

lemma unat_push_bit: "unat a * 2 ^ k < 2 ^ 64 \<Longrightarrow> unat (push_bit k (a :: u64)) = unat a * 2 ^ k"
  by (simp only: unsigned_push_bit_eq) (simp add: push_bit_eq_mult take_bit_nat_eq_self)

lemma unat_and_not_mask:
  assumes "k < 64"
  shows "unat ((a :: u64) AND NOT (push_bit k 1 - 1)) = unat a div 2 ^ k * 2 ^ k"
proof -
  have "a AND NOT (push_bit k 1 - 1) = push_bit k (drop_bit k a)"
    by (intro bit_eqI) (auto simp: bit_simps mask_eq_exp_minus_1 [symmetric] push_bit_of_1)
  also have "unat \<dots> = unat a div 2 ^ k * 2 ^ k"
  proof -
    have "unat a div 2 ^ k * 2 ^ k < 2 ^ 64"
      using le_less_trans [OF div_times_less_eq_dividend unsigned_less [of a, where 'a = nat]] by simp
    thus ?thesis using unat_push_bit [of "drop_bit k a" k] by (simp only: unat_drop_bit)
  qed
  finally show ?thesis .
qed

lemma unat_index: "unat (drop_bit k (a :: u64) AND 511) = unat a div 2 ^ k mod 512"
proof -
  have "drop_bit k a AND 511 = take_bit 9 (drop_bit k a)" by (simp add: take_bit_eq_mask mask_eq_exp_minus_1)
  thus ?thesis by (simp only: unat_take_bit unat_drop_bit) simp
qed

lemma aligned_dvd: "k < 64 \<Longrightarrow> mem_aligned_check v (push_bit k 1) \<longleftrightarrow> 2 ^ k dvd unat v"
proof -
  assume "k < 64"
  have "v AND (push_bit k 1 - 1) = take_bit k v" by (simp add: take_bit_eq_mask mask_eq_exp_minus_1 push_bit_of_1)
  hence "unat (v AND (push_bit k 1 - 1)) = unat v mod 2 ^ k" by (simp only: unat_take_bit)
  thus ?thesis unfolding mem_aligned_check_def by (metis dvd_eq_mod_eq_0 unsigned_eq_0_iff)
qed

lemma next_block:
  assumes "k < 48" "unat (a :: u64) < 2 ^ 48"
  shows "unat ((a AND NOT (push_bit k 1 - 1)) + push_bit k 1) = (unat a div 2 ^ k + 1) * 2 ^ k"
proof -
  have "unat a div 2 ^ k * 2 ^ k < 2 ^ 48"
    using le_less_trans [OF div_times_less_eq_dividend assms(2)] .
  moreover have "(2::nat) ^ k < 2 ^ 48" using assms(1) by (intro power_strict_increasing) simp_all
  moreover have "unat (push_bit k 1 :: u64) = 2 ^ k"
    using calculation(2) unat_push_bit [of 1 k] by simp
  ultimately have "unat ((a AND NOT (push_bit k 1 - 1)) + push_bit k 1) = unat a div 2 ^ k * 2 ^ k + 2 ^ k"
    using unat_and_not_mask [of k a] assms by (subst unat_add_no_wrap) simp_all
  thus ?thesis by simp
qed

lemma level_words:
  "PTE_SIZE = push_bit (shift 0) 1" "VPN1_SIZE = push_bit (shift 1) 1" "VPN2_SIZE = push_bit (shift 2) 1"
  "VPN3_SIZE = push_bit (shift 3) 1"
  by (simp_all add: PTE_SIZE_def VPN1_SIZE_def VPN2_SIZE_def VPN3_SIZE_def)

subsection \<open>Entries\<close>

definition present :: "u64 \<Rightarrow> bool" where
  "present e \<longleftrightarrow> e AND PAGE_V \<noteq> 0"

definition entry_pa :: "u64 \<Rightarrow> nat" where
  "entry_pa e = 4096 * unat (pgtable_get_mfn e)"

abbreviation table_entry :: "pt_env \<Rightarrow> nat \<Rightarrow> u64" where
  "table_entry env p \<equiv> pte_of_memaddr env (of_nat p) True"

abbreviation leaf_entry :: "pt_env \<Rightarrow> u64 \<Rightarrow> u64" where
  "leaf_entry env pa \<equiv> pte_of_memaddr env pa False OR (PAGE_U OR PAGE_X)"

lemma pte_bits:
  "bit (pte_of_memaddr env va t) n \<longleftrightarrow> n = 0 \<or> (\<not> t \<and> (n = 1 \<or> n = 2)) \<or>
    (10 \<le> n \<and> n < 54 \<and> bit (drop_bit 12 (va + phys_offset env)) (n - 10))"
proof -
  have "bit (7 :: u64) n \<longleftrightarrow> n < 3" using bit_mask_iff [of 3 n, where 'a = u64] by (auto simp: mask_eq_exp_minus_1)
  moreover have "bit (1 :: u64) n \<longleftrightarrow> n = 0" by (simp add: bit_1_iff)
  ultimately show ?thesis
    by (auto simp: pte_of_memaddr_def mfn_to_acrn_entry_def PAGE_ATTR_PMA_def bit_simps)
qed

lemma pte_low [simp]:
  "present (pte_of_memaddr env va t)" "vpn_large (pte_of_memaddr env va True) = False"
  "present (leaf_entry env pa)" "vpn_large (leaf_entry env pa)"
proof -
  have v: "present e \<longleftrightarrow> bit e 0" for e by (simp add: present_def PAGE_V_def and_one_eq odd_iff_mod_2_eq_one [symmetric] bit_0)
  show "present (pte_of_memaddr env va t)" "present (leaf_entry env pa)" by (simp_all add: v pte_bits bit_or_iff)
  have m: "bit (e AND PAGE_TYPE_MASK) n \<longleftrightarrow> bit e n \<and> n < 4" for e n
    using bit_mask_iff [of 4 n, where 'a = u64]
    by (auto simp: PAGE_TYPE_MASK_def bit_and_iff mask_eq_exp_minus_1)
  have "pte_of_memaddr env va True AND PAGE_TYPE_MASK = PAGE_TYPE_TABLE"
    by (intro bit_eqI) (auto simp: m pte_bits PAGE_TYPE_TABLE_def PAGE_V_def bit_1_iff)
  thus "vpn_large (pte_of_memaddr env va True) = False" by (simp add: vpn_large_def)
  have "bit (leaf_entry env pa AND PAGE_TYPE_MASK) 1" "\<not> bit PAGE_TYPE_TABLE 1"
    by (simp_all add: m pte_bits bit_or_iff PAGE_TYPE_TABLE_def PAGE_V_def bit_1_iff)
  hence "leaf_entry env pa AND PAGE_TYPE_MASK \<noteq> PAGE_TYPE_TABLE" by metis
  moreover have "leaf_entry env pa AND PAGE_V \<noteq> 0"
    using \<open>present (leaf_entry env pa)\<close> by (simp add: present_def)
  ultimately show "vpn_large (leaf_entry env pa)" by (simp add: vpn_large_def)
qed

lemma pte_mfn:
  assumes "unat pa + unat (phys_offset env) < 2 ^ 56"
  shows "unat (pgtable_get_mfn (pte_of_memaddr env pa t)) = (unat pa + unat (phys_offset env)) div 4096"
    "unat (pgtable_get_mfn (leaf_entry env pa)) = (unat pa + unat (phys_offset env)) div 4096"
proof -
  define f where "f = drop_bit 12 (pa + phys_offset env)"
  have f: "unat f = (unat pa + unat (phys_offset env)) div 4096"
    using assms by (simp add: f_def unat_drop_bit unat_add_no_wrap)
  have b: "bit (pgtable_get_mfn e) n \<longleftrightarrow> n < 44 \<and> bit e (n + 10)" for e n
    by (auto simp: pgtable_get_mfn_def bit_simps add.commute)
  have "pgtable_get_mfn (pte_of_memaddr env pa t) = take_bit 44 f"
    by (intro bit_eqI) (auto simp: b pte_bits bit_take_bit_iff f_def)
  moreover have "pgtable_get_mfn (leaf_entry env pa) = take_bit 44 f"
  proof (intro bit_eqI)
    fix n
    have "PAGE_U OR PAGE_X = take_bit 5 0x18" by (simp add: PAGE_U_def PAGE_X_def)
    hence "\<not> bit (PAGE_U OR PAGE_X) (n + 10)" by (simp only: bit_take_bit_iff) simp
    thus "bit (pgtable_get_mfn (leaf_entry env pa)) n = bit (take_bit 44 f) n"
      by (auto simp: b bit_or_iff [of "pte_of_memaddr env pa False"] pte_bits bit_take_bit_iff f_def)
  qed
  moreover have "take_bit 44 f = f"
  proof -
    have "unat f < 2 ^ 44" using assms f by (simp add: less_mult_imp_div_less)
    hence "unat (take_bit 44 f) = unat f" by (simp add: unat_take_bit)
    thus ?thesis by (simp only: word_unat_eq_iff)
  qed
  ultimately show "unat (pgtable_get_mfn (pte_of_memaddr env pa t)) = (unat pa + unat (phys_offset env)) div 4096"
    "unat (pgtable_get_mfn (leaf_entry env pa)) = (unat pa + unat (phys_offset env)) div 4096"
    using f by simp_all
qed

text \<open>A page of the pools: aligned, in the hypervisor image, at a physical address that an entry can hold.\<close>

definition page_ok :: "pt_env \<Rightarrow> nat \<Rightarrow> bool" where
  "page_ok env p \<longleftrightarrow> 4096 dvd p \<and> is_kernel env (of_nat p) \<and> p + unat (phys_offset env) < 2 ^ 44 \<and>
    4096 dvd unat (phys_offset env)"

lemma table_entry_vaddr:
  assumes "page_ok env p" "m e = table_entry env p"
  shows "vpn_to_vaddr env m e = p"
proof -
  define off where "off = unat (phys_offset env)"
  have p: "4096 dvd p" "is_kernel env (of_nat p)" "p + off < 2 ^ 44" "4096 dvd off"
    using assms(1) by (auto simp: page_ok_def off_def)
  have up: "unat (of_nat p :: u64) = p" using p(3) by (simp add: unsigned_of_nat take_bit_nat_eq_self)
  have mfn: "unat (pgtable_get_mfn (m e)) = (p + off) div 4096"
    using pte_mfn(1) [of "of_nat p" env True] assms(2) p(3) up by (simp add: off_def)
  have mul: "(p + off) div 4096 * 4096 = p + off" using p(1,4) by simp
  have "unat (push_bit 12 (pgtable_get_mfn (m e))) = p + off"
    using unat_push_bit [of "pgtable_get_mfn (m e)" 12] mfn mul p(3) by simp
  hence hpa: "push_bit 12 (pgtable_get_mfn (m e)) = of_nat p + phys_offset env"
    using p(3) up by (simp add: word_unat_eq_iff unat_add_no_wrap off_def)
  moreover have "push_bit 12 (pgtable_get_mfn (m e)) AND VPN1_PFN_MASK = push_bit 12 (pgtable_get_mfn (m e))"
  proof -
    have "unat (take_bit 36 (pgtable_get_mfn (m e))) = unat (pgtable_get_mfn (m e))"
      using mfn p(3) by (simp add: unat_take_bit)
    hence "pgtable_get_mfn (m e) AND mask 36 = pgtable_get_mfn (m e)" by (simp add: word_unat_eq_iff take_bit_eq_mask)
    moreover have "VPN1_PFN_MASK = push_bit 12 (mask 36)" by (simp add: VPN1_PFN_MASK_def mask_eq_exp_minus_1)
    ultimately show ?thesis by (metis push_bit_and)
  qed
  ultimately show ?thesis using p(2) up by (simp add: vpn_to_vaddr_def hpa2hva_def)
qed

subsection \<open>The pools as arrays of entries\<close>

record pools =
  pbase :: "nat \<Rightarrow> nat"
  ptop :: nat

abbreviation cell :: "pools \<Rightarrow> nat \<Rightarrow> nat \<Rightarrow> nat" where
  "cell P l a \<equiv> pbase P l + 8 * (a div 2 ^ shift l)"

text \<open>The table page of level \<open>l\<close> that holds the entry for \<open>a\<close>.\<close>

abbreviation table_page :: "pools \<Rightarrow> nat \<Rightarrow> nat \<Rightarrow> nat" where
  "table_page P l a \<equiv> pbase P l + 4096 * (a div 2 ^ shift (Suc l))"

definition pool_area :: "pools \<Rightarrow> nat \<Rightarrow> nat set" where
  "pool_area P l = {pbase P l..<pbase P l + 4096 * ((ptop P - 1) div 2 ^ shift (Suc l) + 1)}"

definition pool_layout :: "pt_env \<Rightarrow> pools \<Rightarrow> bool" where
  "pool_layout env P \<longleftrightarrow> 0 < ptop P \<and> ptop P \<le> 2 ^ 48 \<and>
    (\<forall>l < 4. \<forall>k < 4. l \<noteq> k \<longrightarrow> pool_area P l \<inter> pool_area P k = {}) \<and>
    (\<forall>l < 3. \<forall>a < ptop P. page_ok env (table_page P l a))"

definition clear_page :: "nat \<Rightarrow> pmem \<Rightarrow> pmem" where
  "clear_page p m = (\<lambda>a. if p \<le> a \<and> a < p + 4096 then 0 else m a)"

lemma eight_times: "8 * q = 4096 * (q div 512) + 8 * (q mod 512)" for q :: nat
proof -
  have "8 * q = 8 * (512 * (q div 512) + q mod 512)" by (simp only: mult_div_mod_eq)
  thus ?thesis by (simp only: distrib_left mult.assoc [symmetric])
qed

lemma cell_page: "cell P l a = table_page P l a + 8 * (a div 2 ^ shift l mod 512)"
proof -
  have "a div 2 ^ shift (Suc l) = a div 2 ^ shift l div 512"
    by (simp add: shift_Suc mult.commute div_mult2_eq)
  thus ?thesis using eight_times [of "a div 2 ^ shift l"] by simp
qed

lemma page_in_area: "a < ptop P \<Longrightarrow> x < 4096 \<Longrightarrow> table_page P l a + x \<in> pool_area P l"
proof -
  assume a: "a < ptop P" and x: "x < 4096"
  have "a div 2 ^ shift (Suc l) \<le> (ptop P - 1) div 2 ^ shift (Suc l)" using a by (intro div_le_mono) simp
  thus ?thesis using x by (simp add: pool_area_def)
qed

lemma cell_in_area: "a < ptop P \<Longrightarrow> cell P l a \<in> pool_area P l"
proof -
  assume a: "a < ptop P"
  have "8 * (a div 2 ^ shift l mod 512) < 4096" by simp
  from page_in_area [OF a this, of l] show ?thesis by (simp only: cell_page)
qed

lemma cell_eq:
  assumes "pool_layout env P" "l < 4" "k < 4" "a < ptop P" "b < ptop P"
  shows "cell P l a = cell P k b \<longleftrightarrow> l = k \<and> a div 2 ^ shift l = b div 2 ^ shift l"
proof (cases "l = k")
  case False
  hence "pool_area P l \<inter> pool_area P k = {}" using assms by (simp add: pool_layout_def)
  thus ?thesis using cell_in_area [of a P l] cell_in_area [of b P k] assms False by auto
qed simp

lemma clear_page_cell:
  assumes "pool_layout env P" "l < 4" "k < 4" "a < ptop P" "b < ptop P"
  shows "clear_page (table_page P l a) m (cell P k b)
    = (if l = k \<and> a div 2 ^ shift (Suc l) = b div 2 ^ shift (Suc l) then 0 else m (cell P k b))"
proof (cases "l = k")
  case True
  define r where "r = b div 2 ^ shift l mod 512"
  have r: "r < 512" by (simp add: r_def)
  have c: "cell P l b = table_page P l b + 8 * r" unfolding r_def by (rule cell_page)
  define x y where "x = a div 2 ^ shift (Suc l)" and "y = b div 2 ^ shift (Suc l)"
  have "table_page P l a \<le> cell P l b \<and> cell P l b < table_page P l a + 4096 \<longleftrightarrow> x = y"
    unfolding c x_def [symmetric] y_def [symmetric] using r by auto
  thus ?thesis using True by (simp add: clear_page_def x_def y_def)
next
  case False
  have "\<not> (table_page P l a \<le> cell P k b \<and> cell P k b < table_page P l a + 4096)"
  proof
    assume h: "table_page P l a \<le> cell P k b \<and> cell P k b < table_page P l a + 4096"
    hence "table_page P l a + (cell P k b - table_page P l a) \<in> pool_area P l"
      using assms by (intro page_in_area) auto
    hence "cell P k b \<in> pool_area P l" using h by simp
    moreover have "cell P k b \<in> pool_area P k" using assms by (intro cell_in_area)
    moreover have "pool_area P l \<inter> pool_area P k = {}" using assms False by (simp add: pool_layout_def)
    ultimately show False by blast
  qed
  thus ?thesis using False by (auto simp: clear_page_def)
qed

subsection \<open>Translation\<close>

text \<open>The physical address that the tables from level \<open>l\<close> down give for \<open>a\<close>.\<close>

fun walk :: "pools \<Rightarrow> pmem \<Rightarrow> nat \<Rightarrow> nat \<Rightarrow> nat option" where
  "walk P m 0 a = (let e = m (cell P 0 a) in if present e then Some (entry_pa e + a mod 2 ^ shift 0) else None)"
| "walk P m (Suc l) a =
    (let e = m (cell P (Suc l) a)
     in if \<not> present e then None
        else if vpn_large e then Some (entry_pa e + a mod 2 ^ shift (Suc l))
        else walk P m l a)"

abbreviation translate :: "pools \<Rightarrow> pmem \<Rightarrow> nat \<Rightarrow> nat option" where
  "translate P m a \<equiv> walk P m 3 a"

text \<open>The walk for \<open>a\<close> passes through tables on all levels above \<open>l\<close>.\<close>

definition reach :: "pools \<Rightarrow> pmem \<Rightarrow> nat \<Rightarrow> nat \<Rightarrow> bool" where
  "reach P m l a \<longleftrightarrow> (\<forall>k. l < k \<longrightarrow> k \<le> 3 \<longrightarrow> present (m (cell P k a)) \<and> \<not> vpn_large (m (cell P k a)))"

definition pt_inv :: "pt_env \<Rightarrow> pools \<Rightarrow> pmem \<Rightarrow> bool" where
  "pt_inv env P m \<longleftrightarrow> (\<forall>a < ptop P. \<forall>l \<le> 3. 0 < l \<longrightarrow> reach P m l a \<longrightarrow> present (m (cell P l a)) \<longrightarrow>
    (l = 3 \<longrightarrow> \<not> vpn_large (m (cell P l a))) \<and>
    (\<not> vpn_large (m (cell P l a)) \<longrightarrow> m (cell P l a) = table_entry env (table_page P (l - 1) a)))"

lemma reach_3 [simp]: "reach P m 3 a"
  by (auto simp: reach_def)

lemma pt_inv_top: "pt_inv env P m \<Longrightarrow> a < ptop P \<Longrightarrow> \<not> vpn_large (m (cell P 3 a))"
proof
  assume h: "pt_inv env P m" "a < ptop P" "vpn_large (m (cell P 3 a))"
  hence "present (m (cell P 3 a))" by (simp add: vpn_large_def present_def)
  moreover have "(0::nat) < 3" "(3::nat) \<le> 3" by simp_all
  ultimately show False using h reach_3 unfolding pt_inv_def by blast
qed

lemma reach_Suc: "reach P m l a \<longleftrightarrow> l \<ge> 3 \<or> (reach P m (Suc l) a \<and> present (m (cell P (Suc l) a)) \<and> \<not> vpn_large (m (cell P (Suc l) a)))"
proof (cases "l \<ge> 3")
  case False
  have "l < k \<longleftrightarrow> k = Suc l \<or> Suc l < k" for k by auto
  thus ?thesis using False by (auto simp: reach_def)
qed (auto simp: reach_def)

lemma walk_reach: "reach P m l a \<Longrightarrow> l \<le> 3 \<Longrightarrow> translate P m a = walk P m l a"
proof (induction "3 - l" arbitrary: l)
  case 0
  thus ?case by simp
next
  case (Suc n)
  have "reach P m (Suc l) a" "present (m (cell P (Suc l) a))" "\<not> vpn_large (m (cell P (Suc l) a))"
    using Suc.prems Suc.hyps(2) reach_Suc [of P m l a] by auto
  moreover have "translate P m a = walk P m (Suc l) a"
    using Suc.hyps(1) [of "Suc l"] Suc.hyps(2) calculation(1) by (simp del: walk.simps)
  ultimately show ?case by simp
qed

text \<open>Translation looks at the cells for the address only.\<close>

lemma walk_cong: "(\<And>k. k \<le> l \<Longrightarrow> m' (cell P k a) = m (cell P k a)) \<Longrightarrow> walk P m' l a = walk P m l a"
  by (induction l) (simp_all add: Let_def)

lemma reach_cong: "(\<And>k. l < k \<Longrightarrow> k \<le> 3 \<Longrightarrow> m' (cell P k a) = m (cell P k a)) \<Longrightarrow> reach P m' l a = reach P m l a"
  by (simp add: reach_def)

lemma entry_pa_leaf:
  assumes "unat pa + unat (phys_offset env) < 2 ^ 56" "4096 dvd unat pa" "4096 dvd unat (phys_offset env)"
  shows "entry_pa (leaf_entry env pa) = unat pa + unat (phys_offset env)"
  using assms pte_mfn(2) [OF assms(1)] by (simp add: entry_pa_def)

text \<open>The effect of a step that maps the part of \<open>[va, ve)\<close> below \<open>b\<close> and touches the levels up to \<open>l\<close>.\<close>

definition outside_pools :: "pools \<Rightarrow> nat \<Rightarrow> bool" where
  "outside_pools P x \<longleftrightarrow> (\<forall>l < 4. x \<notin> pool_area P l)"

definition maps :: "pt_env \<Rightarrow> pools \<Rightarrow> nat \<Rightarrow> nat \<Rightarrow> nat \<Rightarrow> nat \<Rightarrow> nat \<Rightarrow> pmem \<Rightarrow> pmem \<Rightarrow> bool" where
  "maps env P l b pa va ve m m' \<longleftrightarrow> pt_inv env P m' \<and> (\<forall>x. outside_pools P x \<longrightarrow> m' x = m x) \<and>
    (\<forall>a < ptop P. \<forall>k \<le> 3. l < k \<longrightarrow> m' (cell P k a) = m (cell P k a)) \<and>
    (\<forall>a < ptop P. translate P m' a =
      (if va \<le> a \<and> a < ve \<and> a < b \<and> translate P m a = None
       then Some (pa + unat (phys_offset env) + (a - va)) else translate P m a))"

lemma maps_trans:
  assumes 1: "maps env P l b pa va ve m m1" and 2: "maps env P l b' (pa + (b - va)) b ve m1 m2" and "va \<le> b" "b \<le> b'"
  shows "maps env P l b' pa va ve m m2"
proof -
  have "translate P m2 a = (if va \<le> a \<and> a < ve \<and> a < b' \<and> translate P m a = None
       then Some (pa + unat (phys_offset env) + (a - va)) else translate P m a)" if "a < ptop P" for a
  proof -
    have t1: "translate P m1 a = (if va \<le> a \<and> a < ve \<and> a < b \<and> translate P m a = None
       then Some (pa + unat (phys_offset env) + (a - va)) else translate P m a)" using 1 that by (simp add: maps_def)
    have t2: "translate P m2 a = (if b \<le> a \<and> a < ve \<and> a < b' \<and> translate P m1 a = None
       then Some (pa + (b - va) + unat (phys_offset env) + (a - b)) else translate P m1 a)" using 2 that by (simp add: maps_def)
    have "pa + (b - va) + x + (a - b) = pa + x + (a - va)" if "b \<le> a" for x using that assms(3) by simp
    thus ?thesis unfolding t2 t1 using assms(3,4) by auto
  qed
  thus ?thesis using 1 2 by (simp add: maps_def)
qed

lemma maps_reach: "maps env P l b pa va ve m m' \<Longrightarrow> a < ptop P \<Longrightarrow> reach P m' l a = reach P m l a"
  by (rule reach_cong) (simp add: maps_def)

subsection \<open>Single steps\<close>

definition block_end :: "nat \<Rightarrow> nat \<Rightarrow> nat" where
  "block_end l a = (a div 2 ^ shift l + 1) * 2 ^ shift l"

lemma block_end_iff: "a < block_end l va \<and> va div 2 ^ shift l * 2 ^ shift l \<le> a \<longleftrightarrow> a div 2 ^ shift l = va div 2 ^ shift l"
proof -
  define n where "n = (2::nat) ^ shift l"
  have "0 < n" by (simp add: n_def)
  have "a div n = q \<longleftrightarrow> q * n \<le> a \<and> a < (q + 1) * n" for q
  proof
    assume "q * n \<le> a \<and> a < (q + 1) * n"
    thus "a div n = q" by (intro div_nat_eqI) (simp_all add: mult.commute)
  qed (use \<open>0 < n\<close> dividend_less_div_times [of n a] div_times_less_eq_dividend [of a n] in auto)
  thus ?thesis by (auto simp: block_end_def n_def)
qed

lemma same_block_up: "a div 2 ^ shift l = va div 2 ^ shift l \<Longrightarrow> l \<le> k \<Longrightarrow> a div 2 ^ shift k = (va :: nat) div 2 ^ shift k"
proof -
  assume h: "a div 2 ^ shift l = va div 2 ^ shift l" "l \<le> k"
  have "shift k = shift l + 9 * (k - l)" using h(2) by (simp add: shift_def)
  hence "x div 2 ^ shift k = x div 2 ^ shift l div 2 ^ (9 * (k - l))" for x :: nat
    by (simp add: power_add div_mult2_eq)
  thus ?thesis using h(1) by simp
qed

lemma leaf_step:
  assumes L: "pool_layout env P" and inv: "pt_inv env P m" and l: "l \<le> 2" and r: "reach P m l va"
    and np: "\<not> present (m (cell P l va))" and va: "2 ^ shift l dvd va" "block_end l va \<le> ve" "ve \<le> ptop P"
    and pa: "unat pa + unat (phys_offset env) < 2 ^ 56" "4096 dvd unat pa" "4096 dvd unat (phys_offset env)"
  shows "maps env P l (block_end l va) (unat pa) va ve m (m(cell P l va := leaf_entry env pa))"
proof -
  let ?m = "m(cell P l va := leaf_entry env pa)"
  have vat: "va < block_end l va" using block_end_iff [of va l va] by simp
  hence vat: "va < ptop P" "va < block_end l va" using va(2,3) by auto
  have c: "?m (cell P k a) = (if k = l \<and> a div 2 ^ shift l = va div 2 ^ shift l then leaf_entry env pa else m (cell P k a))"
    if "k \<le> 3" "a < ptop P" for k a
    using cell_eq [OF L, of k l a va] that l vat by auto
  have blk: "va \<le> a \<and> a < block_end l va \<longleftrightarrow> a div 2 ^ shift l = va div 2 ^ shift l" for a
    using block_end_iff [of a l va] va(1) by auto
  have high: "m (cell P k a) = m (cell P k va)" if "a div 2 ^ shift l = va div 2 ^ shift l" "l \<le> k" for k a
    using same_block_up [OF that] by simp
  have tr: "translate P ?m a = (if va \<le> a \<and> a < ve \<and> a < block_end l va \<and> translate P m a = None
      then Some (unat pa + unat (phys_offset env) + (a - va)) else translate P m a)" if a: "a < ptop P" for a
  proof (cases "a div 2 ^ shift l = va div 2 ^ shift l")
    case True
    hence "reach P m l a" using r high [OF True] by (simp add: reach_def)
    moreover from this have "reach P ?m l a" using reach_cong [of l ?m P a m] c a by simp
    ultimately have t: "translate P m a = walk P m l a" "translate P ?m a = walk P ?m l a"
      using walk_reach l by auto
    have "\<not> present (m (cell P l a))" using np high [OF True, of l] by simp
    hence "walk P m l a = None" by (cases l) (simp_all add: Let_def)
    moreover have "walk P ?m l a = Some (entry_pa (leaf_entry env pa) + a mod 2 ^ shift l)"
      using c [of l a] a True l by (cases l) (auto simp: Let_def)
    moreover have "a mod 2 ^ shift l = a - va"
      using True va(1) by (metis dvd_div_mult_self minus_div_mult_eq_mod)
    ultimately show ?thesis using t blk [of a] True va(2) entry_pa_leaf [OF pa] by auto
  next
    case False
    hence "walk P ?m 3 a = walk P m 3 a" using c a by (intro walk_cong) auto
    thus ?thesis using blk [of a] False by auto
  qed
  moreover have "pt_inv env P ?m"
    unfolding pt_inv_def
  proof (intro allI impI)
    fix a k assume a: "a < ptop P" "k \<le> 3" "0 < k" "reach P ?m k a" "present (?m (cell P k a))"
    show "(k = 3 \<longrightarrow> \<not> vpn_large (?m (cell P k a))) \<and>
      (\<not> vpn_large (?m (cell P k a)) \<longrightarrow> ?m (cell P k a) = table_entry env (table_page P (k - 1) a))"
    proof (cases "k = l \<and> a div 2 ^ shift l = va div 2 ^ shift l")
      case True
      thus ?thesis using c [of k a] a l by auto
    next
      case False
      have "reach P m k a"
      proof (cases "k < l \<and> a div 2 ^ shift l = va div 2 ^ shift l")
        case True
        hence "vpn_large (?m (cell P l a))" using c [of l a] a l by auto
        moreover have "k < l" "l \<le> 3" using True l by auto
        hence "\<not> vpn_large (?m (cell P l a))" using a(4) unfolding reach_def by blast
        ultimately show ?thesis by contradiction
      next
        case False': False
        have "?m (cell P j a) = m (cell P j a)" if "k < j" "j \<le> 3" for j
          using c [of j a] that a False' by auto
        thus ?thesis using a(4) reach_cong [of k ?m P a m] by blast
      qed
      moreover have e: "?m (cell P k a) = m (cell P k a)" using c [of k a] a False by auto
      ultimately show ?thesis using inv a(1,2,3,5) unfolding e pt_inv_def by blast
    qed
  qed
  moreover have "l < 4" using l by simp
  hence "\<not> outside_pools P (cell P l va)" using cell_in_area [OF vat(1), of l] unfolding outside_pools_def by blast
  ultimately show ?thesis using c by (auto simp: maps_def)
qed

lemma table_step:
  assumes L: "pool_layout env P" and inv: "pt_inv env P m" and l: "0 < l" "l \<le> 3" and r: "reach P m l va"
    and np: "\<not> present (m (cell P l va))" and va: "va < ptop P"
  defines "p \<equiv> table_page P (l - 1) va"
  defines "m' \<equiv> (clear_page p m)(cell P l va := table_entry env p)"
  shows "pt_inv env P m'" "\<And>a. a < ptop P \<Longrightarrow> translate P m' a = translate P m a"
    "\<And>a k. a < ptop P \<Longrightarrow> k \<le> 3 \<Longrightarrow> l < k \<Longrightarrow> m' (cell P k a) = m (cell P k a)" "reach P m' (l - 1) va"
proof -
  have c: "m' (cell P k a) = (if k = l \<and> a div 2 ^ shift l = va div 2 ^ shift l then table_entry env p
      else if k = l - 1 \<and> a div 2 ^ shift l = va div 2 ^ shift l then 0 else m (cell P k a))"
    if "k \<le> 3" "a < ptop P" for k a
    using cell_eq [OF L, of k l a va] clear_page_cell [OF L, of "l - 1" k va a m] that l va
    unfolding m'_def p_def by auto
  have high: "m (cell P k a) = m (cell P k va)" if "a div 2 ^ shift l = va div 2 ^ shift l" "l \<le> k" for k a
    using same_block_up [OF that] by simp
  have reach_in: "reach P m l a" if "a div 2 ^ shift l = va div 2 ^ shift l" for a
    using r high [OF that] by (simp add: reach_def)
  have rl: "reach P m' k a = reach P m k a" if "l \<le> k" "a < ptop P" for k a
    using c that by (intro reach_cong) auto
  show up: "\<And>a k. a < ptop P \<Longrightarrow> k \<le> 3 \<Longrightarrow> l < k \<Longrightarrow> m' (cell P k a) = m (cell P k a)" using c by auto
  show "translate P m' a = translate P m a" if a: "a < ptop P" for a
  proof (cases "a div 2 ^ shift l = va div 2 ^ shift l")
    case True
    have "translate P m a = walk P m l a" "translate P m' a = walk P m' l a"
      using walk_reach [OF reach_in [OF True]] walk_reach [of P m' l a] reach_in [OF True] rl [of l a] a l by auto
    moreover obtain k where k: "l = Suc k" using l by (cases l) auto
    have "walk P m l a = None" using np high [OF True] k by auto
    moreover have "walk P m' k a = None" using c [of k a] a True k l by (cases k) (auto simp: present_def Let_def)
    hence "walk P m' l a = None" using c [of l a] a True k l by (auto simp: Let_def)
    ultimately show ?thesis by simp
  next
    case False
    thus ?thesis using c a by (intro walk_cong) auto
  qed
  show "reach P m' (l - 1) va"
    using reach_Suc [of P m' "l - 1" va] rl [of l va] r c [of l va] va l by auto
  show "pt_inv env P m'"
    unfolding pt_inv_def
  proof (intro allI impI)
    fix a k assume a: "a < ptop P" "k \<le> 3" "0 < k" "reach P m' k a" "present (m' (cell P k a))"
    show "(k = 3 \<longrightarrow> \<not> vpn_large (m' (cell P k a))) \<and>
      (\<not> vpn_large (m' (cell P k a)) \<longrightarrow> m' (cell P k a) = table_entry env (table_page P (k - 1) a))"
    proof (cases "a div 2 ^ shift l = va div 2 ^ shift l \<and> k \<le> l")
      case True
      consider "k = l" | "k = l - 1" "k \<noteq> l" | "k < l - 1" using True by linarith
      thus ?thesis
      proof cases
        case 1
        have "a div 2 ^ shift (Suc (l - 1)) = va div 2 ^ shift (Suc (l - 1))" using True l by simp
        thus ?thesis using c [of k a] a 1 True by (auto simp: p_def)
      next
        case 2
        thus ?thesis using c [of k a] a True by (auto simp: present_def)
      next
        case 3
        hence "present (m' (cell P (l - 1) a))" using a(4) l by (simp add: reach_def)
        moreover have "l - 1 \<noteq> l" using l by simp
        hence "m' (cell P (l - 1) a) = 0" using c [of "l - 1" a] a(1) True l(2) by simp
        ultimately show ?thesis by (simp add: present_def)
      qed
    next
      case False
      have "m' (cell P j a) = m (cell P j a)" if "k \<le> j" "j \<le> 3" for j
        using c [of j a] that a False by auto
      hence "reach P m k a" and e: "m' (cell P k a) = m (cell P k a)"
        using a(2,4) reach_cong [of k m' P a m] by auto
      thus ?thesis using inv a(1,2,3,5) unfolding e pt_inv_def by blast
    qed
  qed
qed

subsection \<open>The contract of the page allocators\<close>

text \<open>A range to be mapped.\<close>

definition range_ok :: "pt_env \<Rightarrow> nat \<Rightarrow> u64 \<Rightarrow> u64 \<Rightarrow> u64 \<Rightarrow> bool" where
  "range_ok env lim paddr vaddr vaddr_end \<longleftrightarrow> vaddr < vaddr_end \<and> unat vaddr_end \<le> lim \<and>
    4096 dvd unat vaddr \<and> 4096 dvd unat vaddr_end \<and> 4096 dvd unat paddr \<and> 4096 dvd unat (phys_offset env) \<and>
    unat paddr + unat (phys_offset env) + (unat vaddr_end - unat vaddr) < 2 ^ 56"

lemma block_end_0: "4096 dvd va \<Longrightarrow> block_end 0 va = va + 4096"
  by (auto simp: block_end_def)

lemma maps_same:
  "pt_inv env P m \<Longrightarrow> (\<And>a. a < ptop P \<Longrightarrow> va \<le> a \<Longrightarrow> a < b \<Longrightarrow> translate P m a \<noteq> None) \<Longrightarrow> maps env P l b pa va ve m m"
  by (simp add: maps_def del: not_None_eq) blast

lemma maps_bound: "maps env P l b pa va ve m m' \<Longrightarrow> ve \<le> b \<Longrightarrow> b \<le> b' \<Longrightarrow> maps env P l b' pa va ve m m'"
  unfolding maps_def by (auto split: if_splits)

lemma reach_block:
  assumes "a div 2 ^ shift (Suc l) = va div 2 ^ shift (Suc l)"
  shows "reach P m l a = reach P m l va"
proof -
  have "a div 2 ^ shift k = va div 2 ^ shift k" if "l < k" for k using same_block_up [OF assms] that by simp
  thus ?thesis by (simp add: reach_def)
qed

lemma block_index:
  fixes va l
  defines "i \<equiv> va div 2 ^ shift l mod 512" and "b \<equiv> block_end l va"
  shows "i = 511 \<Longrightarrow> block_end (Suc l) va = b"
    "i \<noteq> 511 \<Longrightarrow> b div 2 ^ shift (Suc l) = va div 2 ^ shift (Suc l) \<and> b div 2 ^ shift l mod 512 = i + 1"
proof -
  define n q where "n = (2::nat) ^ shift l" and "q = va div n"
  have n: "0 < n" by (simp add: n_def)
  have S: "(2::nat) ^ shift (Suc l) = n * 512" by (simp add: shift_Suc n_def)
  have b: "b = Suc q * n" by (simp add: b_def block_end_def n_def q_def)
  have bq: "b div n = Suc q" using n by (simp add: b)
  have "q < 512 * (q div 512) + 512" using mod_less_divisor [of 512 q] mult_div_mod_eq [of 512 q] by linarith
  show "i = 511 \<Longrightarrow> block_end (Suc l) va = b"
  proof -
    assume "i = 511"
    hence "q mod 512 = 511" by (simp add: i_def q_def n_def)
    hence "Suc q = (q div 512 + 1) * 512" using mult_div_mod_eq [of 512 q] by simp
    hence "b = (q div 512 + 1) * 512 * n" by (simp only: b)
    thus ?thesis unfolding block_end_def S div_mult2_eq q_def by (simp only: mult.assoc mult.commute [of n])
  qed
  assume "i \<noteq> 511"
  hence "q mod 512 \<noteq> 511" by (simp add: i_def q_def n_def)
  hence "Suc q mod 512 = Suc (q mod 512)" "Suc q div 512 = q div 512"
    using mod_less_divisor [of 512 q] by (auto simp: mod_Suc div_Suc)
  thus "b div 2 ^ shift (Suc l) = va div 2 ^ shift (Suc l) \<and> b div 2 ^ shift l mod 512 = i + 1"
    unfolding S div_mult2_eq n_def [symmetric] bq i_def q_def [symmetric] by simp
qed

lemma maps_mono: "maps env P k b pa va ve m m' \<Longrightarrow> k \<le> l \<Longrightarrow> maps env P l b pa va ve m m'"
  by (simp add: maps_def)

lemma block_end_le: "va < block_end l va" "block_end l va \<le> block_end (Suc l) va"
proof -
  show "va < block_end l va" using block_end_iff [of va l va] by simp
  define n where "n = (2::nat) ^ shift l"
  have "va div n < 512 * (va div n div 512) + 512"
    using mod_less_divisor [of 512 "va div n"] mult_div_mod_eq [of 512 "va div n"] by linarith
  hence "(va div n + 1) * n \<le> (va div (n * 512) + 1) * 512 * n"
    unfolding div_mult2_eq by (intro mult_le_mono1) simp
  thus "block_end l va \<le> block_end (Suc l) va"
    unfolding block_end_def shift_Suc n_def [symmetric] by (simp only: mult.assoc mult.commute [of n])
qed

lemma maps_cons:
  assumes step: "maps env P l (block_end l va) pa va ve m m1"
    and stop: "ve \<le> block_end l va \<or> va div 2 ^ shift l mod 512 = 511 \<Longrightarrow> m' = m1"
    and go: "block_end l va < ve \<Longrightarrow> va div 2 ^ shift l mod 512 \<noteq> 511 \<Longrightarrow>
      maps env P l (block_end (Suc l) (block_end l va)) (pa + (block_end l va - va)) (block_end l va) ve m1 m'"
  shows "maps env P l (block_end (Suc l) va) pa va ve m m'"
proof -
  consider "ve \<le> block_end l va" | "va div 2 ^ shift l mod 512 = 511"
    | "block_end l va < ve" "va div 2 ^ shift l mod 512 \<noteq> 511" by linarith
  thus ?thesis
  proof cases
    case 1
    thus ?thesis using maps_bound [OF step _ block_end_le(2)] stop by simp
  next
    case 2
    thus ?thesis using step stop block_index(1) [of va l] by simp
  next
    case 3
    have "block_end (Suc l) (block_end l va) = block_end (Suc l) va"
      using block_index(2) [OF 3(2)] by (simp add: block_end_def)
    thus ?thesis using maps_trans [OF step] go [OF 3] block_end_le [where va = va and l = l] by simp
  qed
qed

lemma maps_covered:
  assumes inv: "pt_inv env P m" and r: "reach P m l va" and l: "l \<le> 3" and va: "2 ^ shift l dvd va \<or> 0 < l"
    and e: "present (m (cell P l va))" "l = 0 \<or> vpn_large (m (cell P l va))"
  shows "maps env P l (block_end l va) pa va ve m m"
proof (rule maps_same [OF inv])
  fix a assume a: "va \<le> a" "a < block_end l va"
  have "va div 2 ^ shift l * 2 ^ shift l \<le> a" using a(1) div_times_less_eq_dividend [of va "2 ^ shift l"] by linarith
  hence blk: "a div 2 ^ shift l = va div 2 ^ shift l" using a block_end_iff [of a l va] by simp
  have "reach P m l a" using r reach_block [OF same_block_up [OF blk, of "Suc l"]] by simp
  moreover have "walk P m l a \<noteq> None" using e blk by (cases l) (simp_all add: Let_def)
  ultimately show "translate P m a \<noteq> None" using walk_reach l by simp
qed

text \<open>An entry above the leaves: a missing table is filled in first, then the level below maps the range.\<close>

lemma clear_page_outside:
  assumes "outside_pools P x" "a < ptop P" "l < 4"
  shows "clear_page (table_page P l a) m x = m x"
proof -
  have "x \<notin> pool_area P l" using assms by (simp add: outside_pools_def)
  moreover have "x \<in> pool_area P l" if "table_page P l a \<le> x \<and> x < table_page P l a + 4096"
  proof -
    have "x - table_page P l a < 4096" "table_page P l a + (x - table_page P l a) = x" using that by linarith+
    thus ?thesis using page_in_area [OF assms(2), of "x - table_page P l a" l] by simp
  qed
  ultimately have "\<not> (table_page P l a \<le> x \<and> x < table_page P l a + 4096)" by blast
  thus ?thesis by (simp only: clear_page_def if_False)
qed

lemma maps_table:
  assumes L: "pool_layout env P" and inv: "pt_inv env P m" and l: "0 < l" "l \<le> 3" and r: "reach P m l va"
    and va: "va < ptop P" and e: "\<not> vpn_large (m (cell P l va))"
  defines "p \<equiv> table_page P (l - 1) va"
  defines "m1 \<equiv> (if present (m (cell P l va)) then m else (clear_page p m)(cell P l va := table_entry env p))"
  shows "pt_inv env P m1" "reach P m1 (l - 1) va" "vpn_to_vaddr env m1 (cell P l va) = p"
    "maps env P (l - 1) b pa va ve m1 m2 \<Longrightarrow> maps env P l b pa va ve m m2"
proof -
  have "l - 1 < 3" using l by simp
  hence pg: "page_ok env p" using L va unfolding pool_layout_def p_def by blast
  have all: "pt_inv env P m1 \<and> reach P m1 (l - 1) va \<and> m1 (cell P l va) = table_entry env p \<and>
      (\<forall>a < ptop P. translate P m1 a = translate P m a) \<and>
      (\<forall>a < ptop P. \<forall>k \<le> 3. l < k \<longrightarrow> m1 (cell P k a) = m (cell P k a))"
  proof (cases "present (m (cell P l va))")
    case True
    hence "m (cell P l va) = table_entry env p" using inv va l r e by (simp add: pt_inv_def p_def)
    thus ?thesis using True inv r e l reach_Suc [of P m "l - 1" va] by (simp add: m1_def)
  next
    case False
    thus ?thesis using table_step [OF L inv l r False va] by (simp add: m1_def p_def)
  qed
  show "pt_inv env P m1" "reach P m1 (l - 1) va" using all by auto
  show "vpn_to_vaddr env m1 (cell P l va) = p" using all table_entry_vaddr [OF pg] by blast
  have "m1 x = m x" if "outside_pools P x" for x
  proof -
    have "x \<noteq> cell P l va" using that l cell_in_area [OF va, of l] by (auto simp: outside_pools_def)
    moreover have "clear_page p m x = m x" unfolding p_def using that va l by (intro clear_page_outside) auto
    ultimately show ?thesis by (simp add: m1_def)
  qed
  thus "maps env P (l - 1) b pa va ve m1 m2 \<Longrightarrow> maps env P l b pa va ve m m2"
    using all by (simp add: maps_def)
qed

lemma range_step:
  assumes ro: "range_ok env lim paddr vaddr ve" and lim: "lim \<le> 2 ^ 48" and vn: "unat vn = block_end l (unat vaddr)" "vn < ve"
  shows "range_ok env lim (paddr + (vn - vaddr)) vn ve"
    "unat (paddr + (vn - vaddr)) = unat paddr + (block_end l (unat vaddr) - unat vaddr)"
proof -
  have le: "vaddr \<le> vn" using vn(1) block_end_le(1) [where va = "unat vaddr" and l = l] by (simp add: word_le_nat_alt)
  have lt: "unat vn < unat ve" using vn(2) by (simp add: word_less_nat_alt)
  have d: "unat (vn - vaddr) = unat vn - unat vaddr" using le by (simp add: unat_sub)
  have sum: "unat paddr + (unat vn - unat vaddr) < 2 ^ 56" using ro lt by (auto simp: range_ok_def)
  show u: "unat (paddr + (vn - vaddr)) = unat paddr + (block_end l (unat vaddr) - unat vaddr)"
    using sum by (subst unat_add_no_wrap) (simp_all add: d vn(1))
  have "(4096::nat) dvd 2 ^ shift l" by (simp add: shift_def power_add)
  hence al: "4096 dvd unat vn" by (simp add: vn(1) block_end_def)
  show "range_ok env lim (paddr + (vn - vaddr)) vn ve"
    unfolding range_ok_def u vn(1) [symmetric]
    using ro lt al le vn(2) by (auto simp: range_ok_def word_le_nat_alt)
qed

lemma table_loop_maps:
  assumes l: "l \<le> 2" and L: "pool_layout env P"
    and entry: "\<And>prot m paddr vaddr vn. pt_inv env P m \<Longrightarrow> reach P m l (unat vaddr) \<Longrightarrow>
        range_ok env (ptop P) paddr vaddr ve \<Longrightarrow> unat vn = block_end l (unat vaddr) \<Longrightarrow>
        maps env P l (block_end l (unat vaddr)) (unat paddr) (unat vaddr) (unat ve) m
          (snd (entry (cell P l (unat vaddr)) paddr vaddr ve vn (prot, m)))"
    and "pt_inv env P (snd st)" "reach P (snd st) l (unat vaddr)" "range_ok env (ptop P) paddr vaddr ve"
    and "page = table_page P l (unat vaddr)" "index = unat vaddr div 2 ^ shift l mod 512"
  shows "maps env P l (block_end (Suc l) (unat vaddr)) (unat paddr) (unat vaddr) (unat ve) (snd st)
    (snd (table_loop entry (NOT (push_bit (shift l) 1 - 1)) (push_bit (shift l) 1) page index paddr vaddr ve st))"
  using assms(4-)
proof (induction "512 - index" arbitrary: st index paddr vaddr)
  case 0
  hence "512 \<le> unat vaddr div 2 ^ shift l mod 512" by simp
  thus ?case by (meson mod_less_divisor not_le zero_less_numeral)
next
  case (Suc n)
  let ?loop = "table_loop entry (NOT (push_bit (shift l) 1 - 1)) (push_bit (shift l) 1) page"
  define va vn where "va = unat vaddr" and "vn = (vaddr AND NOT (push_bit (shift l) 1 - 1)) + push_bit (shift l) 1"
  define st1 where "st1 = entry (cell P l va) paddr vaddr ve vn st"
  have tp: "ptop P \<le> 2 ^ 48" using L by (simp add: pool_layout_def)
  have va: "va < ptop P" using Suc.prems(3) by (auto simp: range_ok_def word_less_nat_alt va_def)
  have vn: "unat vn = block_end l va"
    unfolding vn_def va_def block_end_def using l va tp by (intro next_block) (simp_all add: shift_def va_def)
  have step: "maps env P l (block_end l va) (unat paddr) va (unat ve) (snd st) (snd st1)"
    using entry [of "snd st" vaddr paddr vn "fst st"] Suc.prems vn by (simp add: st1_def va_def)
  have un: "?loop index paddr vaddr ve st = (if ve \<le> vn then st1 else ?loop (index + 1) (paddr + (vn - vaddr)) vn ve st1)"
  proof -
    have "page + 8 * index = cell P l va" using Suc.prems(4,5) cell_page [of P l va] by (simp only: va_def)
    moreover have "index < 512" using Suc.hyps(2) by simp
    ultimately show ?thesis
      by (subst table_loop.simps) (simp add: PG_TABLE_ENTRIES_def Let_def vn_def st1_def)
  qed
  show ?case
    unfolding va_def [symmetric]
  proof (rule maps_cons [OF step])
    show "snd (?loop index paddr vaddr ve st) = snd st1" if "unat ve \<le> block_end l va \<or> va div 2 ^ shift l mod 512 = 511"
    proof (cases "ve \<le> vn")
      case False
      hence "index = 511" using that vn Suc.prems(5) by (auto simp: word_le_nat_alt va_def)
      thus ?thesis unfolding un by (subst table_loop.simps) (simp add: PG_TABLE_ENTRIES_def)
    qed (simp only: un if_True)
    assume lt: "block_end l va < unat ve" and i: "va div 2 ^ shift l mod 512 \<noteq> 511"
    have vl: "vn < ve" using lt vn by (simp add: word_less_nat_alt)
    note rs = range_step [OF Suc.prems(3) tp vn [unfolded va_def] vl]
    have blk: "block_end l va div 2 ^ shift (Suc l) = va div 2 ^ shift (Suc l)"
      "block_end l va div 2 ^ shift l mod 512 = index + 1" using block_index(2) [OF i] Suc.prems(5) by (auto simp: va_def)
    have "maps env P l (block_end (Suc l) (unat vn)) (unat (paddr + (vn - vaddr))) (unat vn) (unat ve) (snd st1)
        (snd (?loop (index + 1) (paddr + (vn - vaddr)) vn ve st1))"
    proof (rule Suc.hyps(1))
      show "reach P (snd st1) l (unat vn)"
        using maps_reach [OF step, of va] va Suc.prems(2) reach_block [OF blk(1), of P "snd st1"]
        by (simp add: vn va_def)
    qed (use Suc.hyps(2) Suc.prems(4) step rs blk vn in \<open>auto simp: maps_def va_def\<close>)
    thus "maps env P l (block_end (Suc l) (block_end l va)) (unat paddr + (block_end l va - va)) (block_end l va) (unat ve)
        (snd st1) (snd (?loop index paddr vaddr ve st))"
      using vl rs(2) vn unfolding un by (simp add: va_def not_le [symmetric])
  qed
qed

text \<open>The loop over the leaves has the same shape, for pages that are aligned.\<close>

definition pte_entry :: "pt_env \<Rightarrow> memory_ops \<Rightarrow> nat \<Rightarrow> u64 \<Rightarrow> u64 \<Rightarrow> u64 \<Rightarrow> u64 \<Rightarrow> u64 \<times> pmem \<Rightarrow> u64 \<times> pmem" where
  "pte_entry env ops pte paddr vaddr vaddr_end vaddr_next st =
    (fst st, if pgentry_present ops (snd st pte) \<noteq> 0 then snd st else construct_pte env pte paddr (fst st) (snd st))"

lemma pte_entry_pair: "pte_entry env ops pte paddr vaddr ve vn (prot, m) =
    (prot, if pgentry_present ops (m pte) \<noteq> 0 then m else construct_pte env pte paddr prot m)"
  by (simp add: pte_entry_def)

lemma add_pte_loop_table:
  assumes "take_bit 12 vaddr = 0"
  shows "add_pte_loop env ops prot page index paddr vaddr ve m =
    snd (table_loop (pte_entry env ops) (NOT (push_bit 12 1 - 1)) (push_bit 12 1) page index paddr vaddr ve (prot, m))"
  using assms
proof (induction env ops prot page index paddr vaddr ve m rule: add_pte_loop.induct)
  case (1 env ops prot page index paddr vaddr ve m)
  have "vaddr AND NOT (mask 12) = push_bit 12 (drop_bit 12 vaddr)"
    by (intro bit_eqI) (auto simp: bit_simps)
  also have "\<dots> = vaddr" using 1(2) bits_ident [of 12 vaddr] by simp
  finally have al: "vaddr AND NOT (push_bit 12 1 - 1) = vaddr"
    by (simp add: mask_eq_exp_minus_1 push_bit_of_1)
  have "unat vaddr mod 4096 = 0" using 1(2) unat_take_bit [of 12 vaddr] by simp
  moreover have "unat (vaddr + 4096) mod 4096 = (unat vaddr + 4096) mod 4096"
    unfolding unat_word_ariths by (subst mod_mod_cancel) simp_all
  ultimately have "unat (take_bit 12 (vaddr + 4096)) = 0" by (simp only: unat_take_bit) simp
  hence tb: "take_bit 12 (vaddr + 4096) = 0" by (simp only: unsigned_eq_0_iff)
  show ?case
    using 1(1) [OF _ refl refl] tb al
    by (subst add_pte_loop.simps, subst table_loop.simps) (simp add: Let_def pte_entry_pair PTE_SIZE_def)
qed

text \<open>One entry of a middle level.\<close>

lemma level_entry_maps:
  assumes L: "pool_layout env P" and inv: "pt_inv env P m" and l: "0 < l" "l \<le> 2" and r: "reach P m l (unat vaddr)"
    and ro: "range_ok env (ptop P) paddr vaddr ve"
    and big: "big \<Longrightarrow> 2 ^ shift l dvd unat vaddr \<and> block_end l (unat vaddr) \<le> unat ve"
    and child: "\<And>m1. pt_inv env P m1 \<Longrightarrow> reach P m1 (l - 1) (unat vaddr) \<Longrightarrow>
      vpn_to_vaddr env m1 (cell P l (unat vaddr)) = table_page P (l - 1) (unat vaddr) \<Longrightarrow>
      maps env P (l - 1) (block_end l (unat vaddr)) (unat paddr) (unat vaddr) (unat ve) m1 (child m1)"
    and res: "m2 = (let c = cell P l (unat vaddr); p = table_page P (l - 1) (unat vaddr)
      in if vpn_large (m c) then m
         else if \<not> present (m c)
         then if big then m(c := leaf_entry env paddr) else child ((clear_page p m)(c := table_entry env p))
         else child m)"
  shows "maps env P l (block_end l (unat vaddr)) (unat paddr) (unat vaddr) (unat ve) m m2"
proof -
  have va: "unat vaddr < ptop P" using ro by (auto simp: range_ok_def word_less_nat_alt)
  have l3: "l \<le> 3" using l by simp
  consider "vpn_large (m (cell P l (unat vaddr)))"
    | "\<not> vpn_large (m (cell P l (unat vaddr)))" "\<not> present (m (cell P l (unat vaddr)))" "big"
    | "\<not> vpn_large (m (cell P l (unat vaddr)))" "present (m (cell P l (unat vaddr))) \<or> \<not> big" by blast
  thus ?thesis
  proof cases
    case 1
    thus ?thesis using maps_covered [OF inv r l3] l by (auto simp: res Let_def vpn_large_def present_def)
  next
    case 2
    have "unat paddr + unat (phys_offset env) < 2 ^ 56" "4096 dvd unat paddr" "4096 dvd unat (phys_offset env)"
      "unat ve \<le> ptop P" using ro by (auto simp: range_ok_def)
    thus ?thesis using leaf_step [OF L inv l(2) r 2(2)] big [OF 2(3)] 2 by (simp add: res Let_def)
  next
    case 3
    note mt = maps_table [OF L inv l(1) l3 r va 3(1)]
    show ?thesis
      using mt(4) [OF child [OF mt(1,2,3)]] 3 by (auto simp: res Let_def split: if_splits)
  qed
qed

locale page_alloc =
  fixes ops :: memory_ops and pb :: "nat \<Rightarrow> nat"
  assumes present_law: "pgentry_present ops e = e AND PAGE_V"
    and pdpt_law: "get_pdpt_page ops (info ops) a m = (let p = pb 2 + 4096 * (unat a div 2 ^ 39) in (p, clear_page p m))"
    and pd_law: "get_pd_page ops (info ops) a m = (let p = pb 1 + 4096 * (unat a div 2 ^ 30) in (p, clear_page p m))"
    and pt_law: "get_pt_page ops (info ops) a m = (let p = pb 0 + 4096 * (unat a div 2 ^ 21) in (p, clear_page p m))"
begin

lemma not_present: "pgentry_present ops e = 0 \<longleftrightarrow> \<not> present e"
  by (simp add: present_law present_def)

lemma add_pte_maps:
  assumes L: "pool_layout env P" and inv: "pt_inv env P m" "reach P m 0 (unat vaddr)"
    and ro: "range_ok env (ptop P) paddr vaddr ve" and page: "vpn_to_vaddr env m vpn1 = table_page P 0 (unat vaddr)"
  shows "maps env P 0 (block_end 1 (unat vaddr)) (unat paddr) (unat vaddr) (unat ve) m
    (add_pte env ops vpn1 paddr vaddr ve prot m)"
proof -
  have entry: "maps env P 0 (block_end 0 (unat v)) (unat pa) (unat v) (unat ve) m
      (snd (pte_entry env ops (cell P 0 (unat v)) pa v ve vn (prot, m)))"
    if h: "pt_inv env P m" "reach P m 0 (unat v)" "range_ok env (ptop P) pa v ve" for m v vn pa prot
  proof -
    have al: "2 ^ shift 0 dvd unat v" "block_end 0 (unat v) \<le> unat ve"
      using h(3) by (auto simp: range_ok_def block_end_0 word_less_nat_alt elim!: dvdE)
    have "unat pa + unat (phys_offset env) < 2 ^ 56" "4096 dvd unat pa" "4096 dvd unat (phys_offset env)"
      "unat ve \<le> ptop P" using h(3) by (auto simp: range_ok_def)
    thus ?thesis
      using maps_covered [OF h(1,2)] leaf_step [OF L h(1) _ h(2) _ al] al(1) not_present
      by (simp add: pte_entry_pair construct_pte_def)
  qed
  have "4096 dvd unat vaddr" using ro by (simp add: range_ok_def)
  hence "unat (take_bit 12 vaddr) = 0" by (simp only: unat_take_bit) simp
  hence tb: "take_bit 12 vaddr = 0" by (simp only: unsigned_eq_0_iff)
  show ?thesis
    using table_loop_maps [of 0 env P ve "pte_entry env ops" "(prot, m)" vaddr paddr] entry L inv ro page
    by (simp add: add_pte_def add_pte_loop_table [OF tb] pte_index_def unat_index)
qed

lemma add_vpn1_entry_maps:
  assumes pb: "pbase P = pb" and L: "pool_layout env P" and inv: "pt_inv env P m" "reach P m 1 (unat vaddr)"
    and ro: "range_ok env (ptop P) paddr vaddr ve" and vn: "unat vn = block_end 1 (unat vaddr)"
  shows "maps env P 1 (block_end 1 (unat vaddr)) (unat paddr) (unat vaddr) (unat ve) m
    (snd (add_vpn1_entry env ops (cell P 1 (unat vaddr)) paddr vaddr ve vn (prot, m)))"
proof (rule level_entry_maps [OF L inv(1) _ _ inv(2) ro])
  let ?big = "large_page_support ops VPN1 \<and> mem_aligned_check paddr VPN1_SIZE \<and>
    mem_aligned_check vaddr VPN1_SIZE \<and> vn \<le> ve"
  show "2 ^ shift 1 dvd unat vaddr \<and> block_end 1 (unat vaddr) \<le> unat ve" if ?big
    using that vn aligned_dvd [of 21 vaddr] by (simp add: VPN1_SIZE_def word_le_nat_alt)
  show "maps env P (1 - 1) (block_end 1 (unat vaddr)) (unat paddr) (unat vaddr) (unat ve) m1
      (add_pte env ops (cell P 1 (unat vaddr)) paddr vaddr ve prot m1)"
    if "pt_inv env P m1" "reach P m1 (1 - 1) (unat vaddr)"
      "vpn_to_vaddr env m1 (cell P 1 (unat vaddr)) = table_page P (1 - 1) (unat vaddr)" for m1
    using add_pte_maps [OF L that(1) _ ro] that by simp
qed (simp_all add: add_vpn1_entry_def Let_def not_present pt_law construct_pgentry_def construct_pte_def flip: pb)

lemma add_vpn1_maps:
  assumes pb: "pbase P = pb" and L: "pool_layout env P" and inv: "pt_inv env P m" "reach P m 1 (unat vaddr)"
    and ro: "range_ok env (ptop P) paddr vaddr ve" and page: "vpn_to_vaddr env m vpn2 = table_page P 1 (unat vaddr)"
  shows "maps env P 1 (block_end 2 (unat vaddr)) (unat paddr) (unat vaddr) (unat ve) m
    (add_vpn1 env ops vpn2 paddr vaddr ve prot m)"
  using table_loop_maps [of 1 env P ve "add_vpn1_entry env ops" "(prot, m)" vaddr paddr] add_vpn1_entry_maps [OF pb L]
    L inv ro page
  by (simp add: add_vpn1_def VPN1_MASK_def VPN1_SIZE_def vpn1_index_def unat_index numeral_2_eq_2)

lemma add_vpn2_entry_maps:
  assumes pb: "pbase P = pb" and L: "pool_layout env P" and inv: "pt_inv env P m" "reach P m 2 (unat vaddr)"
    and ro: "range_ok env (ptop P) paddr vaddr ve" and vn: "unat vn = block_end 2 (unat vaddr)"
  shows "maps env P 2 (block_end 2 (unat vaddr)) (unat paddr) (unat vaddr) (unat ve) m
    (snd (add_vpn2_entry env ops (cell P 2 (unat vaddr)) paddr vaddr ve vn (prot, m)))"
proof (rule level_entry_maps [OF L inv(1) _ _ inv(2) ro])
  let ?big = "large_page_support ops VPN2 \<and> mem_aligned_check paddr VPN2_SIZE \<and>
    mem_aligned_check vaddr VPN2_SIZE \<and> vn \<le> ve"
  show "2 ^ shift 2 dvd unat vaddr \<and> block_end 2 (unat vaddr) \<le> unat ve" if ?big
    using that vn aligned_dvd [of 30 vaddr] by (simp add: VPN2_SIZE_def word_le_nat_alt)
  show "maps env P (2 - 1) (block_end 2 (unat vaddr)) (unat paddr) (unat vaddr) (unat ve) m1
      (add_vpn1 env ops (cell P 2 (unat vaddr)) paddr vaddr ve prot m1)"
    if "pt_inv env P m1" "reach P m1 (2 - 1) (unat vaddr)"
      "vpn_to_vaddr env m1 (cell P 2 (unat vaddr)) = table_page P (2 - 1) (unat vaddr)" for m1
    using add_vpn1_maps [OF pb L that(1) _ ro] that by simp
qed (simp_all add: add_vpn2_entry_def Let_def not_present pd_law construct_pgentry_def construct_pte_def flip: pb)

lemma add_vpn2_maps:
  assumes pb: "pbase P = pb" and L: "pool_layout env P" and inv: "pt_inv env P m" "reach P m 2 (unat vaddr)"
    and ro: "range_ok env (ptop P) paddr vaddr ve" and page: "vpn_to_vaddr env m vpn3 = table_page P 2 (unat vaddr)"
  shows "maps env P 2 (block_end 3 (unat vaddr)) (unat paddr) (unat vaddr) (unat ve) m
    (add_vpn2 env ops vpn3 paddr vaddr ve prot m)"
  using table_loop_maps [of 2 env P ve "add_vpn2_entry env ops" "(prot, m)" vaddr paddr] add_vpn2_entry_maps [OF pb L]
    L inv ro page
  by (simp add: add_vpn2_def VPN2_MASK_def VPN2_SIZE_def vpn2_index_def unat_index)

lemma mmu_add_loop_done: "ve \<le> vaddr \<Longrightarrow> mmu_add_loop env ops page prot paddr vaddr ve m = Some m"
  by (subst mmu_add_loop.simps) (simp add: leD)

text \<open>The loop over the top level ends, and maps the whole range.\<close>

lemma mmu_add_loop_maps:
  assumes pb: "pbase P = pb" and L: "pool_layout env P" and "pt_inv env P m" "range_ok env (ptop P) paddr vaddr ve"
  shows "\<exists>m'. mmu_add_loop env ops (pb 3) prot paddr vaddr ve m = Some m' \<and>
    maps env P 3 (unat ve) (unat paddr) (unat vaddr) (unat ve) m m'"
  using assms(3,4)
proof (induction "unat ve - unat vaddr" arbitrary: m paddr vaddr rule: less_induct)
  case less
  define va vn where "va = unat vaddr" and "vn = (vaddr AND VPN3_MASK) + VPN3_SIZE"
  have tp: "ptop P \<le> 2 ^ 48" using L by (simp add: pool_layout_def)
  have lt: "vaddr < ve" and va: "va < ptop P"
    using less.prems(2) by (auto simp: range_ok_def word_less_nat_alt va_def)
  have vn: "unat vn = block_end 3 va"
    using next_block [of 39 vaddr] va tp by (simp add: vn_def block_end_def VPN3_MASK_def VPN3_SIZE_def va_def)
  have "va div 2 ^ 39 < 512" using va tp by (simp add: less_mult_imp_div_less)
  hence c: "vpn3_offset (pb 3) vaddr = cell P 3 va"
    by (simp add: vpn3_offset_def vpn3_index_def unat_index pb va_def)
  define m1 where "m1 = (if present (m (cell P 3 va)) then m
    else (clear_page (table_page P (3 - 1) va) m)(cell P 3 va := table_entry env (table_page P (3 - 1) va)))"
  note mt = maps_table [OF L less.prems(1) _ _ reach_3 va pt_inv_top [OF less.prems(1) va], folded m1_def, simplified]
  let ?m2 = "add_vpn2 env ops (cell P 3 va) paddr vaddr ve prot m1"
  have un: "mmu_add_loop env ops (pb 3) prot paddr vaddr ve m
      = mmu_add_loop env ops (pb 3) prot (paddr + (vn - vaddr)) vn ve ?m2"
    using lt by (subst mmu_add_loop.simps)
      (simp add: Let_def c [folded pb] not_present pdpt_law construct_pgentry_def m1_def va_def vn_def cong: if_cong flip: pb)
  have step: "maps env P 3 (block_end 3 va) (unat paddr) va (unat ve) m ?m2"
    using mt(4) add_vpn2_maps [OF pb L mt(1) _ less.prems(2), of "cell P 3 va" prot] mt(2,3) by (simp add: va_def)
  show ?case
  proof (cases "vn < ve")
    case True
    note rs = range_step [OF less.prems(2) tp vn [unfolded va_def] True]
    have "unat ve - unat vn < unat ve - unat vaddr"
      using True vn block_end_le(1) [where va = va and l = 3] lt by (simp add: word_less_nat_alt va_def)
    from less.hyps [OF this _ rs(1), of ?m2] step obtain m' where
      "mmu_add_loop env ops (pb 3) prot (paddr + (vn - vaddr)) vn ve ?m2 = Some m'"
      "maps env P 3 (unat ve) (unat (paddr + (vn - vaddr))) (unat vn) (unat ve) ?m2 m'"
      by (auto simp: maps_def)
    thus ?thesis
      using un maps_trans [OF step, of "unat ve" m'] rs(2) vn True block_end_le(1) [where va = va and l = 3]
      by (auto simp: va_def word_less_nat_alt)
  next
    case False
    hence "unat ve \<le> block_end 3 va" using vn by (simp add: word_less_nat_alt)
    hence "maps env P 3 (unat ve) (unat paddr) va (unat ve) m ?m2"
      using step unfolding maps_def by (auto split: if_splits)
    thus ?thesis using un mmu_add_loop_done False by (simp add: va_def)
  qed
qed

text \<open>\<open>lookup_address\<close> finds the leaf that translation ends in.\<close>

lemma lookup_address_walk:
  assumes pb: "pbase P = pb" and L: "pool_layout env P" and inv: "pt_inv env P m" and a: "unat a < ptop P"
  shows "translate P m (unat a) = map_option (\<lambda>(p, sz). entry_pa (m p) + unat a mod unat sz)
    (lookup_address env ops (pb 3) a m)"
proof -
  define va where "va = unat a"
  have tp: "ptop P \<le> 2 ^ 48" using L by (simp add: pool_layout_def)
  have va: "va < ptop P" using a by (simp add: va_def)
  have "va div 2 ^ 39 < 512" using va tp by (simp add: less_mult_imp_div_less)
  hence c3: "vpn3_offset (pb 3) a = cell P 3 va"
    by (simp add: vpn3_offset_def vpn3_index_def unat_index pb va_def)
  have tab: "vpn_to_vaddr env m (cell P l va) = table_page P (l - 1) va"
    if "0 < l" "l \<le> 3" "reach P m l va" "present (m (cell P l va))" "\<not> vpn_large (m (cell P l va))" for l
    using maps_table(3) [OF L inv that(1,2,3) va that(5)] that(4) by simp
  have nl: "\<not> vpn_large (m (cell P 3 va))"
    using pt_inv_top [OF inv va] .
  have c2: "vpn2_offset env m (cell P 3 va) a = cell P 2 va" "reach P m 2 va" if "present (m (cell P 3 va))"
    using tab [of 3] that nl cell_page [of P 2 va] reach_Suc [of P m 2 va]
    by (simp_all add: vpn2_offset_def vpn2_index_def unat_index va_def)
  have c1: "vpn1_offset env m (cell P 2 va) a = cell P 1 va" "reach P m 1 va"
    if "present (m (cell P 3 va))" "present (m (cell P 2 va))" "\<not> vpn_large (m (cell P 2 va))"
    using tab [of 2] that c2 cell_page [of P 1 va] reach_Suc [of P m 1 va]
    by (simp_all add: vpn1_offset_def vpn1_index_def unat_index va_def numeral_2_eq_2)
  have c0: "pte_offset env m (cell P 1 va) a = cell P 0 va"
    if "present (m (cell P 3 va))" "present (m (cell P 2 va))" "\<not> vpn_large (m (cell P 2 va))"
      "present (m (cell P 1 va))" "\<not> vpn_large (m (cell P 1 va))"
    using tab [of 1] that c1 cell_page [of P 0 va] by (simp add: pte_offset_def pte_index_def unat_index va_def)
  have w3: "translate P m va = (if present (m (cell P 3 va)) then walk P m 2 va else None)"
    using walk.simps(2) [of P m 2 va] nl by (simp add: Let_def del: walk.simps)
  have w2: "walk P m 2 va = (if \<not> present (m (cell P 2 va)) then None
      else if vpn_large (m (cell P 2 va)) then Some (entry_pa (m (cell P 2 va)) + va mod 2 ^ 30) else walk P m 1 va)"
    using walk.simps(2) [of P m "Suc 0" va] by (simp add: numeral_2_eq_2 Let_def del: walk.simps)
  have w1: "walk P m 1 va = (if \<not> present (m (cell P 1 va)) then None
      else if vpn_large (m (cell P 1 va)) then Some (entry_pa (m (cell P 1 va)) + va mod 2 ^ 21) else walk P m 0 va)"
    using walk.simps(2) [of P m 0 va] by (simp add: Let_def del: walk.simps)
  show ?thesis
    unfolding lookup_address_def c3 Let_def va_def [symmetric] w3 w2 w1 not_present
    using c2(1) c1(1) c0 by (auto simp: VPN2_SIZE_def VPN1_SIZE_def PTE_SIZE_def)
qed

end

end
