(* ===== verification/Pager.thy ===== *)
theory Pager
  imports Page_Map
begin

text \<open>
  The page allocators of the page tables: \<open>arch/riscv/pager.c\<close>.

  The addresses of the table pages are chosen by the linker; they are
  parameters.  The hypervisor's own tables and the second-stage tables of each
  guest take the page of a table from an array indexed by the address to be
  mapped, and so provide the contract \<open>page_alloc\<close>.
\<close>

subsection \<open>Operations\<close>

definition CONFIG_GUEST_ADDRESS_SPACE_SIZE :: u64 where "CONFIG_GUEST_ADDRESS_SPACE_SIZE = 0x100000000"

definition VPN3_PAGE_NUM :: "u64 \<Rightarrow> nat" where "VPN3_PAGE_NUM sz = 1"
definition VPN2_PAGE_NUM :: "u64 \<Rightarrow> nat" where "VPN2_PAGE_NUM sz = unat (drop_bit 39 (sz + VPN3_SIZE - 1))"
definition VPN1_PAGE_NUM :: "u64 \<Rightarrow> nat" where "VPN1_PAGE_NUM sz = unat (drop_bit 30 (sz + VPN2_SIZE - 1))"
definition VPN0_PAGE_NUM :: "u64 \<Rightarrow> nat" where "VPN0_PAGE_NUM sz = unat (drop_bit 21 (sz + VPN1_SIZE - 1))"

record vm_page_arrays =
  vm_vpn3_pages :: nat
  vm_vpn2_pages :: nat
  vm_vpn1_pages :: nat
  vm_vpn0_pages :: nat

text \<open>The initialiser names three bases; the others are zero.\<close>

definition ppt_pages_info :: "nat \<Rightarrow> nat \<Rightarrow> nat \<Rightarrow> pgtable_pages_info" where
  "ppt_pages_info acrn_vpn3 acrn_vpn2 acrn_vpn1 =
    \<lparr>top_address_space = 0, vpn3_base = acrn_vpn3, vpn2_base = acrn_vpn2, vpn1_base = acrn_vpn1, vpn0_base = 0\<rparr>"

definition large_page_support_fn :: "page_table_level \<Rightarrow> bool" where
  "large_page_support_fn level = (if level = VPN1 \<or> level = VPN2 then True else False)"

definition ppt_get_default_access_right :: u64 where
  "ppt_get_default_access_right = PAGE_V"

definition ppt_pgentry_present :: "u64 \<Rightarrow> u64" where
  "ppt_pgentry_present pte = pte AND PAGE_V"

definition ppt_get_vpn3_page :: "pgtable_pages_info \<Rightarrow> pmem \<Rightarrow> nat \<times> pmem" where
  "ppt_get_vpn3_page pinfo m = (let vpn3_page = vpn3_base pinfo in (vpn3_page, clear_page vpn3_page m))"

definition ppt_get_vpn2_page :: "pgtable_pages_info \<Rightarrow> u64 \<Rightarrow> pmem \<Rightarrow> nat \<times> pmem" where
  "ppt_get_vpn2_page pinfo gpa m =
    (let vpn2_page = vpn2_base pinfo + 4096 * unat (drop_bit 39 (gpa AND VPN3_MASK)) in (vpn2_page, clear_page vpn2_page m))"

definition ppt_get_vpn1_page :: "pgtable_pages_info \<Rightarrow> u64 \<Rightarrow> pmem \<Rightarrow> nat \<times> pmem" where
  "ppt_get_vpn1_page pinfo gpa m =
    (let vpn1_page = vpn1_base pinfo + 4096 * unat (drop_bit 30 (gpa AND VPN2_MASK)) in (vpn1_page, clear_page vpn1_page m))"

definition ppt_get_vpn0_page :: "pgtable_pages_info \<Rightarrow> u64 \<Rightarrow> pmem \<Rightarrow> nat \<times> pmem" where
  "ppt_get_vpn0_page pinfo gpa m =
    (let vpn0_page = vpn0_base pinfo + 4096 * unat (drop_bit 21 (gpa AND VPN1_MASK)) in (vpn0_page, clear_page vpn0_page m))"

definition nop_tweak_exe_right :: "u64 \<Rightarrow> u64" where
  "nop_tweak_exe_right entry = entry"

definition nop_recover_exe_right :: "u64 \<Rightarrow> u64" where
  "nop_recover_exe_right entry = entry"

definition ppt_mem_ops :: "nat \<Rightarrow> nat \<Rightarrow> nat \<Rightarrow> memory_ops" where
  "ppt_mem_ops acrn_vpn3 acrn_vpn2 acrn_vpn1 =
    \<lparr>info = ppt_pages_info acrn_vpn3 acrn_vpn2 acrn_vpn1, large_page_support = large_page_support_fn,
     get_default_access_right = ppt_get_default_access_right, pgentry_present = ppt_pgentry_present,
     get_pml4_page = ppt_get_vpn3_page, get_pdpt_page = ppt_get_vpn2_page, get_pd_page = ppt_get_vpn1_page,
     get_pt_page = ppt_get_vpn0_page, tweak_exe_right = nop_tweak_exe_right, recover_exe_right = nop_recover_exe_right\<rparr>"

definition s2pt_get_vpn3_page :: "pgtable_pages_info \<Rightarrow> pmem \<Rightarrow> nat \<times> pmem" where
  "s2pt_get_vpn3_page pinfo m = (let vpn3_page = vpn3_base pinfo in (vpn3_page, clear_page vpn3_page m))"

definition s2pt_get_vpn2_page :: "pgtable_pages_info \<Rightarrow> u64 \<Rightarrow> pmem \<Rightarrow> nat \<times> pmem" where
  "s2pt_get_vpn2_page pinfo gpa m =
    (let vpn2_page = vpn2_base pinfo + 4096 * unat (drop_bit 39 (gpa AND VPN3_MASK)) in (vpn2_page, clear_page vpn2_page m))"

definition s2pt_get_vpn1_page :: "pgtable_pages_info \<Rightarrow> u64 \<Rightarrow> pmem \<Rightarrow> nat \<times> pmem" where
  "s2pt_get_vpn1_page pinfo gpa m =
    (let vpn1_page = vpn1_base pinfo + 4096 * unat (drop_bit 30 (gpa AND VPN2_MASK)) in (vpn1_page, clear_page vpn1_page m))"

definition s2pt_get_vpn0_page :: "pgtable_pages_info \<Rightarrow> u64 \<Rightarrow> pmem \<Rightarrow> nat \<times> pmem" where
  "s2pt_get_vpn0_page pinfo gpa m =
    (let vpn0_page = vpn0_base pinfo + 4096 * unat (drop_bit 21 (gpa AND VPN1_MASK)) in (vpn0_page, clear_page vpn0_page m))"

definition s2pt_get_default_access_right :: u64 where
  "s2pt_get_default_access_right = PAGE_V"

definition s2pt_pgentry_present :: "u64 \<Rightarrow> u64" where
  "s2pt_pgentry_present pte = pte AND PAGE_V"

text \<open>The address of row \<open>vm_id\<close> of a two-dimensional array of pages.\<close>

definition page_row :: "nat \<Rightarrow> nat \<Rightarrow> nat \<Rightarrow> nat" where
  "page_row base num vm_id = base + 4096 * (num * vm_id)"

definition init_s2pt_mem_ops :: "vm_page_arrays \<Rightarrow> nat \<Rightarrow> memory_ops" where
  "init_s2pt_mem_ops arrays vm_id =
    (let sz = CONFIG_GUEST_ADDRESS_SPACE_SIZE
     in \<lparr>info = \<lparr>top_address_space = sz,
           vpn3_base = page_row (vm_vpn3_pages arrays) (VPN3_PAGE_NUM sz) vm_id,
           vpn2_base = page_row (vm_vpn2_pages arrays) (VPN2_PAGE_NUM sz) vm_id,
           vpn1_base = page_row (vm_vpn1_pages arrays) (VPN1_PAGE_NUM sz) vm_id,
           vpn0_base = page_row (vm_vpn0_pages arrays) (VPN0_PAGE_NUM sz) vm_id\<rparr>,
         large_page_support = large_page_support_fn,
         get_default_access_right = s2pt_get_default_access_right, pgentry_present = s2pt_pgentry_present,
         get_pml4_page = s2pt_get_vpn3_page, get_pdpt_page = s2pt_get_vpn2_page, get_pd_page = s2pt_get_vpn1_page,
         get_pt_page = s2pt_get_vpn0_page, tweak_exe_right = nop_tweak_exe_right,
         recover_exe_right = nop_recover_exe_right\<rparr>)"

subsection \<open>The allocators meet the contract\<close>

definition level_base :: "pgtable_pages_info \<Rightarrow> nat \<Rightarrow> nat" where
  "level_base pinfo l = (if l = 0 then vpn0_base pinfo else if l = 1 then vpn1_base pinfo
    else if l = 2 then vpn2_base pinfo else vpn3_base pinfo)"

lemma drop_masked: "k < 64 \<Longrightarrow> unat (drop_bit k ((a :: u64) AND NOT (push_bit k 1 - 1))) = unat a div 2 ^ k"
  using unat_drop_bit [of k "a AND NOT (push_bit k 1 - 1)"] unat_and_not_mask [of k a] by simp

lemmas drop_masks = drop_masked [of 39, folded VPN3_SIZE_def, folded VPN3_MASK_def, simplified]
  drop_masked [of 30, folded VPN2_SIZE_def, folded VPN2_MASK_def, simplified]
  drop_masked [of 21, folded VPN1_SIZE_def, folded VPN1_MASK_def, simplified]

interpretation ppt: page_alloc "ppt_mem_ops acrn_vpn3 acrn_vpn2 acrn_vpn1"
  "level_base (ppt_pages_info acrn_vpn3 acrn_vpn2 acrn_vpn1)" for acrn_vpn3 acrn_vpn2 acrn_vpn1 :: nat
  by unfold_locales
    (simp_all add: ppt_mem_ops_def ppt_pgentry_present_def ppt_get_vpn2_page_def ppt_get_vpn1_page_def
      ppt_get_vpn0_page_def level_base_def drop_masks)

interpretation s2pt: page_alloc "init_s2pt_mem_ops arrays vm_id" "level_base (info (init_s2pt_mem_ops arrays vm_id))"
  for arrays :: vm_page_arrays and vm_id :: nat
  by unfold_locales
    (simp_all add: init_s2pt_mem_ops_def s2pt_pgentry_present_def s2pt_get_vpn2_page_def s2pt_get_vpn1_page_def
      s2pt_get_vpn0_page_def level_base_def drop_masks Let_def)

subsection \<open>The tables of the guests\<close>

definition s2pt_pools :: "vm_page_arrays \<Rightarrow> nat \<Rightarrow> pools" where
  "s2pt_pools arrays vm_id = \<lparr>pbase = level_base (info (init_s2pt_mem_ops arrays vm_id)),
    ptop = unat CONFIG_GUEST_ADDRESS_SPACE_SIZE\<rparr>"

definition array_base :: "vm_page_arrays \<Rightarrow> nat \<Rightarrow> nat" where
  "array_base arrays l = (if l = 0 then vm_vpn0_pages arrays else if l = 1 then vm_vpn1_pages arrays
    else if l = 2 then vm_vpn2_pages arrays else vm_vpn3_pages arrays)"

definition page_num :: "nat \<Rightarrow> nat" where
  "page_num l = (if l = 0 then 2048 else if l = 1 then 4 else 1)"

text \<open>The arrays as the linker places them: aligned, apart from each other, and inside the image.\<close>

definition array_end :: "vm_page_arrays \<Rightarrow> nat \<Rightarrow> nat" where
  "array_end arrays l = array_base arrays l + 4096 * (page_num l * CONFIG_MAX_VM_NUM)"

definition arrays_ok :: "pt_env \<Rightarrow> vm_page_arrays \<Rightarrow> bool" where
  "arrays_ok env arrays \<longleftrightarrow> 4096 dvd unat (phys_offset env) \<and>
    (\<forall>l < 4. 4096 dvd array_base arrays l \<and> unat (kern_start env) \<le> array_base arrays l \<and>
      array_end arrays l \<le> unat (kern_end env) \<and> array_end arrays l + unat (phys_offset env) < 2 ^ 44) \<and>
    (\<forall>l < 4. \<forall>k < l. array_end arrays l \<le> array_base arrays k \<or> array_end arrays k \<le> array_base arrays l)"

lemma less_4_cases: "(l::nat) < 4 \<longleftrightarrow> l = 0 \<or> l = 1 \<or> l = 2 \<or> l = 3"
  by auto

lemma page_nums: "VPN3_PAGE_NUM CONFIG_GUEST_ADDRESS_SPACE_SIZE = page_num 3"
  "VPN2_PAGE_NUM CONFIG_GUEST_ADDRESS_SPACE_SIZE = page_num 2"
  "VPN1_PAGE_NUM CONFIG_GUEST_ADDRESS_SPACE_SIZE = page_num 1"
  "VPN0_PAGE_NUM CONFIG_GUEST_ADDRESS_SPACE_SIZE = page_num 0"
  by (simp_all add: VPN3_PAGE_NUM_def VPN2_PAGE_NUM_def VPN1_PAGE_NUM_def VPN0_PAGE_NUM_def page_num_def
      CONFIG_GUEST_ADDRESS_SPACE_SIZE_def VPN3_SIZE_def VPN2_SIZE_def VPN1_SIZE_def unat_drop_bit)

lemma ptop_s2pt [simp]: "ptop (s2pt_pools arrays i) = 2 ^ 32"
  by (simp add: s2pt_pools_def CONFIG_GUEST_ADDRESS_SPACE_SIZE_def)

lemma pbase_s2pt: "l < 4 \<Longrightarrow> pbase (s2pt_pools arrays i) l = array_base arrays l + 4096 * (page_num l * i)"
  by (auto simp: less_4_cases s2pt_pools_def level_base_def init_s2pt_mem_ops_def Let_def page_row_def page_nums
      array_base_def)

lemma pool_area_s2pt:
  "l < 4 \<Longrightarrow> pool_area (s2pt_pools arrays i) l
    = {array_base arrays l + 4096 * (page_num l * i)..<array_base arrays l + 4096 * (page_num l * (i + 1))}"
  by (auto simp: pool_area_def pbase_s2pt less_4_cases page_num_def shift_def)

text \<open>A page of row \<open>i\<close> lies in its array.\<close>

lemma row_in_array:
  assumes "i < CONFIG_MAX_VM_NUM"
  shows "array_base arrays l + 4096 * (page_num l * (i + 1)) \<le> array_end arrays l"
proof -
  have "page_num l * (i + 1) \<le> page_num l * CONFIG_MAX_VM_NUM" using assms by (intro mult_le_mono2) simp
  thus ?thesis by (simp add: array_end_def)
qed

lemma pool_area_in_array:
  assumes "l < 4" "i < CONFIG_MAX_VM_NUM"
  shows "pool_area (s2pt_pools arrays i) l \<subseteq> {array_base arrays l..<array_end arrays l}"
  using row_in_array [OF assms(2), of arrays l] by (auto simp: pool_area_s2pt [OF assms(1)])

lemma arrays_apart:
  assumes "arrays_ok env arrays" "l < 4" "k < 4" "l \<noteq> k"
  shows "{array_base arrays l..<array_end arrays l} \<inter> {array_base arrays k..<array_end arrays k} = {}"
proof -
  have "array_end arrays l \<le> array_base arrays k \<or> array_end arrays k \<le> array_base arrays l"
    using assms unfolding arrays_ok_def by (metis linorder_neqE_nat)
  thus ?thesis by auto
qed

lemma s2pt_layout:
  assumes ok: "arrays_ok env arrays" and i: "i < CONFIG_MAX_VM_NUM"
  shows "pool_layout env (s2pt_pools arrays i)"
  unfolding pool_layout_def
proof (intro conjI allI impI)
  fix l k :: nat assume lk: "l < 4" "k < 4" "l \<noteq> k"
  show "pool_area (s2pt_pools arrays i) l \<inter> pool_area (s2pt_pools arrays i) k = {}"
    using arrays_apart [OF ok lk] pool_area_in_array [OF lk(1) i, of arrays] pool_area_in_array [OF lk(2) i, of arrays]
    by blast
next
  fix l a :: nat assume l: "l < 3" and a: "a < ptop (s2pt_pools arrays i)"
  let ?p = "table_page (s2pt_pools arrays i) l a"
  have l4: "l < 4" using l by simp
  have "?p \<in> {array_base arrays l..<array_end arrays l}"
    using page_in_area [OF a, of 0 l] pool_area_in_array [OF l4 i, of arrays] by auto
  hence b: "unat (kern_start env) \<le> ?p" "?p < unat (kern_end env)" "?p + unat (phys_offset env) < 2 ^ 44"
    using ok l4 by (auto simp: arrays_ok_def)
  moreover have "unat (of_nat ?p :: u64) = ?p"
    using b(3) by (subst unsigned_of_nat) (simp add: take_bit_nat_eq_self)
  moreover have "4096 dvd ?p" "4096 dvd unat (phys_offset env)"
    using ok l4 by (auto simp: arrays_ok_def pbase_s2pt)
  ultimately show "page_ok env ?p" by (simp add: page_ok_def is_kernel_def word_le_nat_alt word_less_nat_alt)
qed simp_all

text \<open>The tables of different guests are apart.\<close>

lemma s2pt_apart:
  assumes ok: "arrays_ok env arrays" and ij: "i < CONFIG_MAX_VM_NUM" "j < CONFIG_MAX_VM_NUM" "i \<noteq> j" and l: "l < 4"
    and x: "x \<in> pool_area (s2pt_pools arrays i) l"
  shows "outside_pools (s2pt_pools arrays j) x"
  unfolding outside_pools_def
proof (intro allI impI)
  fix k :: nat assume k: "k < 4"
  show "x \<notin> pool_area (s2pt_pools arrays j) k"
  proof (cases "k = l")
    case True
    have "i + 1 \<le> j \<or> j + 1 \<le> i" using ij(3) by auto
    hence "page_num l * (i + 1) \<le> page_num l * j \<or> page_num l * (j + 1) \<le> page_num l * i"
      by (meson mult_le_mono2)
    thus ?thesis using x True by (auto simp: pool_area_s2pt l)
  next
    case False
    thus ?thesis using arrays_apart [OF ok l k] x pool_area_in_array [OF l ij(1), of arrays]
        pool_area_in_array [OF k ij(2), of arrays] by blast
  qed
qed

text \<open>A cleared root page is an empty set of tables.\<close>

lemma cleared_root:
  assumes "pool_layout env P"
  shows "pt_inv env P (clear_page (pbase P 3) m)" "\<And>a. a < ptop P \<Longrightarrow> translate P (clear_page (pbase P 3) m) a = None"
proof -
  let ?m = "clear_page (pbase P 3) m"
  have z: "?m (cell P 3 a) = 0" if "a < ptop P" for a
  proof -
    have "a div 2 ^ 39 < 512" using that assms by (simp add: pool_layout_def less_mult_imp_div_less)
    thus ?thesis by (simp add: clear_page_def)
  qed
  show "\<And>a. a < ptop P \<Longrightarrow> translate P ?m a = None"
    using z walk.simps(2) [of P ?m 2] by (simp add: present_def Let_def del: walk.simps)
  show "pt_inv env P ?m"
    unfolding pt_inv_def
  proof (intro allI impI)
    fix a l assume h: "a < ptop P" "l \<le> 3" "0 < l" "reach P ?m l a" "present (?m (cell P l a))"
    hence "l = 3 \<or> l < 3" by linarith
    hence "present (?m (cell P 3 a))" using h(4,5) unfolding reach_def by (metis order_refl)
    thus "(l = 3 \<longrightarrow> \<not> vpn_large (?m (cell P l a))) \<and>
        (\<not> vpn_large (?m (cell P l a)) \<longrightarrow> ?m (cell P l a) = table_entry env (table_page P (l - 1) a))"
      using z [OF h(1)] by (simp add: present_def)
  qed
qed

end
