(* ===== verification/S2vm.thy ===== *)
theory S2vm
  imports Pager Spinlock
begin

text \<open>
  The second translation stage of the guests: \<open>arch/riscv/guest/s2vm.c\<close>.

  The state has the page-table store, the register \<open>hgatp\<close> and the value it had
  at each \<open>hfence.gvma\<close>; a guest is represented by the fields of
  \<open>struct acrn_vm\<close> that these functions use.  \<open>isb\<close> and \<open>pr_dbg\<close> do not change
  this state.
\<close>

subsection \<open>State and operations\<close>

record s2_state = hart +
  hgatp :: u64
  gtlb_flushes :: "u64 list"
  ptm :: pmem
  s2vm_inital_level :: u32

record s2_vm =
  vm_id :: u16
  s2ptp :: nat
  s2pt_satp :: u64
  s2pt_mem_ops :: memory_ops
  s2pt_lock :: spinlock_t

definition INVALID_HPA :: u64 where "INVALID_HPA = push_bit 52 1"
definition S2PT_PFN_HIGH_MASK :: u64 where "S2PT_PFN_HIGH_MASK = 0xFFFF000000000000"
definition SATP_MODE_SV48 :: u64 where "SATP_MODE_SV48 = 0x9000000000000000"

definition get_s2pt_entry :: "s2_vm \<Rightarrow> nat" where
  "get_s2pt_entry vm = s2ptp vm"

text \<open>The size is returned through the pointer when the address is found.\<close>

definition local_gpa2hpa :: "pt_env \<Rightarrow> s2_vm \<Rightarrow> u64 \<Rightarrow> pmem \<Rightarrow> u64 \<times> u32 option" where
  "local_gpa2hpa env vm gpa m =
    (let (hpa, pg_size) =
       (case lookup_address env (s2pt_mem_ops vm) (get_s2pt_entry vm) gpa m of
          None \<Rightarrow> (INVALID_HPA, 0)
        | Some (pgentry, pg_size) \<Rightarrow>
            (((m pgentry AND NOT S2PT_PFN_HIGH_MASK) AND NOT (pg_size - 1)) OR (gpa AND (pg_size - 1)), pg_size))
     in (hpa, if hpa \<noteq> INVALID_HPA then Some (ucast pg_size) else None))"

definition gpa2hpa :: "pt_env \<Rightarrow> s2_vm \<Rightarrow> u64 \<Rightarrow> pmem \<Rightarrow> u64" where
  "gpa2hpa env vm gpa m = fst (local_gpa2hpa env vm gpa m)"

definition generate_satp :: "u16 \<Rightarrow> u64 \<Rightarrow> u64" where
  "generate_satp vmid a = SATP_MODE_SV48 OR push_bit 44 (ucast vmid) OR drop_bit 12 a"

definition setup_virt_paging :: "'a s2_state_scheme \<Rightarrow> 'a s2_state_scheme" where
  "setup_virt_paging s = s\<lparr>s2vm_inital_level := 0\<rparr>"

definition flush_guest_tlb :: "'a s2_state_scheme \<Rightarrow> 'a s2_state_scheme" where
  "flush_guest_tlb s = s\<lparr>gtlb_flushes := hgatp s # gtlb_flushes s\<rparr>"

definition s2pt_flush_guest :: "s2_vm \<Rightarrow> 'a s2_state_scheme \<Rightarrow> 'a s2_state_scheme" where
  "s2pt_flush_guest vm s =
    (let flags = 0; satp = s2pt_satp vm; osatp = hgatp s;
         (flags, s) = (if osatp \<noteq> satp
                       then let (flags, s) = local_irq_save s in (flags, s\<lparr>hgatp := satp\<rparr>)
                       else (flags, s));
         s = flush_guest_tlb s
     in if osatp \<noteq> hgatp s then local_irq_restore flags (s\<lparr>hgatp := satp\<rparr>) else s)"

definition s2pt_setup_satp :: "pt_env \<Rightarrow> s2_vm \<Rightarrow> 'a s2_state_scheme \<Rightarrow> (int \<times> s2_vm \<times> 'a s2_state_scheme) option" where
  "s2pt_setup_satp env vm s =
    (if s2vm_inital_level s = 0
     then
       let satp = hva2hpa env (of_nat (vpn3_base (info (s2pt_mem_ops vm))));
           vm = vm\<lparr>s2pt_satp := generate_satp (vm_id vm) satp\<rparr>
       in do {
         lock \<leftarrow> spinlock_obtain (s2pt_lock vm);
         let s = s2pt_flush_guest vm s;
         Some (0, vm\<lparr>s2pt_lock := spinlock_release lock\<rparr>, s)
       }
     else Some (-1, vm, s))"

definition s2pt_init :: "pt_env \<Rightarrow> s2_vm \<Rightarrow> 'a s2_state_scheme \<Rightarrow> (int \<times> s2_vm \<times> 'a s2_state_scheme) option" where
  "s2pt_init env vm s =
    do {
      (_, vm, s) \<leftarrow> s2pt_setup_satp env (vm\<lparr>s2pt_lock := spinlock_init\<rparr>) s;
      Some (0, vm, s)
    }"

definition s2pt_add_mr ::
  "pt_env \<Rightarrow> s2_vm \<Rightarrow> nat \<Rightarrow> u64 \<Rightarrow> u64 \<Rightarrow> u64 \<Rightarrow> u64 \<Rightarrow> 'a s2_state_scheme \<Rightarrow> (s2_vm \<times> 'a s2_state_scheme) option" where
  "s2pt_add_mr env vm vpn3_page hpa gpa sz prot_orig s =
    (let prot = prot_orig
     in do {
       lock \<leftarrow> spinlock_obtain (s2pt_lock vm);
       m \<leftarrow> mmu_add env (s2pt_mem_ops vm) vpn3_page hpa gpa sz prot (ptm s);
       let vm = vm\<lparr>s2pt_lock := spinlock_release lock\<rparr>;
       Some (vm, s2pt_flush_guest vm (s\<lparr>ptm := m\<rparr>))
     })"

definition s2pt_modify_mr ::
  "pt_env \<Rightarrow> s2_vm \<Rightarrow> nat \<Rightarrow> u64 \<Rightarrow> u64 \<Rightarrow> u64 \<Rightarrow> u64 \<Rightarrow> 'a s2_state_scheme \<Rightarrow> (s2_vm \<times> 'a s2_state_scheme) option" where
  "s2pt_modify_mr env vm vpn3_page gpa sz prot_set prot_clr s =
    (let local_prot = prot_set
     in do {
       lock \<leftarrow> spinlock_obtain (s2pt_lock vm);
       m \<leftarrow> mmu_modify_or_del env (s2pt_mem_ops vm) vpn3_page gpa sz local_prot prot_clr MR_MODIFY (ptm s);
       let vm = vm\<lparr>s2pt_lock := spinlock_release lock\<rparr>;
       Some (vm, s2pt_flush_guest vm (s\<lparr>ptm := m\<rparr>))
     })"

definition s2pt_del_mr ::
  "pt_env \<Rightarrow> s2_vm \<Rightarrow> nat \<Rightarrow> u64 \<Rightarrow> u64 \<Rightarrow> 'a s2_state_scheme \<Rightarrow> (s2_vm \<times> 'a s2_state_scheme) option" where
  "s2pt_del_mr env vm vpn3_page gpa sz s =
    do {
      lock \<leftarrow> spinlock_obtain (s2pt_lock vm);
      m \<leftarrow> mmu_modify_or_del env (s2pt_mem_ops vm) vpn3_page gpa sz 0 0 MR_DEL (ptm s);
      let vm = vm\<lparr>s2pt_lock := spinlock_release lock\<rparr>;
      Some (vm, s2pt_flush_guest vm (s\<lparr>ptm := m\<rparr>))
    }"

text \<open>
  The walk over all tables; the handler may change the store and a state of its
  own.
\<close>

definition PTRS_PER_TABLE :: nat where "PTRS_PER_TABLE = 512"

definition walk_pte :: "pt_env \<Rightarrow> memory_ops \<Rightarrow> (nat \<Rightarrow> u64 \<Rightarrow> pmem \<times> 'c \<Rightarrow> pmem \<times> 'c) \<Rightarrow> nat \<Rightarrow> nat \<Rightarrow>
    pmem \<times> 'c \<Rightarrow> pmem \<times> 'c" where
  "walk_pte env ops cb vpn1 i st =
    (let pte = pte_offset env (fst st) vpn1 (push_bit 12 (of_nat i))
     in if pgentry_present ops (fst st pte) \<noteq> 0 then cb pte PTE_SIZE st else st)"

definition walk_vpn1 :: "pt_env \<Rightarrow> memory_ops \<Rightarrow> (nat \<Rightarrow> u64 \<Rightarrow> pmem \<times> 'c \<Rightarrow> pmem \<times> 'c) \<Rightarrow> nat \<Rightarrow> nat \<Rightarrow>
    pmem \<times> 'c \<Rightarrow> pmem \<times> 'c" where
  "walk_vpn1 env ops cb vpn2 k st =
    (let vpn1 = vpn1_offset env (fst st) vpn2 (push_bit 21 (of_nat k))
     in if pgentry_present ops (fst st vpn1) = 0 then st
        else if vpn_large (fst st vpn1) then cb vpn1 VPN1_SIZE st
        else fold (walk_pte env ops cb vpn1) [0..<PTRS_PER_TABLE] st)"

definition walk_vpn2 :: "pt_env \<Rightarrow> memory_ops \<Rightarrow> (nat \<Rightarrow> u64 \<Rightarrow> pmem \<times> 'c \<Rightarrow> pmem \<times> 'c) \<Rightarrow> nat \<Rightarrow> nat \<Rightarrow>
    pmem \<times> 'c \<Rightarrow> pmem \<times> 'c" where
  "walk_vpn2 env ops cb vpn3 j st =
    (let vpn2 = vpn2_offset env (fst st) vpn3 (push_bit 30 (of_nat j))
     in if pgentry_present ops (fst st vpn2) = 0 then st
        else if vpn_large (fst st vpn2) then cb vpn2 VPN2_SIZE st
        else fold (walk_vpn1 env ops cb vpn2) [0..<PTRS_PER_TABLE] st)"

definition walk_s2pt_table :: "pt_env \<Rightarrow> s2_vm \<Rightarrow> (nat \<Rightarrow> u64 \<Rightarrow> pmem \<times> 'c \<Rightarrow> pmem \<times> 'c) \<Rightarrow> pmem \<times> 'c \<Rightarrow> pmem \<times> 'c" where
  "walk_s2pt_table env vm cb st =
    (let ops = s2pt_mem_ops vm
     in fold (\<lambda>i st.
          let vpn3 = vpn3_offset (get_s2pt_entry vm) (push_bit 39 (of_nat i))
          in if pgentry_present ops (fst st vpn3) = 0 then st
             else fold (walk_vpn2 env ops cb vpn3) [0..<PTRS_PER_TABLE] st)
        [0..<PTRS_PER_TABLE] st)"

subsection \<open>Flushing\<close>

text \<open>
  The flush runs under the guest's \<open>hgatp\<close> and restores the interrupt mask; the
  register keeps the guest's value, whatever it held before.
\<close>

lemma s2pt_flush_guest_effect:
  "s2pt_flush_guest vm s = s\<lparr>hgatp := s2pt_satp vm, gtlb_flushes := s2pt_satp vm # gtlb_flushes s\<rparr>"
  by (simp add: s2pt_flush_guest_def flush_guest_tlb_def local_irq_save_def local_irq_disable_def
      local_irq_restore_def Let_def)

lemma bit_no_high: "unat (w :: 'a::len word) < 2 ^ k \<Longrightarrow> bit w n \<Longrightarrow> n < k"
proof -
  assume h: "unat w < 2 ^ k" "bit w n"
  have "bit (unat w) n" using h(2) by (simp add: bit_unsigned_iff)
  moreover have "take_bit k (unat w) = unat w" using h(1) by (simp add: take_bit_nat_eq_self)
  ultimately show "n < k" by (metis bit_take_bit_iff)
qed

text \<open>The fields of \<open>hgatp\<close>: the mode, the guest's number, the page of the root table.\<close>

lemma generate_satp_fields:
  assumes "unat a < 2 ^ 56" "unat vmid < 2 ^ 14"
  shows "drop_bit 60 (generate_satp vmid a) = 9" "unat (take_bit 14 (drop_bit 44 (generate_satp vmid a))) = unat vmid"
    "unat (take_bit 44 (generate_satp vmid a)) = unat a div 4096"
proof -
  have nine: "bit (9 :: u64) k \<longleftrightarrow> k = 0 \<or> k = 3" for k
  proof -
    have "bit (9 :: u64) k \<longleftrightarrow> bit (push_bit 3 1 OR 1 :: u64) k" by simp
    also have "\<dots> \<longleftrightarrow> k = 0 \<or> k = 3"
      by (simp only: bit_or_iff bit_push_bit_iff bit_1_iff possible_bit_def) auto
    finally show ?thesis .
  qed
  have mode: "bit SATP_MODE_SV48 n \<longleftrightarrow> n = 60 \<or> n = 63" for n
  proof -
    have e: "SATP_MODE_SV48 = push_bit 60 9" by (simp add: SATP_MODE_SV48_def)
    have "bit SATP_MODE_SV48 n \<longleftrightarrow> 60 \<le> n \<and> n < 64 \<and> bit (9 :: u64) (n - 60)"
      unfolding e by (subst bit_push_bit_iff) simp
    thus ?thesis unfolding nine by auto
  qed
  have b: "bit (generate_satp vmid a) n \<longleftrightarrow> n = 60 \<or> n = 63 \<or> (44 \<le> n \<and> bit vmid (n - 44)) \<or> (bit a (n + 12))" for n
    using bit_no_high [OF assms(1), of "n + 12"] bit_no_high [OF assms(2), of "n - 44"] bit_imp_le_length [of a "n + 12"]
    by (auto simp: generate_satp_def bit_simps mode add.commute [of 12])
  have a: "bit a n \<Longrightarrow> n < 56" and v: "bit vmid n \<Longrightarrow> n < 14" for n
    using bit_no_high [OF assms(1)] bit_no_high [OF assms(2)] by auto
  show "drop_bit 60 (generate_satp vmid a) = 9"
  proof (rule bit_eqI)
    fix n show "bit (drop_bit 60 (generate_satp vmid a)) n = bit (9 :: u64) n"
      using a [of "72 + n"] v [of "16 + n"] nine [of n] by (auto simp: b bit_drop_bit_eq)
  qed
  have "take_bit 14 (drop_bit 44 (generate_satp vmid a)) = ucast vmid"
  proof (rule bit_eqI)
    fix n show "bit (take_bit 14 (drop_bit 44 (generate_satp vmid a))) n = bit (ucast vmid :: u64) n"
      using a [of "56 + n"] v [of n] by (auto simp: b bit_simps)
  qed
  thus "unat (take_bit 14 (drop_bit 44 (generate_satp vmid a))) = unat vmid" by (simp add: unat_ucast_up)
  have "take_bit 44 (generate_satp vmid a) = drop_bit 12 a"
  proof (rule bit_eqI)
    fix n show "bit (take_bit 44 (generate_satp vmid a)) n = bit (drop_bit 12 a) n"
      using a [of "n + 12"] by (auto simp: b bit_simps add.commute [of 12])
  qed
  thus "unat (take_bit 44 (generate_satp vmid a)) = unat a div 4096" by (simp add: unat_drop_bit)
qed

subsection \<open>Adding a region to a guest\<close>

abbreviation vm_pools :: "vm_page_arrays \<Rightarrow> s2_vm \<Rightarrow> pools" where
  "vm_pools arrays vm \<equiv> s2pt_pools arrays (unat (vm_id vm))"

text \<open>A guest as \<open>create_vm\<close> sets it up, with its lock free.\<close>

definition guest_ok :: "vm_page_arrays \<Rightarrow> s2_vm \<Rightarrow> bool" where
  "guest_ok arrays vm \<longleftrightarrow> unat (vm_id vm) < CONFIG_MAX_VM_NUM \<and>
    s2pt_mem_ops vm = init_s2pt_mem_ops arrays (unat (vm_id vm)) \<and>
    s2ptp vm = vpn3_base (info (s2pt_mem_ops vm)) \<and> lock_free (s2pt_lock vm)"

text \<open>A region of whole pages inside the guest's address space, and the memory behind it.\<close>

definition region_ok :: "pt_env \<Rightarrow> u64 \<Rightarrow> u64 \<Rightarrow> u64 \<Rightarrow> bool" where
  "region_ok env hpa gpa sz \<longleftrightarrow> 4096 dvd unat gpa \<and> 4096 dvd unat hpa \<and> 4096 dvd unat sz \<and> 0 < sz \<and>
    unat gpa + unat sz \<le> 2 ^ 32 \<and> unat hpa + unat (phys_offset env) + unat sz < 2 ^ 56"

lemma round_aligned: "4096 dvd unat a \<Longrightarrow> unat a < 2 ^ 63 \<Longrightarrow> round_page_up a = a"
  "4096 dvd unat a \<Longrightarrow> round_page_down a = a"
proof -
  have m: "unat (x AND PAGE_MASK) = unat x div 4096 * 4096" for x
    using unat_and_not_mask [of 12 x] by (simp add: PAGE_MASK_def PAGE_SIZE_def)
  show "4096 dvd unat a \<Longrightarrow> round_page_down a = a"
    using m [of a] by (simp add: round_page_down_def word_unat_eq_iff)
  assume h: "4096 dvd unat a" "unat a < 2 ^ 63"
  obtain q where q: "unat a = 4096 * q" using h(1) by (auto elim: dvdE)
  have "unat (a + 4095) = unat a + 4095" using h(2) by (subst unat_add_no_wrap) simp_all
  hence "unat (a + 4095) div 4096 * 4096 = unat a" using q by simp
  hence "unat ((a + 4095) AND PAGE_MASK) = unat a" by (simp only: m)
  thus "round_page_up a = a" by (simp add: round_page_up_def PAGE_SIZE_def word_unat_eq_iff add.commute [of 4095])
qed

lemma pbase_root: "guest_ok arrays vm \<Longrightarrow> s2ptp vm = level_base (info (init_s2pt_mem_ops arrays (unat (vm_id vm)))) 3"
  by (simp add: guest_ok_def level_base_def)

lemma s2pt_add_mr_maps:
  assumes ok: "arrays_ok env arrays" and g: "guest_ok arrays vm" and r: "region_ok env hpa gpa sz"
    and inv: "pt_inv env (vm_pools arrays vm) (ptm s)"
  shows "\<exists>lock m'. s2pt_add_mr env vm (s2ptp vm) hpa gpa sz prot s
      = Some (vm\<lparr>s2pt_lock := lock\<rparr>, s2pt_flush_guest vm (s\<lparr>ptm := m'\<rparr>)) \<and> lock_free lock \<and>
    maps env (vm_pools arrays vm) 3 (unat gpa + unat sz) (unat hpa) (unat gpa) (unat gpa + unat sz) (ptm s) m'"
proof -
  let ?P = "vm_pools arrays vm"
  have i: "unat (vm_id vm) < CONFIG_MAX_VM_NUM" using g by (simp add: guest_ok_def)
  have ve: "unat (gpa + sz) = unat gpa + unat sz" using r by (subst unat_add_no_wrap) (simp_all add: region_ok_def)
  have lt: "unat gpa < 2 ^ 63" "unat hpa < 2 ^ 63" "0 < unat sz"
    using r by (auto simp: region_ok_def word_less_nat_alt)
  have "range_ok env (ptop ?P) hpa gpa (gpa + sz)"
    using r ok lt by (auto simp: range_ok_def region_ok_def ve word_less_nat_alt arrays_ok_def)
  then obtain m' where m': "mmu_add_loop env (s2pt_mem_ops vm) (s2ptp vm) prot hpa gpa (gpa + sz) (ptm s) = Some m'"
    "maps env ?P 3 (unat gpa + unat sz) (unat hpa) (unat gpa) (unat gpa + unat sz) (ptm s) m'"
    using s2pt.mmu_add_loop_maps [of ?P arrays "unat (vm_id vm)" env "ptm s" hpa gpa "gpa + sz" prot]
      s2pt_layout [OF ok i] inv pbase_root [OF g] g
    by (auto simp: s2pt_pools_def ve guest_ok_def)
  hence "mmu_add env (s2pt_mem_ops vm) (s2ptp vm) hpa gpa sz prot (ptm s) = Some m'"
    using r lt by (simp add: mmu_add_def round_aligned region_ok_def)
  moreover obtain lock where "spinlock_obtain (s2pt_lock vm) = Some lock" "lock_free (spinlock_release lock)"
    using g spinlock_obtain_free spinlock_obtain_SomeD unfolding guest_ok_def by blast
  ultimately show ?thesis
    using m'(2) by (intro exI [of _ "spinlock_release lock"] exI [of _ m']) (simp add: s2pt_add_mr_def s2pt_flush_guest_effect)
qed

text \<open>The tables of the other guests are not touched.\<close>

lemma maps_other_guest:
  assumes ok: "arrays_ok env arrays" and ij: "i < CONFIG_MAX_VM_NUM" "j < CONFIG_MAX_VM_NUM" "i \<noteq> j"
    and mp: "maps env (s2pt_pools arrays i) l b pa va ve m m'" and a: "a < 2 ^ 32"
  shows "translate (s2pt_pools arrays j) m' a = translate (s2pt_pools arrays j) m a"
proof (rule walk_cong)
  fix k :: nat assume "k \<le> 3"
  hence "k < 4" by simp
  moreover have "a < ptop (s2pt_pools arrays j)" using a by simp
  ultimately have "outside_pools (s2pt_pools arrays i) (cell (s2pt_pools arrays j) k a)"
    using s2pt_apart [OF ok ij(2,1) ij(3) [symmetric]] cell_in_area by blast
  thus "m' (cell (s2pt_pools arrays j) k a) = m (cell (s2pt_pools arrays j) k a)" using mp by (simp add: maps_def)
qed

subsection \<open>Walking the tables\<close>

text \<open>A handler that records its calls visits exactly the leaves that \<open>lookup_address\<close> can find.\<close>

definition record_entry :: "nat \<Rightarrow> u64 \<Rightarrow> pmem \<times> (nat \<times> u64) list \<Rightarrow> pmem \<times> (nat \<times> u64) list" where
  "record_entry p sz st = (fst st, snd st @ [(p, sz)])"

lemma fold_record:
  "(\<And>i c. i \<in> set xs \<Longrightarrow> f i (m, c) = (m, c @ g i)) \<Longrightarrow> fold f xs (m, c) = (m, c @ concat (map g xs))"
  by (induction xs arbitrary: c) simp_all

lemma index_push: "k + 9 \<le> 64 \<Longrightarrow> i < PTRS_PER_TABLE \<Longrightarrow> unat (drop_bit k (push_bit k (of_nat i :: u64)) AND 511) = i"
proof -
  assume "k + 9 \<le> 64" "i < PTRS_PER_TABLE"
  hence h: "k + 9 \<le> 64" "i < 512" by (simp_all add: PTRS_PER_TABLE_def)
  have p: "i * 2 ^ k < 2 ^ 64"
  proof -
    have "i * 2 ^ k < 512 * 2 ^ k" using h(2) by simp
    also have "\<dots> = 2 ^ (k + 9)" by (simp add: power_add)
    also have "\<dots> \<le> 2 ^ 64" using h(1) by (intro power_increasing) simp_all
    finally show ?thesis .
  qed
  have i: "unat (of_nat i :: u64) = i" using h(2) by (simp add: unsigned_of_nat take_bit_nat_eq_self)
  hence "unat (push_bit k (of_nat i :: u64)) = i * 2 ^ k" using p unat_push_bit [of "of_nat i" k] by simp
  thus ?thesis using h(2) by (simp only: unat_index) simp
qed

lemma address_of_indices:
  assumes "i < PTRS_PER_TABLE" "j < PTRS_PER_TABLE" "k < PTRS_PER_TABLE" "n < PTRS_PER_TABLE"
  obtains a :: u64 where "vpn3_index a = i" "vpn2_index a = j" "vpn1_index a = k" "pte_index a = n"
proof -
  note assms = assms [unfolded PTRS_PER_TABLE_def]
  define x where "x = ((i * 512 + j) * 512 + k) * 512 + n"
  define a where "a = (of_nat (x * 4096) :: u64)"
  have x: "x < 512 * (512 * (512 * 512))" using assms by (simp add: x_def)
  hence a: "unat a = x * 4096"
    unfolding a_def by (subst unsigned_of_nat) (simp add: take_bit_nat_eq_self)
  have dm: "(y * 512 + z) div 512 = y" "(y * 512 + z) mod 512 = z" if "z < 512" for y z :: nat using that by simp_all
  have x1: "x div 512 = (i * 512 + j) * 512 + k" "x mod 512 = n" unfolding x_def by (rule dm [OF assms(4)])+
  note x2 = dm [OF assms(3), of "i * 512 + j"] dm [OF assms(2), of i]
  have "unat a div 2 ^ 12 = x" using a by simp
  moreover have "unat a div 2 ^ 21 = (i * 512 + j) * 512 + k"
    using a x1(1) div_mult2_eq [of "x * 4096" 4096 512] by simp
  moreover have "unat a div 2 ^ 30 = i * 512 + j"
    using calculation(2) x2(1) div_mult2_eq [of "unat a" "2 ^ 21" 512] by simp
  moreover have "unat a div 2 ^ 39 = i"
    using calculation(3) x2(3) div_mult2_eq [of "unat a" "2 ^ 30" 512] by simp
  ultimately show ?thesis
    using that [of a] x1(2) x2(2,4) assms
    by (simp add: vpn3_index_def vpn2_index_def vpn1_index_def pte_index_def unat_index)
qed

lemma index_bounds: "vpn3_index a < PTRS_PER_TABLE" "vpn2_index a < PTRS_PER_TABLE"
    "vpn1_index a < PTRS_PER_TABLE" "pte_index a < PTRS_PER_TABLE"
  by (simp_all add: vpn3_index_def vpn2_index_def vpn1_index_def pte_index_def unat_index PTRS_PER_TABLE_def)

text \<open>The entries by their indices, and the calls of the handler below each entry.\<close>

definition off3 :: "nat \<Rightarrow> nat \<Rightarrow> nat" where
  "off3 root i = root + 8 * i"

definition off2 :: "pt_env \<Rightarrow> pmem \<Rightarrow> nat \<Rightarrow> nat \<Rightarrow> nat \<Rightarrow> nat" where
  "off2 env m root i j = vpn_to_vaddr env m (off3 root i) + 8 * j"

definition off1 :: "pt_env \<Rightarrow> pmem \<Rightarrow> nat \<Rightarrow> nat \<Rightarrow> nat \<Rightarrow> nat \<Rightarrow> nat" where
  "off1 env m root i j k = vpn_to_vaddr env m (off2 env m root i j) + 8 * k"

definition off0 :: "pt_env \<Rightarrow> pmem \<Rightarrow> nat \<Rightarrow> nat \<Rightarrow> nat \<Rightarrow> nat \<Rightarrow> nat \<Rightarrow> nat" where
  "off0 env m root i j k n = vpn_to_vaddr env m (off1 env m root i j k) + 8 * n"

definition calls0 :: "pt_env \<Rightarrow> memory_ops \<Rightarrow> pmem \<Rightarrow> nat \<Rightarrow> nat \<Rightarrow> nat \<Rightarrow> nat \<Rightarrow> nat \<Rightarrow> (nat \<times> u64) list" where
  "calls0 env ops m root i j k n =
    (let e = off0 env m root i j k n in if pgentry_present ops (m e) = 0 then [] else [(e, PTE_SIZE)])"

definition calls1 :: "pt_env \<Rightarrow> memory_ops \<Rightarrow> pmem \<Rightarrow> nat \<Rightarrow> nat \<Rightarrow> nat \<Rightarrow> nat \<Rightarrow> (nat \<times> u64) list" where
  "calls1 env ops m root i j k =
    (let e = off1 env m root i j k
     in if pgentry_present ops (m e) = 0 then [] else if vpn_large (m e) then [(e, VPN1_SIZE)]
        else concat (map (calls0 env ops m root i j k) [0..<PTRS_PER_TABLE]))"

definition calls2 :: "pt_env \<Rightarrow> memory_ops \<Rightarrow> pmem \<Rightarrow> nat \<Rightarrow> nat \<Rightarrow> nat \<Rightarrow> (nat \<times> u64) list" where
  "calls2 env ops m root i j =
    (let e = off2 env m root i j
     in if pgentry_present ops (m e) = 0 then [] else if vpn_large (m e) then [(e, VPN2_SIZE)]
        else concat (map (calls1 env ops m root i j) [0..<PTRS_PER_TABLE]))"

definition calls3 :: "pt_env \<Rightarrow> memory_ops \<Rightarrow> pmem \<Rightarrow> nat \<Rightarrow> nat \<Rightarrow> (nat \<times> u64) list" where
  "calls3 env ops m root i =
    (if pgentry_present ops (m (off3 root i)) = 0 then [] else concat (map (calls2 env ops m root i) [0..<PTRS_PER_TABLE]))"

lemma walk_pte_calls:
  "n < PTRS_PER_TABLE \<Longrightarrow> walk_pte env ops record_entry (off1 env m root i j k) n (m, c) = (m, c @ calls0 env ops m root i j k n)"
  using index_push [of 12 n]
  by (simp add: walk_pte_def pte_offset_def pte_index_def record_entry_def calls0_def off0_def Let_def)

lemma walk_vpn1_calls:
  "k < PTRS_PER_TABLE \<Longrightarrow> walk_vpn1 env ops record_entry (off2 env m root i j) k (m, c) = (m, c @ calls1 env ops m root i j k)"
  using index_push [of 21 k]
    fold_record [of "[0..<PTRS_PER_TABLE]" "walk_pte env ops record_entry (off1 env m root i j k)" m "calls0 env ops m root i j k"]
  by (simp add: walk_vpn1_def vpn1_offset_def vpn1_index_def record_entry_def calls1_def walk_pte_calls
      off1_def [symmetric] Let_def)

lemma walk_vpn2_calls:
  "j < PTRS_PER_TABLE \<Longrightarrow> walk_vpn2 env ops record_entry (off3 root i) j (m, c) = (m, c @ calls2 env ops m root i j)"
  using index_push [of 30 j]
    fold_record [of "[0..<PTRS_PER_TABLE]" "walk_vpn1 env ops record_entry (off2 env m root i j)" m "calls1 env ops m root i j"]
  by (simp add: walk_vpn2_def vpn2_offset_def vpn2_index_def record_entry_def calls2_def walk_vpn1_calls
      off2_def [symmetric] Let_def)

lemma walk_s2pt_table_calls:
  "walk_s2pt_table env vm record_entry (m, []) = (m, concat (map (calls3 env (s2pt_mem_ops vm) m (s2ptp vm)) [0..<PTRS_PER_TABLE]))"
proof -
  let ?ops = "s2pt_mem_ops vm"
  have "(let vpn3 = vpn3_offset (s2ptp vm) (push_bit 39 (of_nat i))
      in if pgentry_present ?ops (m vpn3) = 0 then (m, c)
         else fold (walk_vpn2 env ?ops record_entry vpn3) [0..<PTRS_PER_TABLE] (m, c)) = (m, c @ calls3 env ?ops m (s2ptp vm) i)"
    if "i < PTRS_PER_TABLE" for i c
    using index_push [of 39 i] that
      fold_record [of "[0..<PTRS_PER_TABLE]" "walk_vpn2 env ?ops record_entry (off3 (s2ptp vm) i)" m "calls2 env ?ops m (s2ptp vm) i"]
    by (simp add: vpn3_offset_def vpn3_index_def calls3_def walk_vpn2_calls off3_def [symmetric])
  thus ?thesis
    unfolding walk_s2pt_table_def get_s2pt_entry_def Let_def by (subst fold_record) auto
qed

definition leaf_at :: "pt_env \<Rightarrow> memory_ops \<Rightarrow> pmem \<Rightarrow> nat \<Rightarrow> nat \<Rightarrow> nat \<Rightarrow> nat \<Rightarrow> nat \<Rightarrow> (nat \<times> u64) option" where
  "leaf_at env ops m root i j k n =
    (let np = (\<lambda>e. pgentry_present ops (m e) = 0); e2 = off2 env m root i j; e1 = off1 env m root i j k;
         e0 = off0 env m root i j k n
     in if np (off3 root i) \<or> np e2 then None else if vpn_large (m e2) then Some (e2, VPN2_SIZE)
        else if np e1 then None else if vpn_large (m e1) then Some (e1, VPN1_SIZE)
        else if np e0 then None else Some (e0, PTE_SIZE))"

lemma lookup_leaf_at:
  "lookup_address env ops root a m = leaf_at env ops m root (vpn3_index a) (vpn2_index a) (vpn1_index a) (pte_index a)"
  by (simp add: lookup_address_def leaf_at_def off3_def off2_def off1_def off0_def vpn3_offset_def vpn2_offset_def
      vpn1_offset_def pte_offset_def Let_def)

lemma calls_leaf_at:
  "e \<in> set (calls3 env ops m root i) \<longleftrightarrow> (\<exists>j < PTRS_PER_TABLE. \<exists>k < PTRS_PER_TABLE. \<exists>n < PTRS_PER_TABLE. leaf_at env ops m root i j k n = Some e)"
proof -
  have ex: "\<exists>x::nat. x < PTRS_PER_TABLE" by (intro exI [of _ 0]) (simp add: PTRS_PER_TABLE_def)
  have 0: "e \<in> set (calls0 env ops m root i j k n) \<longleftrightarrow> leaf_at env ops m root i j k n = Some e"
    if "pgentry_present ops (m (off3 root i)) \<noteq> 0" "pgentry_present ops (m (off2 env m root i j)) \<noteq> 0"
      "\<not> vpn_large (m (off2 env m root i j))" "pgentry_present ops (m (off1 env m root i j k)) \<noteq> 0"
      "\<not> vpn_large (m (off1 env m root i j k))" for j k n
    using that by (auto simp: calls0_def leaf_at_def Let_def)
  have 1: "e \<in> set (calls1 env ops m root i j k) \<longleftrightarrow> (\<exists>n < PTRS_PER_TABLE. leaf_at env ops m root i j k n = Some e)"
    if "pgentry_present ops (m (off3 root i)) \<noteq> 0" "pgentry_present ops (m (off2 env m root i j)) \<noteq> 0"
      "\<not> vpn_large (m (off2 env m root i j))" for j k
  proof (cases "pgentry_present ops (m (off1 env m root i j k)) = 0 \<or> vpn_large (m (off1 env m root i j k))")
    case True
    thus ?thesis using that ex by (auto simp: calls1_def leaf_at_def Let_def)
  next
    case False
    thus ?thesis using that 0 by (auto simp: calls1_def Let_def)
  qed
  have 2: "e \<in> set (calls2 env ops m root i j) \<longleftrightarrow> (\<exists>k < PTRS_PER_TABLE. \<exists>n < PTRS_PER_TABLE. leaf_at env ops m root i j k n = Some e)"
    if "pgentry_present ops (m (off3 root i)) \<noteq> 0" for j
  proof (cases "pgentry_present ops (m (off2 env m root i j)) = 0 \<or> vpn_large (m (off2 env m root i j))")
    case True
    thus ?thesis using that ex by (auto simp: calls2_def leaf_at_def Let_def)
  next
    case False
    thus ?thesis using that 1 by (auto simp: calls2_def Let_def)
  qed
  show ?thesis
  proof (cases "pgentry_present ops (m (off3 root i)) = 0")
    case True
    thus ?thesis by (simp add: calls3_def leaf_at_def)
  next
    case False
    thus ?thesis using 2 by (simp add: calls3_def Bex_def)
  qed
qed

lemma walk_s2pt_table_leaves:
  "set (snd (walk_s2pt_table env vm record_entry (m, [])))
    = {e. \<exists>a. lookup_address env (s2pt_mem_ops vm) (s2ptp vm) a m = Some e}"
proof (intro equalityI subsetI)
  fix e assume "e \<in> set (snd (walk_s2pt_table env vm record_entry (m, [])))"
  then obtain i j k n where "i < PTRS_PER_TABLE" "j < PTRS_PER_TABLE" "k < PTRS_PER_TABLE" "n < PTRS_PER_TABLE" and
    l: "leaf_at env (s2pt_mem_ops vm) m (s2ptp vm) i j k n = Some e"
    by (auto simp: walk_s2pt_table_calls calls_leaf_at)
  then obtain a where "vpn3_index a = i" "vpn2_index a = j" "vpn1_index a = k" "pte_index a = n"
    using address_of_indices by blast
  thus "e \<in> {e. \<exists>a. lookup_address env (s2pt_mem_ops vm) (s2ptp vm) a m = Some e}"
    using l lookup_leaf_at [of env "s2pt_mem_ops vm" "s2ptp vm" a m] by auto
next
  fix e assume "e \<in> {e. \<exists>a. lookup_address env (s2pt_mem_ops vm) (s2ptp vm) a m = Some e}"
  thus "e \<in> set (snd (walk_s2pt_table env vm record_entry (m, [])))"
    using index_bounds by (fastforce simp: walk_s2pt_table_calls calls_leaf_at lookup_leaf_at)
qed

subsection \<open>Looking up guest addresses\<close>

text \<open>
  \<open>local_gpa2hpa\<close> uses the bits of the entry as the address; the frame number
  starts at bit 10, not 12, so the result is a quarter of the address.
\<close>

lemma gpa2hpa_page:
  assumes "lookup_address env (s2pt_mem_ops vm) (s2ptp vm) gpa m = Some (p, PTE_SIZE)"
  shows "unat (gpa2hpa env vm gpa m) = unat (pgtable_get_mfn (m p)) div 4 mod 2 ^ 36 * 4096 + unat gpa mod 4096"
proof -
  define x where "x = (m p AND NOT S2PT_PFN_HIGH_MASK) AND NOT (PTE_SIZE - 1)"
  define y where "y = gpa AND (PTE_SIZE - 1)"
  have y: "unat y = unat gpa mod 4096"
  proof -
    have "y = take_bit 12 gpa" by (simp add: y_def PTE_SIZE_def take_bit_eq_mask mask_eq_exp_minus_1)
    thus ?thesis by (simp only: unat_take_bit) simp
  qed
  have x: "unat x = unat (m p) div 4096 mod 2 ^ 36 * 4096"
  proof -
    have "NOT S2PT_PFN_HIGH_MASK = (mask 48 :: u64)" by (simp add: S2PT_PFN_HIGH_MASK_def mask_eq_exp_minus_1)
    hence "x = take_bit 48 (m p) AND NOT (push_bit 12 1 - 1)" by (simp add: x_def PTE_SIZE_def take_bit_eq_mask)
    hence "unat x = unat (m p) mod 2 ^ 48 div 2 ^ 12 * 2 ^ 12" by (simp only: unat_and_not_mask unat_take_bit)
    moreover have "unat (m p) mod (4096 * 2 ^ 36) div 4096 = unat (m p) div 4096 mod 2 ^ 36"
      by (simp only: mod_mult2_eq)
    ultimately show ?thesis by simp
  qed
  have "x AND y = 0" by (intro bit_eqI) (auto simp: x_def y_def bit_simps)
  hence "x OR y = x + y" by (simp add: disjunctive_add_eq_or)
  hence "gpa2hpa env vm gpa m = x + y"
    using assms by (simp add: gpa2hpa_def local_gpa2hpa_def get_s2pt_entry_def x_def y_def Let_def)
  moreover have "unat (m p) div 4096 mod 2 ^ 36 < 2 ^ 36" by simp
  ultimately have "unat (gpa2hpa env vm gpa m) = unat x + unat y"
    by (simp only:) (subst unat_add_no_wrap, simp_all add: x y)
  moreover have "unat (pgtable_get_mfn (m p)) div 4 mod 2 ^ 36 = unat (m p) div 4096 mod 2 ^ 36"
  proof -
    have "unat (pgtable_get_mfn (m p)) = unat (m p) div 1024 mod (4 * 2 ^ 42)"
      by (simp only: pgtable_get_mfn_def unat_take_bit unat_drop_bit) simp
    also have "\<dots> div 4 mod 2 ^ 36 = unat (m p) div 1024 div 4 mod 2 ^ 36"
      by (subst mod_mult2_eq) (simp add: mod_mod_cancel)
    finally show ?thesis by (simp add: div_mult2_eq [symmetric])
  qed
  ultimately show ?thesis using x y by simp
qed

end
