(* ===== verification/Softirq.thy ===== *)
theory Softirq
  imports Bits Spinlock "HOL-Library.Monad_Syntax"
begin

text \<open>
  Soft interrupts: \<open>common/softirq.c\<close>.

  Handlers are function identifiers; \<open>run\<close> gives the effect of calling one.
  The service loop runs as long as handlers raise soft interrupts, so it is a
  partial function; it is proved to return when handlers raise none.  The
  macros that would open a window for interrupts are empty in this
  configuration.
\<close>

subsection \<open>Operations\<close>

record softirq_state = hart +
  softirq_pending :: "nat \<Rightarrow> u64"
  softirq_servicing :: "nat \<Rightarrow> u32"
  softirq_handlers :: "nat \<Rightarrow> nat"

definition SOFTIRQ_TIMER :: nat where "SOFTIRQ_TIMER = 0"
definition SOFTIRQ_PTDEV :: nat where "SOFTIRQ_PTDEV = 1"
definition NR_SOFTIRQS :: nat where "NR_SOFTIRQS = 2"

definition init_softirq :: "'a softirq_state_scheme \<Rightarrow> 'a softirq_state_scheme" where
  "init_softirq s = s"

definition register_softirq :: "nat \<Rightarrow> nat \<Rightarrow> 'a softirq_state_scheme \<Rightarrow> 'a softirq_state_scheme" where
  "register_softirq nr handler s = s\<lparr>softirq_handlers := (softirq_handlers s)(nr := handler)\<rparr>"

definition fire_softirq :: "nat \<Rightarrow> 'a softirq_state_scheme \<Rightarrow> 'a softirq_state_scheme" where
  "fire_softirq nr s = (let cpu = get_pcpu_id s
    in s\<lparr>softirq_pending := (softirq_pending s)(cpu := bitmap_set_lock nr (softirq_pending s cpu))\<rparr>)"

partial_function (option) do_softirq_internal ::
  "(nat \<Rightarrow> nat \<Rightarrow> 'a softirq_state_scheme \<Rightarrow> 'a softirq_state_scheme) \<Rightarrow> nat \<Rightarrow>
    'a softirq_state_scheme \<Rightarrow> 'a softirq_state_scheme option" where
  "do_softirq_internal run cpu_id s =
    (let nr = ffs64 (softirq_pending s cpu_id)
     in if nr < NR_SOFTIRQS
        then
          let s = s\<lparr>softirq_pending := (softirq_pending s)(cpu_id := bitmap_clear_lock nr (softirq_pending s cpu_id))\<rparr>;
              s = run (softirq_handlers s nr) cpu_id s
          in do_softirq_internal run cpu_id s
        else Some s)"

declare do_softirq_internal.simps [code]

definition do_softirq ::
  "(nat \<Rightarrow> nat \<Rightarrow> 'a softirq_state_scheme \<Rightarrow> 'a softirq_state_scheme) \<Rightarrow>
    'a softirq_state_scheme \<Rightarrow> 'a softirq_state_scheme option" where
  "do_softirq run s =
    (let cpu_id = get_pcpu_id s
     in if softirq_servicing s cpu_id = 0
        then do {
          let s = s\<lparr>softirq_servicing := (softirq_servicing s)(cpu_id := 1)\<rparr>;
          s \<leftarrow> do_softirq_internal run cpu_id s;
          s \<leftarrow> do_softirq_internal run cpu_id s;
          Some (s\<lparr>softirq_servicing := (softirq_servicing s)(cpu_id := 0)\<rparr>)
        }
        else Some s)"

subsection \<open>Service\<close>

text \<open>The soft interrupts that wait for service on a hart.\<close>

definition softirqs_due :: "nat \<Rightarrow> 'a softirq_state_scheme \<Rightarrow> nat list" where
  "softirqs_due cpu s = filter (bit (softirq_pending s cpu)) [0..<NR_SOFTIRQS]"

text \<open>
  Handlers that raise no soft interrupt and leave the service state alone; the
  rest of the state is theirs.
\<close>

definition handlers_quiet :: "(nat \<Rightarrow> nat \<Rightarrow> 'a softirq_state_scheme \<Rightarrow> 'a softirq_state_scheme) \<Rightarrow> bool" where
  "handlers_quiet run \<longleftrightarrow> (\<forall>f cpu s. softirq_pending (run f cpu s) = softirq_pending s \<and>
    softirq_handlers (run f cpu s) = softirq_handlers s \<and> softirq_servicing (run f cpu s) = softirq_servicing s)"

definition clear_pending :: "nat \<Rightarrow> nat \<Rightarrow> 'a softirq_state_scheme \<Rightarrow> 'a softirq_state_scheme" where
  "clear_pending cpu nr s =
    s\<lparr>softirq_pending := (softirq_pending s)(cpu := bitmap_clear_lock nr (softirq_pending s cpu))\<rparr>"

text \<open>The service as a fold over the due soft interrupts, lowest number first.\<close>

definition serve :: "(nat \<Rightarrow> nat \<Rightarrow> 'a softirq_state_scheme \<Rightarrow> 'a softirq_state_scheme) \<Rightarrow> nat \<Rightarrow> nat \<Rightarrow>
    'a softirq_state_scheme \<Rightarrow> 'a softirq_state_scheme" where
  "serve run cpu nr s = (let s = clear_pending cpu nr s in run (softirq_handlers s nr) cpu s)"

lemma due_cases:
  obtains "softirqs_due cpu s = []" "\<not> ffs64 (softirq_pending s cpu) < NR_SOFTIRQS"
  | ns where "softirqs_due cpu s = ffs64 (softirq_pending s cpu) # ns" "ffs64 (softirq_pending s cpu) < NR_SOFTIRQS"
      "ns = filter (\<lambda>i. i \<noteq> ffs64 (softirq_pending s cpu) \<and> bit (softirq_pending s cpu) i) [0..<NR_SOFTIRQS]"
proof -
  let ?w = "softirq_pending s cpu"
  have u: "[0..<NR_SOFTIRQS] = [0, 1]" by (simp add: NR_SOFTIRQS_def upt_rec)
  have lt: "0 < NR_SOFTIRQS" "Suc 0 < NR_SOFTIRQS" by (simp_all add: NR_SOFTIRQS_def)
  have c: "ffs64 ?w = ctz ?w" by (simp add: ffs64_def ffsl_def)
  consider "bit ?w 0" | "\<not> bit ?w 0" "bit ?w 1" | "\<not> bit ?w 0" "\<not> bit ?w 1" by blast
  thus thesis
  proof cases
    case 1
    hence "ffs64 ?w = 0" unfolding c by (intro ctz_eqI) auto
    thus thesis using 1 that(2) by (auto simp: softirqs_due_def u lt)
  next
    case 2
    hence "ffs64 ?w = 1" unfolding c by (intro ctz_eqI) auto
    thus thesis using 2 that(2) by (auto simp: softirqs_due_def u lt)
  next
    case 3
    have "\<not> ctz ?w < NR_SOFTIRQS"
      unfolding NR_SOFTIRQS_def
    proof
      assume h: "ctz ?w < 2"
      hence "bit ?w (ctz ?w)" by (intro ctz_at) simp
      moreover have "ctz ?w = 0 \<or> ctz ?w = 1" using h by linarith
      ultimately show False using 3 by auto
    qed
    thus thesis using 3 that(1) by (auto simp: softirqs_due_def u c)
  qed
qed

lemma due_serve:
  assumes "handlers_quiet run" "nr < NR_SOFTIRQS"
  shows "softirqs_due cpu (serve run cpu nr s) = filter (\<lambda>i. i \<noteq> nr \<and> bit (softirq_pending s cpu) i) [0..<NR_SOFTIRQS]"
proof -
  have "nr < 31" using assms(2) by (simp add: NR_SOFTIRQS_def)
  hence "bit (bitmap_clear_lock nr w) = (\<lambda>i. i \<noteq> nr \<and> bit w i)" for w
    by (simp add: fun_eq_iff bit_bitmap_clear_lock)
  thus ?thesis
    using assms by (simp add: softirqs_due_def serve_def clear_pending_def handlers_quiet_def Let_def)
qed

lemma do_softirq_internal_serves:
  assumes "handlers_quiet run"
  shows "do_softirq_internal run cpu s = Some (fold (serve run cpu) (softirqs_due cpu s) s)"
proof (induction "length (softirqs_due cpu s)" arbitrary: s)
  case 0
  show ?case
    by (rule due_cases [of cpu s]) (use 0 in \<open>simp_all add: do_softirq_internal.simps\<close>)
next
  case (Suc n)
  then obtain ns where d: "softirqs_due cpu s = ffs64 (softirq_pending s cpu) # ns"
    "ffs64 (softirq_pending s cpu) < NR_SOFTIRQS"
    "ns = filter (\<lambda>i. i \<noteq> ffs64 (softirq_pending s cpu) \<and> bit (softirq_pending s cpu) i) [0..<NR_SOFTIRQS]"
    by (cases rule: due_cases [of cpu s]) auto
  let ?s = "serve run cpu (ffs64 (softirq_pending s cpu)) s"
  have ns: "softirqs_due cpu ?s = ns" using due_serve [OF assms d(2)] d(3) by simp
  have "do_softirq_internal run cpu s = do_softirq_internal run cpu ?s"
    using d(2) by (subst do_softirq_internal.simps) (simp add: serve_def clear_pending_def Let_def)
  also have "\<dots> = Some (fold (serve run cpu) ns ?s)" using Suc.hyps(1) [of ?s] Suc.hyps(2) d(1) ns by simp
  finally show ?case by (simp add: d(1))
qed

lemma fold_serve_due:
  assumes "handlers_quiet run" "\<forall>nr \<in> set ns. nr < NR_SOFTIRQS"
  shows "softirqs_due cpu (fold (serve run cpu) ns s) = filter (\<lambda>i. i \<notin> set ns) (softirqs_due cpu s)"
  using assms(2)
proof (induction ns arbitrary: s)
  case (Cons nr ns)
  have "softirqs_due cpu (serve run cpu nr s) = filter (\<lambda>i. i \<noteq> nr) (softirqs_due cpu s)"
    using due_serve [OF assms(1), of nr cpu s] Cons.prems by (simp add: softirqs_due_def conj_commute)
  thus ?case using Cons.IH [of "serve run cpu nr s"] Cons.prems by (auto intro: filter_cong)
qed simp

text \<open>\<open>do_softirq\<close> serves every due soft interrupt once, in order, and leaves none.\<close>

lemma do_softirq_serves:
  fixes s :: "'a softirq_state_scheme"
  assumes q: "handlers_quiet run" and idle: "softirq_servicing s (get_pcpu_id s) = 0"
  defines "cpu \<equiv> get_pcpu_id s"
  defines "s1 \<equiv> s\<lparr>softirq_servicing := (softirq_servicing s)(cpu := 1)\<rparr>"
  defines "s2 \<equiv> fold (serve run cpu) (softirqs_due cpu s1) s1"
  shows "do_softirq run s = Some (s2\<lparr>softirq_servicing := (softirq_servicing s2)(cpu := 0)\<rparr>)"
    "softirqs_due cpu s2 = []"
proof -
  have "\<forall>nr \<in> set (softirqs_due cpu s1). nr < NR_SOFTIRQS" by (auto simp: softirqs_due_def)
  from fold_serve_due [OF q this, of cpu s1] show due: "softirqs_due cpu s2 = []"
    by (simp add: s2_def filter_empty_conv)
  have "do_softirq_internal run cpu s1 = Some s2" "do_softirq_internal run cpu s2 = Some s2"
    using do_softirq_internal_serves [OF q] due by (simp_all add: s2_def)
  thus "do_softirq run s = Some (s2\<lparr>softirq_servicing := (softirq_servicing s2)(cpu := 0)\<rparr>)"
    using idle by (simp add: do_softirq_def s1_def cpu_def Let_def)
qed

text \<open>A nested call, from a handler or an interrupt on the way, does nothing.\<close>

lemma do_softirq_nested: "softirq_servicing s (get_pcpu_id s) \<noteq> 0 \<Longrightarrow> do_softirq run s = Some s"
  by (simp add: do_softirq_def Let_def)

end
