(* ===== verification/Irq.thy ===== *)
theory Irq
  imports Softirq
begin

text \<open>
  Physical interrupts: descriptors and numbers (\<open>common/irq.c\<close>), their
  RISC-V part (\<open>arch/riscv/irq.c\<close>), and the interrupt controller
  (\<open>arch/riscv/plic.c\<close>).

  The registers of the controller are a map from offsets to words.  Reading the
  claim register has an effect in the device, so the values it delivers are a
  sequence, of which each read takes the next.  Interrupt actions are function
  identifiers, run by a parameter.  A null pointer that is dereferenced is
  \<open>None\<close>.
\<close>

subsection \<open>State\<close>

record irq_desc =
  desc_irq :: u32
  arch_data :: "nat option"
  irq_action :: "nat option"
  irq_priv :: nat
  irq_flags :: u32
  irq_lock :: spinlock_t

record arch_irq_desc =
  irq_vector :: u32
  irq_status :: u32
  irq_type :: u32
  irqchip :: "nat option"

record irq_state = softirq_state +
  irq_alloc_bitmap :: "nat \<Rightarrow> u64"
  irq_rsvd_bitmap :: "nat \<Rightarrow> u64"
  irq_alloc_spinlock :: spinlock_t
  irq_desc_array :: "nat \<Rightarrow> irq_desc"
  irq_count :: "nat \<Rightarrow> nat \<Rightarrow> u64"
  riscv_irq_spinlock :: spinlock_t
  irq_data :: "nat \<Rightarrow> arch_irq_desc"
  riscv_irq_desc :: "nat \<Rightarrow> irq_desc"
  plic_lock :: spinlock_t
  plic_reg :: "u32 \<Rightarrow> u32"
  plic_claim :: "nat \<Rightarrow> u32"
  plic_claims :: nat

definition NR_IRQS :: nat where "NR_IRQS = 256"
definition IRQ_INVALID :: u32 where "IRQ_INVALID = 0xffffffff"
definition IRQF_NONE :: u32 where "IRQF_NONE = 0"
definition IRQF_LEVEL :: u32 where "IRQF_LEVEL = 2"
definition IRQ_TYPE_INVALID :: u32 where "IRQ_TYPE_INVALID = 0x10"
definition IRQ_INPROGRESS_BIT :: nat where "IRQ_INPROGRESS_BIT = 0"
definition IRQ_DISABLED_BIT :: nat where "IRQ_DISABLED_BIT = 1"
definition IRQ_VECTOR_INVALID :: u32 where "IRQ_VECTOR_INVALID = 0x100"

definition upd_desc :: "nat \<Rightarrow> (irq_desc \<Rightarrow> irq_desc) \<Rightarrow> 'a irq_state_scheme \<Rightarrow> 'a irq_state_scheme" where
  "upd_desc i f s = s\<lparr>irq_desc_array := (irq_desc_array s)(i := f (irq_desc_array s i))\<rparr>"

definition upd_rdesc :: "nat \<Rightarrow> (irq_desc \<Rightarrow> irq_desc) \<Rightarrow> 'a irq_state_scheme \<Rightarrow> 'a irq_state_scheme" where
  "upd_rdesc i f s = s\<lparr>riscv_irq_desc := (riscv_irq_desc s)(i := f (riscv_irq_desc s i))\<rparr>"

definition upd_data :: "nat \<Rightarrow> (arch_irq_desc \<Rightarrow> arch_irq_desc) \<Rightarrow> 'a irq_state_scheme \<Rightarrow> 'a irq_state_scheme" where
  "upd_data i f s = s\<lparr>irq_data := (irq_data s)(i := f (irq_data s i))\<rparr>"

subsection \<open>Interrupt numbers\<close>

definition alloc_irq_num :: "u32 \<Rightarrow> bool \<Rightarrow> 'a irq_state_scheme \<Rightarrow> (u32 \<times> 'a irq_state_scheme) option" where
  "alloc_irq_num req_irq reserve s =
    (if unat req_irq \<ge> NR_IRQS \<and> req_irq \<noteq> IRQ_INVALID then Some (IRQ_INVALID, s)
     else do {
       let (rflags, s) = local_irq_save s;
       lock \<leftarrow> spinlock_obtain (irq_alloc_spinlock s);
       let s = s\<lparr>irq_alloc_spinlock := lock\<rparr>;
       let irq = (if req_irq = IRQ_INVALID then of_nat (ffz64_ex (irq_alloc_bitmap s) NR_IRQS) else req_irq);
       let (irq, s) = (if unat irq \<ge> NR_IRQS then (IRQ_INVALID, s)
         else let i = unat (drop_bit 6 irq); b = unat (irq AND 0x3F);
                  s = s\<lparr>irq_alloc_bitmap := (irq_alloc_bitmap s)(i := bitmap_set_nolock b (irq_alloc_bitmap s i))\<rparr>;
                  s = (if reserve
                       then s\<lparr>irq_rsvd_bitmap := (irq_rsvd_bitmap s)(i := bitmap_set_nolock b (irq_rsvd_bitmap s i))\<rparr>
                       else s)
              in (irq, s));
       let s = s\<lparr>irq_alloc_spinlock := spinlock_release (irq_alloc_spinlock s)\<rparr>;
       Some (irq, local_irq_restore rflags s)
     })"

definition reserve_irq_num :: "u32 \<Rightarrow> 'a irq_state_scheme \<Rightarrow> (u32 \<times> 'a irq_state_scheme) option" where
  "reserve_irq_num irq s = alloc_irq_num irq True s"

definition free_irq_num :: "u32 \<Rightarrow> 'a irq_state_scheme \<Rightarrow> 'a irq_state_scheme option" where
  "free_irq_num irq s =
    (if unat irq < NR_IRQS
     then do {
       let (rflags, s) = local_irq_save s;
       lock \<leftarrow> spinlock_obtain (irq_alloc_spinlock s);
       let s = s\<lparr>irq_alloc_spinlock := lock\<rparr>;
       let i = unat (drop_bit 6 irq);
       let b = unat (irq AND 0x3F);
       let s = (if \<not> bitmap_test b (irq_rsvd_bitmap s i)
                then s\<lparr>irq_alloc_bitmap := (irq_alloc_bitmap s)(i := snd (bitmap_clear_nolock b (irq_alloc_bitmap s i)))\<rparr>
                else s);
       let s = s\<lparr>irq_alloc_spinlock := spinlock_release (irq_alloc_spinlock s)\<rparr>;
       Some (local_irq_restore rflags s)
     }
     else Some s)"

subsection \<open>Descriptors\<close>

definition desc_section ::
  "nat \<Rightarrow> (irq_desc \<Rightarrow> irq_desc) \<Rightarrow> 'a irq_state_scheme \<Rightarrow> 'a irq_state_scheme option" where
  "desc_section i f s = do {
     let (rflags, s) = local_irq_save s;
     lock \<leftarrow> spinlock_obtain (irq_lock (irq_desc_array s i));
     let s = upd_desc i (\<lambda>d. f (d\<lparr>irq_lock := lock\<rparr>)) s;
     let s = upd_desc i (\<lambda>d. d\<lparr>irq_lock := spinlock_release (irq_lock d)\<rparr>) s;
     Some (local_irq_restore rflags s)
   }"

definition free_irq :: "u32 \<Rightarrow> 'a irq_state_scheme \<Rightarrow> 'a irq_state_scheme option" where
  "free_irq irq s =
    (if unat irq < NR_IRQS
     then do {
       s \<leftarrow> desc_section (unat irq) (\<lambda>d. d\<lparr>irq_action := None, irq_priv := 0, irq_flags := IRQF_NONE\<rparr>) s;
       free_irq_num irq s
     }
     else Some s)"

text \<open>\<open>request_irq_arch\<close> always succeeds on RISC-V.\<close>

definition request_irq_arch :: "u32 \<Rightarrow> bool" where
  "request_irq_arch irq = True"

definition request_irq ::
  "u32 \<Rightarrow> nat \<Rightarrow> nat \<Rightarrow> u32 \<Rightarrow> 'a irq_state_scheme \<Rightarrow> (int \<times> 'a irq_state_scheme) option" where
  "request_irq req_irq action_fn priv rflags s = do {
     (irq, s) \<leftarrow> alloc_irq_num req_irq False s;
     if irq = IRQ_INVALID then Some (- EINVAL, s)
     else if \<not> request_irq_arch irq then do { s \<leftarrow> free_irq_num irq s; Some (- EINVAL, s) }
     else if irq_action (irq_desc_array s (unat irq)) = None
     then do {
       s \<leftarrow> desc_section (unat irq) (\<lambda>d. d\<lparr>irq_flags := rflags, irq_priv := priv, irq_action := Some action_fn\<rparr>) s;
       Some (sint irq, s)
     }
     else Some (- EBUSY, s)
   }"

definition set_irq_trigger_mode :: "u32 \<Rightarrow> bool \<Rightarrow> 'a irq_state_scheme \<Rightarrow> 'a irq_state_scheme option" where
  "set_irq_trigger_mode irq is_level_triggered s =
    (if unat irq < NR_IRQS
     then desc_section (unat irq) (\<lambda>d. d\<lparr>irq_flags := (if is_level_triggered then irq_flags d OR IRQF_LEVEL
       else irq_flags d AND NOT IRQF_LEVEL)\<rparr>) s
     else Some s)"

subsection \<open>Service\<close>

type_synonym 'a irq_call = "nat \<Rightarrow> u32 \<Rightarrow> nat \<Rightarrow> 'a irq_state_scheme \<Rightarrow> 'a irq_state_scheme option"

definition handle_irq :: "'a irq_call \<Rightarrow> irq_desc \<Rightarrow> 'a irq_state_scheme \<Rightarrow> 'a irq_state_scheme option" where
  "handle_irq act d s = (case irq_action d of Some f \<Rightarrow> act f (desc_irq d) (irq_priv d) s | None \<Rightarrow> Some s)"

definition do_irq ::
  "'a irq_call \<Rightarrow> (nat \<Rightarrow> nat \<Rightarrow> 'a irq_state_scheme \<Rightarrow> 'a irq_state_scheme) \<Rightarrow> u32 \<Rightarrow>
    'a irq_state_scheme \<Rightarrow> 'a irq_state_scheme option" where
  "do_irq act run irq s = do {
     s \<leftarrow> (if unat irq < NR_IRQS
           then let i = unat irq; c = get_pcpu_id s;
                    s = s\<lparr>irq_count := (irq_count s)(c := (irq_count s c)(i := irq_count s c i + 1))\<rparr>
                in if bitmap_test (unat (irq AND 0x3F)) (irq_alloc_bitmap s (unat (drop_bit 6 irq)))
                   then handle_irq act (irq_desc_array s i) s else Some s
           else Some s);
     do_softirq run s
   }"

subsection \<open>Initialization\<close>

definition init_irq_descs_arch :: "'a irq_state_scheme \<Rightarrow> 'a irq_state_scheme" where
  "init_irq_descs_arch s = fold (\<lambda>i s. upd_desc i (\<lambda>d. d\<lparr>arch_data := Some i\<rparr>)
     (upd_data i (\<lambda>a. a\<lparr>irq_vector := IRQ_VECTOR_INVALID\<rparr>) s)) [0..<NR_IRQS] s"

definition init_irq_descs :: "'a irq_state_scheme \<Rightarrow> 'a irq_state_scheme" where
  "init_irq_descs s = init_irq_descs_arch
     (fold (\<lambda>i. upd_desc i (\<lambda>d. d\<lparr>desc_irq := of_nat i, irq_lock := spinlock_init\<rparr>)) [0..<NR_IRQS] s)"

definition init_interrupt :: "nat \<Rightarrow> 'a irq_state_scheme \<Rightarrow> 'a irq_state_scheme" where
  "init_interrupt cpu s = (if cpu = 0 then init_softirq (init_irq_descs s) else s)"

definition irq_to_vector :: "u32 \<Rightarrow> 'a irq_state_scheme \<Rightarrow> (u32 \<times> 'a irq_state_scheme) option" where
  "irq_to_vector irq s =
    (if unat irq < NR_IRQS
     then do {
       let (rflags, s) = local_irq_save s;
       lock \<leftarrow> spinlock_obtain (riscv_irq_spinlock s);
       let s = s\<lparr>riscv_irq_spinlock := lock\<rparr>;
       let ret = irq_vector (irq_data s (unat irq));
       let s = s\<lparr>riscv_irq_spinlock := spinlock_release (riscv_irq_spinlock s)\<rparr>;
       Some (ret, local_irq_restore rflags s)
     }
     else Some (IRQ_VECTOR_INVALID, s))"

text \<open>These work on the descriptors of \<open>arch/riscv/irq.c\<close>, an array of its own.\<close>

definition DUMMY_IRQCHIP :: nat where "DUMMY_IRQCHIP = 0"
definition PLIC_OPS :: nat where "PLIC_OPS = 1"

definition init_one_irq_desc :: "nat \<Rightarrow> 'a irq_state_scheme \<Rightarrow> (int \<times> 'a irq_state_scheme) option" where
  "init_one_irq_desc i s = do {
     d \<leftarrow> arch_data (riscv_irq_desc s i);
     if irqchip (irq_data s d) \<noteq> None then Some (0, s)
     else Some (0, upd_data d (\<lambda>a. a\<lparr>irq_status := ucast (set_bit_u64 IRQ_DISABLED_BIT (ucast (irq_status a))),
                                    irqchip := Some DUMMY_IRQCHIP, irq_type := IRQ_TYPE_INVALID\<rparr>) s)
   }"

fun init_irq_data :: "nat list \<Rightarrow> 'a irq_state_scheme \<Rightarrow> 'a irq_state_scheme option" where
  "init_irq_data [] s = Some s"
| "init_irq_data (i # is) s = do {
     (err, s) \<leftarrow> init_one_irq_desc i s;
     init_irq_data is (upd_rdesc i (\<lambda>d. d\<lparr>desc_irq := of_nat i, irq_action := None\<rparr>) s)
   }"

definition init_IRQ :: "'a irq_state_scheme \<Rightarrow> 'a irq_state_scheme option" where
  "init_IRQ s = init_irq_data [0..<NR_IRQS] s"

definition irq_set_type :: "nat \<Rightarrow> u32 \<Rightarrow> 'a irq_state_scheme \<Rightarrow> (int \<times> 'a irq_state_scheme) option" where
  "irq_set_type irq type s = do {
     d \<leftarrow> arch_data (riscv_irq_desc s irq);
     Some (0, upd_data d (\<lambda>a. a\<lparr>irq_type := type\<rparr>) s)
   }"

subsection \<open>The interrupt controller\<close>

definition PLIC_IPRR :: u32 where "PLIC_IPRR = 0"
definition PLIC_IER :: u32 where "PLIC_IER = 0x2000"
definition PLIC_THR :: u32 where "PLIC_THR = 0x200000"
definition PLIC_EOIR :: u32 where "PLIC_EOIR = 0x200004"

definition plic_write32 :: "u32 \<Rightarrow> u32 \<Rightarrow> 'a irq_state_scheme \<Rightarrow> 'a irq_state_scheme" where
  "plic_write32 x offset s = s\<lparr>plic_reg := (plic_reg s)(offset := x)\<rparr>"

definition plic_read32 :: "u32 \<Rightarrow> 'a irq_state_scheme \<Rightarrow> u32 \<times> 'a irq_state_scheme" where
  "plic_read32 offset s =
    (if offset = PLIC_EOIR then (plic_claim s (plic_claims s), s\<lparr>plic_claims := plic_claims s + 1\<rparr>)
     else (plic_reg s offset, s))"

definition plic_set_irq :: "irq_desc \<Rightarrow> u32 \<Rightarrow> 'a irq_state_scheme \<Rightarrow> 'a irq_state_scheme" where
  "plic_set_irq d offset s =
    (let base = offset + (desc_irq d div 32) * 4; (x, s) = plic_read32 base s
     in plic_write32 (x OR push_bit (unat (desc_irq d mod 32)) 1) base s)"

definition plic_clear_irq :: "irq_desc \<Rightarrow> u32 \<Rightarrow> 'a irq_state_scheme \<Rightarrow> 'a irq_state_scheme" where
  "plic_clear_irq d offset s =
    (let base = offset + (desc_irq d div 32) * 4; (x, s) = plic_read32 base s
     in plic_write32 (x AND NOT (push_bit (unat (desc_irq d mod 32)) 1)) base s)"

definition plic_section ::
  "('a irq_state_scheme \<Rightarrow> 'a irq_state_scheme) \<Rightarrow> 'a irq_state_scheme \<Rightarrow> 'a irq_state_scheme option" where
  "plic_section f s = do {
     lock \<leftarrow> spinlock_obtain (plic_lock s);
     let s = f (s\<lparr>plic_lock := lock\<rparr>);
     Some (s\<lparr>plic_lock := spinlock_release (plic_lock s)\<rparr>)
   }"

definition plic_set_irq_mask :: "u32 \<Rightarrow> 'a irq_state_scheme \<Rightarrow> 'a irq_state_scheme option" where
  "plic_set_irq_mask priority s = plic_section (plic_write32 (priority AND 7) PLIC_THR) s"

definition plic_set_irq_priority :: "irq_desc \<Rightarrow> u32 \<Rightarrow> 'a irq_state_scheme \<Rightarrow> 'a irq_state_scheme option" where
  "plic_set_irq_priority d priority s = plic_section (plic_write32 (priority AND 7) (PLIC_IPRR + desc_irq d * 4)) s"

definition plic_irq_enable :: "irq_desc \<Rightarrow> 'a irq_state_scheme \<Rightarrow> 'a irq_state_scheme option" where
  "plic_irq_enable d s = do {
     let (rflags, s) = local_irq_save s;
     a \<leftarrow> arch_data d;
     s \<leftarrow> plic_section (\<lambda>s. upd_data a (\<lambda>r. r\<lparr>irq_status := ucast (clear_bit IRQ_DISABLED_BIT (ucast (irq_status r)))\<rparr>)
           (plic_set_irq d PLIC_IER s)) s;
     Some (local_irq_restore rflags s)
   }"

definition plic_irq_disable :: "irq_desc \<Rightarrow> 'a irq_state_scheme \<Rightarrow> 'a irq_state_scheme option" where
  "plic_irq_disable d s = do {
     let (rflags, s) = local_irq_save s;
     a \<leftarrow> arch_data d;
     s \<leftarrow> plic_section (\<lambda>s. upd_data a (\<lambda>r. r\<lparr>irq_status := ucast (set_bit_u64 IRQ_DISABLED_BIT (ucast (irq_status r)))\<rparr>)
           (plic_clear_irq d PLIC_IER s)) s;
     Some (local_irq_restore rflags s)
   }"

definition plic_get_irq :: "'a irq_state_scheme \<Rightarrow> u32 \<times> 'a irq_state_scheme" where
  "plic_get_irq s = plic_read32 PLIC_EOIR s"

definition plic_eoi_irq :: "irq_desc \<Rightarrow> 'a irq_state_scheme \<Rightarrow> 'a irq_state_scheme" where
  "plic_eoi_irq d s = plic_write32 (desc_irq d) PLIC_EOIR s"

subsection \<open>Dispatch\<close>

text \<open>
  The dummy chip has no operations: its \<open>eoi\<close> is a null pointer.  \<open>spin_unlock_irq\<close> and
  \<open>spin_lock_irq\<close> also enable and disable interrupts.
\<close>

definition do_IRQ :: "'a irq_call \<Rightarrow> nat \<Rightarrow> 'a irq_state_scheme \<Rightarrow> 'a irq_state_scheme option" where
  "do_IRQ act irq s = do {
     lock \<leftarrow> spinlock_obtain (irq_lock (riscv_irq_desc s irq));
     let s = upd_rdesc irq (\<lambda>d. d\<lparr>irq_lock := lock\<rparr>) s;
     a \<leftarrow> arch_data (riscv_irq_desc s irq);
     s \<leftarrow> (if test_bit IRQ_DISABLED_BIT (ucast (irq_status (irq_data s a))) then Some s
           else do {
             let s = upd_data a (\<lambda>r. r\<lparr>irq_status := ucast (set_bit_u64 IRQ_INPROGRESS_BIT (ucast (irq_status r)))\<rparr>) s;
             let s = local_irq_enable (upd_rdesc irq (\<lambda>d. d\<lparr>irq_lock := spinlock_release (irq_lock d)\<rparr>) s);
             s \<leftarrow> (case irq_action (riscv_irq_desc s irq) of Some f \<Rightarrow> act f (of_nat irq) 0 s | None \<Rightarrow> Some s);
             let s = local_irq_disable s;
             lock \<leftarrow> spinlock_obtain (irq_lock (riscv_irq_desc s irq));
             let s = upd_rdesc irq (\<lambda>d. d\<lparr>irq_lock := lock\<rparr>) s;
             Some (upd_data a (\<lambda>r. r\<lparr>irq_status := ucast (clear_bit IRQ_INPROGRESS_BIT (ucast (irq_status r)))\<rparr>) s)
           });
     s \<leftarrow> (if irqchip (irq_data s a) = Some PLIC_OPS then Some (plic_eoi_irq (riscv_irq_desc s irq) s) else None);
     Some (upd_rdesc irq (\<lambda>d. d\<lparr>irq_lock := spinlock_release (irq_lock d)\<rparr>) s)
   }"

partial_function (option) dispatch_interrupt :: "'a irq_call \<Rightarrow> 'a irq_state_scheme \<Rightarrow> 'a irq_state_scheme option" where
  "dispatch_interrupt act s =
    (let (irq, s) = plic_get_irq s
     in if irq = 0 then Some s else Option.bind (do_IRQ act (unat irq) s) (dispatch_interrupt act))"

declare dispatch_interrupt.simps [code]

subsection \<open>Requesting and releasing an interrupt\<close>

lemma irq_valid:
  fixes irq :: u32
  assumes "unat irq < NR_IRQS" shows "irq \<noteq> IRQ_INVALID" "sint irq = int (unat irq)"
proof -
  have lt: "irq < 256" unfolding word_less_nat_alt using assms by (simp add: NR_IRQS_def)
  thus "irq \<noteq> IRQ_INVALID" by (auto simp: IRQ_INVALID_def)
  have u: "int (unat irq) = uint irq" by simp
  have "uint irq < 256" using lt by (simp add: word_less_def)
  moreover have "0 \<le> uint irq" by simp
  ultimately have "- (2 ^ 31) \<le> uint irq" "uint irq < 2 ^ 31" by (auto intro: order.trans [of _ 0] order.strict_trans [of _ 256])
  hence "signed_take_bit 31 (uint irq) = uint irq" by (rule signed_take_bit_int_eq_self)
  hence "sint irq = uint irq" by (simp add: sint_uint)
  thus "sint irq = int (unat irq)" unfolding u .
qed

lemma desc_section_eq:
  fixes s :: "'a irq_state_scheme"
  assumes "lock_free (irq_lock (irq_desc_array s i))" "\<And>d l. f (d\<lparr>irq_lock := l\<rparr>) = (f d)\<lparr>irq_lock := l\<rparr>"
  shows "\<exists>lock. lock_free lock \<and> desc_section i f s = Some (upd_desc i (\<lambda>d. (f d)\<lparr>irq_lock := lock\<rparr>) s)"
  using assms by (intro exI [of _ "spinlock_release ((irq_lock (irq_desc_array s i))\<lparr>lock_head := lock_head (irq_lock (irq_desc_array s i)) + 1\<rparr>)"])
    (simp add: desc_section_def local_irq_save_def local_irq_disable_def local_irq_restore_def upd_desc_def spinlock_obtain_free)

text \<open>\<open>bitmap_set_nolock\<close> and \<open>bitmap_clear_nolock\<close> change nothing, so allocation leaves only a trace in the lock.\<close>

lemma alloc_irq_num_eq:
  fixes s :: "'a irq_state_scheme"
  assumes "unat irq < NR_IRQS" "lock_free (irq_alloc_spinlock s)"
  shows "\<exists>lock. lock_free lock \<and> alloc_irq_num irq rs s = Some (irq, s\<lparr>irq_alloc_spinlock := lock\<rparr>)"
proof -
  show ?thesis using irq_valid [OF assms(1)] assms
    by (intro exI [of _ "spinlock_release ((irq_alloc_spinlock s)\<lparr>lock_head := lock_head (irq_alloc_spinlock s) + 1\<rparr>)"])
      (simp add: alloc_irq_num_def local_irq_save_def local_irq_disable_def local_irq_restore_def bitmap_set_nolock_def
        spinlock_obtain_free Let_def)
qed

lemma free_irq_num_eq:
  fixes s :: "'a irq_state_scheme"
  assumes "unat irq < NR_IRQS" "lock_free (irq_alloc_spinlock s)"
  shows "\<exists>lock. lock_free lock \<and> free_irq_num irq s = Some (s\<lparr>irq_alloc_spinlock := lock\<rparr>)"
  using assms by (intro exI [of _ "spinlock_release ((irq_alloc_spinlock s)\<lparr>lock_head := lock_head (irq_alloc_spinlock s) + 1\<rparr>)"])
    (simp add: free_irq_num_def local_irq_save_def local_irq_disable_def local_irq_restore_def bitmap_clear_nolock_def
      spinlock_obtain_free Let_def)

lemma request_irq_free:
  fixes s :: "'a irq_state_scheme"
  assumes "unat irq < NR_IRQS" "lock_free (irq_alloc_spinlock s)" "lock_free (irq_lock (irq_desc_array s (unat irq)))"
    "irq_action (irq_desc_array s (unat irq)) = None"
  shows "\<exists>l lock. lock_free l \<and> lock_free lock \<and> request_irq irq f priv fl s = Some (int (unat irq),
    upd_desc (unat irq) (\<lambda>d. d\<lparr>irq_flags := fl, irq_priv := priv, irq_action := Some f, irq_lock := l\<rparr>) (s\<lparr>irq_alloc_spinlock := lock\<rparr>))"
proof -
  obtain lock where a: "lock_free lock" "alloc_irq_num irq False s = Some (irq, s\<lparr>irq_alloc_spinlock := lock\<rparr>)"
    using alloc_irq_num_eq [OF assms(1,2)] by blast
  let ?g = "\<lambda>d. d\<lparr>irq_flags := fl, irq_priv := priv, irq_action := Some f\<rparr>"
  obtain l where "lock_free l" "desc_section (unat irq) ?g (s\<lparr>irq_alloc_spinlock := lock\<rparr>)
      = Some (upd_desc (unat irq) (\<lambda>d. (?g d)\<lparr>irq_lock := l\<rparr>) (s\<lparr>irq_alloc_spinlock := lock\<rparr>))"
    using desc_section_eq [of "s\<lparr>irq_alloc_spinlock := lock\<rparr>" "unat irq" ?g] assms(3) by auto
  thus ?thesis using a assms(4) irq_valid [OF assms(1)] by (auto simp: request_irq_def request_irq_arch_def)
qed

lemma request_irq_busy:
  fixes s :: "'a irq_state_scheme"
  assumes "unat irq < NR_IRQS" "lock_free (irq_alloc_spinlock s)" "irq_action (irq_desc_array s (unat irq)) \<noteq> None"
  shows "\<exists>lock. lock_free lock \<and> request_irq irq f priv fl s = Some (- EBUSY, s\<lparr>irq_alloc_spinlock := lock\<rparr>)"
proof -
  show ?thesis using irq_valid [OF assms(1)] alloc_irq_num_eq [OF assms(1,2), of False] assms(3) by (auto simp: request_irq_def request_irq_arch_def)
qed

lemma free_irq_eq:
  fixes s :: "'a irq_state_scheme"
  assumes "unat irq < NR_IRQS" "lock_free (irq_alloc_spinlock s)" "lock_free (irq_lock (irq_desc_array s (unat irq)))"
  shows "\<exists>l lock. lock_free l \<and> lock_free lock \<and> free_irq irq s = Some
    ((upd_desc (unat irq) (\<lambda>d. d\<lparr>irq_action := None, irq_priv := 0, irq_flags := IRQF_NONE, irq_lock := l\<rparr>) s)\<lparr>irq_alloc_spinlock := lock\<rparr>)"
proof -
  let ?g = "\<lambda>d. d\<lparr>irq_action := None, irq_priv := 0, irq_flags := IRQF_NONE\<rparr>"
  obtain l where l: "lock_free l" "desc_section (unat irq) ?g s = Some (upd_desc (unat irq) (\<lambda>d. (?g d)\<lparr>irq_lock := l\<rparr>) s)"
    using desc_section_eq [OF assms(3), of ?g] by auto
  thus ?thesis using free_irq_num_eq [OF assms(1), of "upd_desc (unat irq) (\<lambda>d. (?g d)\<lparr>irq_lock := l\<rparr>) s"] assms(1,2)
    by (auto simp: free_irq_def upd_desc_def)
qed

subsection \<open>Enable bits of the controller\<close>

lemma plic_switch_eq:
  fixes s :: "'a irq_state_scheme"
  assumes "arch_data d = Some a" "lock_free (plic_lock s)" "unat (desc_irq d) < NR_IRQS"
  defines "off \<equiv> PLIC_IER + (desc_irq d div 32) * 4"
  shows "\<exists>s'. plic_irq_enable d s = Some s' \<and> lock_free (plic_lock s') \<and> sstatus s' = sstatus s
      \<and> plic_reg s' = (plic_reg s)(off := plic_reg s off OR push_bit (unat (desc_irq d mod 32)) 1)"
    "\<exists>s'. plic_irq_disable d s = Some s' \<and> lock_free (plic_lock s') \<and> sstatus s' = sstatus s
      \<and> plic_reg s' = (plic_reg s)(off := plic_reg s off AND NOT (push_bit (unat (desc_irq d mod 32)) 1))"
proof -
  have "off \<noteq> PLIC_EOIR"
  proof -
    have "unat (desc_irq d div 32) < 8" using assms(3) by (simp add: NR_IRQS_def unat_div)
    then obtain k where "desc_irq d div 32 = of_nat k" "k < 8" using that [of "unat (desc_irq d div 32)"] by simp
    moreover have "k \<in> {0, 1, 2, 3, 4, 5, 6, 7}" using calculation(2) by (simp; presburger)
    ultimately show ?thesis by (auto simp: off_def PLIC_IER_def PLIC_EOIR_def)
  qed
  thus "\<exists>s'. plic_irq_enable d s = Some s' \<and> lock_free (plic_lock s') \<and> sstatus s' = sstatus s
      \<and> plic_reg s' = (plic_reg s)(off := plic_reg s off OR push_bit (unat (desc_irq d mod 32)) 1)"
    "\<exists>s'. plic_irq_disable d s = Some s' \<and> lock_free (plic_lock s') \<and> sstatus s' = sstatus s
      \<and> plic_reg s' = (plic_reg s)(off := plic_reg s off AND NOT (push_bit (unat (desc_irq d mod 32)) 1))"
    using assms(1,2) by (simp_all add: plic_irq_enable_def plic_irq_disable_def plic_section_def plic_set_irq_def plic_clear_irq_def
      plic_read32_def plic_write32_def upd_data_def local_irq_save_def local_irq_disable_def local_irq_restore_def
      spinlock_obtain_free off_def Let_def)
qed

end
