(* ===== verification/Event.thy ===== *)
theory Event
  imports Sched_Iorr
begin

text \<open>
  Events on which a thread waits until another one signals:
  \<open>common/event.c\<close> and \<open>include/common/event.h\<close>.

  A waiting thread gives up its hart inside \<open>wait_event\<close>.  What runs between the
  call of \<open>schedule\<close> and its return is the parameter \<open>away\<close>: other threads of
  the hart, other harts and interrupts.  The locale \<open>event_policy\<close> is what the
  events need of the scheduler; it extends the contract of a policy by the laws
  that its operations leave events alone.
\<close>

subsection \<open>Operations\<close>

record sched_event =
  ev_lock :: spinlock_t
  ev_set :: bool
  waiting_thread :: addr

record event_state = iorr_state +
  sched_events :: "addr \<Rightarrow> sched_event"

definition upd_event :: "addr \<Rightarrow> (sched_event \<Rightarrow> sched_event) \<Rightarrow> 'a event_state_scheme \<Rightarrow> 'a event_state_scheme" where
  "upd_event ev f s = s\<lparr>sched_events := (sched_events s)(ev := f (sched_events s ev))\<rparr>"

definition event_obtain :: "addr \<Rightarrow> 'a event_state_scheme \<Rightarrow> (u64 \<times> 'a event_state_scheme) option" where
  "event_obtain ev s =
    (let (rflag, s) = local_irq_save s
     in do {
       lock \<leftarrow> spinlock_obtain (ev_lock (sched_events s ev));
       Some (rflag, upd_event ev (\<lambda>e. e\<lparr>ev_lock := lock\<rparr>) s)
     })"

definition event_release :: "addr \<Rightarrow> u64 \<Rightarrow> 'a event_state_scheme \<Rightarrow> 'a event_state_scheme" where
  "event_release ev rflag s =
    local_irq_restore rflag (upd_event ev (\<lambda>e. e\<lparr>ev_lock := spinlock_release (ev_lock e)\<rparr>) s)"

definition init_event :: "addr \<Rightarrow> 'a event_state_scheme \<Rightarrow> 'a event_state_scheme" where
  "init_event ev s = upd_event ev (\<lambda>e. e\<lparr>ev_lock := spinlock_init, ev_set := False, waiting_thread := 0\<rparr>) s"

definition reset_event :: "addr \<Rightarrow> 'a event_state_scheme \<Rightarrow> 'a event_state_scheme option" where
  "reset_event ev s = do {
     (rflag, s) \<leftarrow> event_obtain ev s;
     let s = upd_event ev (\<lambda>e. e\<lparr>ev_set := False, waiting_thread := 0\<rparr>) s;
     Some (event_release ev rflag s)
   }"

partial_function (option) wait_event_loop ::
  "'a event_state_scheme acrn_scheduler \<Rightarrow> 'a event_state_scheme thread_fn \<Rightarrow>
   ('a event_state_scheme \<Rightarrow> 'a event_state_scheme option) \<Rightarrow> addr \<Rightarrow> u64 \<Rightarrow>
   'a event_state_scheme \<Rightarrow> (u64 \<times> 'a event_state_scheme) option" where
  "wait_event_loop sc sw away ev rflag s =
    (if \<not> ev_set (sched_events s ev) \<and> waiting_thread (sched_events s ev) \<noteq> 0
     then do {
       s \<leftarrow> sleep_thread sc (waiting_thread (sched_events s ev)) s;
       s \<leftarrow> schedule sc sw (event_release ev rflag s);
       s \<leftarrow> away s;
       (rflag, s) \<leftarrow> event_obtain ev s;
       wait_event_loop sc sw away ev rflag s
     }
     else Some (rflag, s))"

declare wait_event_loop.simps [code]

definition wait_event ::
  "'a event_state_scheme acrn_scheduler \<Rightarrow> 'a event_state_scheme thread_fn \<Rightarrow>
   ('a event_state_scheme \<Rightarrow> 'a event_state_scheme option) \<Rightarrow> addr \<Rightarrow> 'a event_state_scheme \<Rightarrow>
   'a event_state_scheme option" where
  "wait_event sc sw away ev s = do {
     (rflag, s) \<leftarrow> event_obtain ev s;
     let s = upd_event ev (\<lambda>e. e\<lparr>waiting_thread := sched_get_current s (get_pcpu_id s)\<rparr>) s;
     (rflag, s) \<leftarrow> wait_event_loop sc sw away ev rflag s;
     let s = upd_event ev (\<lambda>e. e\<lparr>ev_set := False, waiting_thread := 0\<rparr>) s;
     Some (event_release ev rflag s)
   }"

definition signal_event ::
  "'a event_state_scheme acrn_scheduler \<Rightarrow> addr \<Rightarrow> 'a event_state_scheme \<Rightarrow> 'a event_state_scheme option" where
  "signal_event sc ev s = do {
     (rflag, s) \<leftarrow> event_obtain ev s;
     let s = upd_event ev (\<lambda>e. e\<lparr>ev_set := True\<rparr>) s;
     s \<leftarrow> (if waiting_thread (sched_events s ev) \<noteq> 0
           then wake_thread sc (waiting_thread (sched_events s ev)) s else Some s);
     Some (event_release ev rflag s)
   }"

subsection \<open>What the scheduler leaves alone\<close>

definition events_framed ::
  "'a event_state_scheme acrn_scheduler \<Rightarrow> 'a event_state_scheme thread_fn \<Rightarrow> bool" where
  "events_framed sc sw \<longleftrightarrow>
    (\<forall>f t s s'. sleep_op sc = Some f \<longrightarrow> f t s = Some s' \<longrightarrow> sched_events s' = sched_events s) \<and>
    (\<forall>f t s s'. wake_op sc = Some f \<longrightarrow> f t s = Some s' \<longrightarrow> sched_events s' = sched_events s) \<and>
    (\<forall>f c t s s'. pick_next_op sc = Some f \<longrightarrow> f c s = Some (t, s') \<longrightarrow> sched_events s' = sched_events s) \<and>
    (\<forall>g t s s'. sw g t s = Some s' \<longrightarrow> sched_events s' = sched_events s)"

lemma upds_events [simp]:
  "sched_events (upd_thread t f s) = sched_events s" "sched_events (upd_ctl c g s) = sched_events s"
  "sched_events (set_thread_status t st s) = sched_events s" "sched_events (set_be_blocking t b s) = sched_events s"
  "sched_events (make_reschedule_request c s) = sched_events s"
  "sched_events (release_schedule_lock c x s) = sched_events s" "sched_events (s\<lparr>sstatus := y\<rparr>) = sched_events s"
  by (simp_all add: upd_thread_def upd_ctl_def set_thread_status_def set_be_blocking_def make_reschedule_request_def
      kick_pcpu_def do_swi_def release_schedule_lock_def local_irq_restore_def Let_def)

lemma obtain_schedule_lock_events:
  "obtain_schedule_lock c s = Some (x, s') \<Longrightarrow> sched_events s' = sched_events s"
  by (auto simp: obtain_schedule_lock_def local_irq_save_def local_irq_disable_def bind_eq_Some_conv)

lemma sleep_thread_events:
  "events_framed sc sw \<Longrightarrow> sleep_thread sc t s = Some s' \<Longrightarrow> sched_events s' = sched_events s"
  by (auto simp: sleep_thread_def bind_eq_Some_conv events_framed_def Let_def
      dest!: obtain_schedule_lock_events split: option.splits if_splits)

lemma wake_thread_events:
  "events_framed sc sw \<Longrightarrow> wake_thread sc t s = Some s' \<Longrightarrow> sched_events s' = sched_events s"
  by (auto simp: wake_thread_def bind_eq_Some_conv events_framed_def Let_def
      dest!: obtain_schedule_lock_events split: option.splits if_splits)

lemma run_switch_events:
  "events_framed sc sw \<Longrightarrow> run_switch sw g t s = Some s' \<Longrightarrow> sched_events s' = sched_events s"
  by (auto simp: run_switch_def events_framed_def split: option.splits)

lemma pick_next_events:
  "events_framed sc sw \<Longrightarrow> (case pick_next_op sc of Some f \<Rightarrow> f c s | None \<Rightarrow> Some (idle s c, s)) = Some (t, s') \<Longrightarrow>
    sched_events s' = sched_events s"
  by (auto simp: events_framed_def split: option.splits)

lemma schedule_events:
  assumes "events_framed sc sw" "schedule sc sw s = Some s'"
  shows "sched_events s' = sched_events s"
  using assms(2)
  by (auto simp: schedule_def bind_eq_Some_conv Let_def
      dest!: obtain_schedule_lock_events pick_next_events [OF assms(1)] run_switch_events [OF assms(1)]
      split: if_splits)

subsection \<open>Events on a scheduler\<close>

text \<open>The locks of the events are free, and only threads of the scheduler wait.\<close>

definition events_ok :: "(nat \<Rightarrow> addr set) \<Rightarrow> 'a event_state_scheme \<Rightarrow> bool" where
  "events_ok thr s \<longleftrightarrow> (\<forall>e. lock_free (ev_lock (sched_events s e)) \<and>
    (waiting_thread (sched_events s e) \<noteq> 0 \<longrightarrow> (\<exists>c. waiting_thread (sched_events s e) \<in> thr c)))"

definition event_inv ::
  "('a event_state_scheme \<Rightarrow> bool) \<Rightarrow> (nat \<Rightarrow> 'a event_state_scheme \<Rightarrow> addr set) \<Rightarrow> (nat \<Rightarrow> addr set) \<Rightarrow>
   'a event_state_scheme \<Rightarrow> bool" where
  "event_inv pinv runq thr s \<longleftrightarrow> sched_inv pinv runq thr s \<and> events_ok thr s"

text \<open>Inside the critical section of \<open>ev\<close>.\<close>

definition event_held ::
  "('a event_state_scheme \<Rightarrow> bool) \<Rightarrow> (nat \<Rightarrow> 'a event_state_scheme \<Rightarrow> addr set) \<Rightarrow> (nat \<Rightarrow> addr set) \<Rightarrow>
   addr \<Rightarrow> 'a event_state_scheme \<Rightarrow> bool" where
  "event_held pinv runq thr ev s \<longleftrightarrow> sched_inv pinv runq thr s \<and>
    events_ok thr (upd_event ev (\<lambda>e. e\<lparr>ev_lock := spinlock_release (ev_lock e)\<rparr>) s)"

locale event_policy = sched_policy sc sw pinv runq thr
  for sc :: "'a event_state_scheme acrn_scheduler"
    and sw :: "'a event_state_scheme thread_fn"
    and pinv :: "'a event_state_scheme \<Rightarrow> bool"
    and runq :: "nat \<Rightarrow> 'a event_state_scheme \<Rightarrow> addr set"
    and thr :: "nat \<Rightarrow> addr set" +
  assumes pinv_events: "pinv s \<Longrightarrow> pinv (s\<lparr>sched_events := e\<rparr>)"
    and runq_events: "runq c (s\<lparr>sched_events := e\<rparr>) = runq c s"
    and framed: "events_framed sc sw"
begin

abbreviation sys_inv :: "'a event_state_scheme \<Rightarrow> bool" where
  "sys_inv \<equiv> event_inv pinv runq thr"

lemma sched_inv_events:
  assumes "sched_inv pinv runq thr s" shows "sched_inv pinv runq thr (upd_event ev f s)"
proof -
  have "runq c (upd_event ev f s) = runq c s" for c by (simp add: upd_event_def runq_events)
  moreover have "threads (upd_event ev f s) = threads s" "idle (upd_event ev f s) = idle s"
    "sched_ctl (upd_event ev f s) = sched_ctl s" by (simp_all add: upd_event_def)
  ultimately have "sched_core runq thr (upd_event ev f s)"
    using assms by (subst sched_core_cong [of _ s]) (simp_all add: sched_inv_def)
  thus ?thesis using assms by (simp add: sched_inv_def upd_event_def pinv_events)
qed

lemma sched_inv_sstatus:
  assumes "sched_inv pinv runq thr s" shows "sched_inv pinv runq thr (s\<lparr>sstatus := x\<rparr>)" "runq c (s\<lparr>sstatus := x\<rparr>) = runq c s"
proof -
  have p: "policy_same s (s\<lparr>sstatus := x\<rparr>)" by (simp add: policy_same_def)
  show r: "runq c (s\<lparr>sstatus := x\<rparr>) = runq c s" for c by (rule runq_upd [OF p])
  have "sched_core runq thr (s\<lparr>sstatus := x\<rparr>)"
    using assms r by (subst sched_core_cong [of _ s]) (simp_all add: sched_inv_def)
  thus "sched_inv pinv runq thr (s\<lparr>sstatus := x\<rparr>)" using assms inv_upd [OF _ p] by (simp add: sched_inv_def)
qed

abbreviation held :: "addr \<Rightarrow> 'a event_state_scheme \<Rightarrow> bool" where
  "held \<equiv> event_held pinv runq thr"

lemma event_obtain_held:
  assumes "sys_inv s"
  shows "\<exists>s'. event_obtain ev s = Some (sstatus s, s') \<and> held ev s' \<and> threads s' = threads s \<and> pcpu_id s' = pcpu_id s
    \<and> (\<forall>e. ev_set (sched_events s' e) = ev_set (sched_events s e)
         \<and> waiting_thread (sched_events s' e) = waiting_thread (sched_events s e))
    \<and> (\<forall>c. runq c s' = runq c s) \<and> sched_ctl s' = sched_ctl s"
proof -
  define lk where "lk = (ev_lock (sched_events s ev))\<lparr>lock_head := lock_head (ev_lock (sched_events s ev)) + 1\<rparr>"
  define s' where "s' = upd_event ev (\<lambda>e. e\<lparr>ev_lock := lk\<rparr>) (local_irq_disable s)"
  have free: "lock_free (ev_lock (sched_events s e))" for e using assms by (simp add: event_inv_def events_ok_def)
  have "event_obtain ev s = Some (sstatus s, s')"
    using spinlock_obtain_free [OF free [of ev]]
    by (simp add: event_obtain_def local_irq_save_def s'_def lk_def local_irq_disable_def)
  moreover have inv: "sched_inv pinv runq thr s" using assms by (simp add: event_inv_def)
  have "sched_inv pinv runq thr s'" "runq c s' = runq c s" for c
    using sched_inv_events [OF sched_inv_sstatus(1) [OF inv]] sched_inv_sstatus(2) [OF inv]
    by (simp_all add: s'_def local_irq_disable_def) (simp add: runq_events upd_event_def)
  moreover have "held ev s'" using calculation assms free [of ev]
    by (auto simp: event_held_def events_ok_def s'_def lk_def upd_event_def event_inv_def local_irq_disable_def
        spinlock_release_def lock_free_def)
  ultimately show ?thesis by (auto simp: s'_def upd_event_def local_irq_disable_def)
qed

lemma event_release_held:
  assumes "held ev s"
  shows "sys_inv (event_release ev r s)" "runq c (event_release ev r s) = runq c s"
    "threads (event_release ev r s) = threads s" "sched_ctl (event_release ev r s) = sched_ctl s"
    "pcpu_id (event_release ev r s) = pcpu_id s" "sstatus (event_release ev r s) = r"
    "ev_set (sched_events (event_release ev r s) e) = ev_set (sched_events s e)"
    "waiting_thread (sched_events (event_release ev r s) e) = waiting_thread (sched_events s e)"
proof -
  let ?u = "upd_event ev (\<lambda>e. e\<lparr>ev_lock := spinlock_release (ev_lock e)\<rparr>) s"
  have i: "sched_inv pinv runq thr ?u" using assms sched_inv_events by (simp add: event_held_def)
  have "events_ok thr (?u\<lparr>sstatus := r\<rparr>)" using assms by (simp add: event_held_def events_ok_def)
  thus "sys_inv (event_release ev r s)" using sched_inv_sstatus(1) [OF i, of r]
    by (simp add: event_inv_def event_release_def local_irq_restore_def)
  show "runq c (event_release ev r s) = runq c s"
    using sched_inv_sstatus(2) [OF i] by (simp add: event_release_def local_irq_restore_def upd_event_def runq_events)
qed (simp_all add: event_release_def local_irq_restore_def upd_event_def)

lemma held_upd:
  assumes "held ev s" "\<And>e. ev_lock (f e) = ev_lock e"
    "waiting_thread (f (sched_events s ev)) \<noteq> 0 \<Longrightarrow> \<exists>c. waiting_thread (f (sched_events s ev)) \<in> thr c"
  shows "held ev (upd_event ev f s)"
  using assms sched_inv_events [of s ev f] by (auto simp: event_held_def events_ok_def upd_event_def split: if_splits)

lemma held_frame:
  assumes "held ev s" "sched_inv pinv runq thr s'" "sched_events s' = sched_events s"
  shows "held ev s'"
  using assms by (auto simp: event_held_def events_ok_def upd_event_def)

lemma held_waiter:
  "held ev s \<Longrightarrow> waiting_thread (sched_events s ev) \<noteq> 0 \<Longrightarrow> \<exists>c. waiting_thread (sched_events s ev) \<in> thr c"
  by (force simp: event_held_def events_ok_def upd_event_def dest!: spec [of _ ev])

text \<open>A signal marks the event and makes the waiting thread runnable.\<close>

lemma signal_event_ok:
  fixes ev :: addr
  assumes s: "sys_inv s"
  defines "w \<equiv> waiting_thread (sched_events s ev)"
  shows "\<exists>s'. signal_event sc ev s = Some s' \<and> sys_inv s' \<and> sstatus s' = sstatus s
    \<and> ev_set (sched_events s' ev) \<and> waiting_thread (sched_events s' ev) = w
    \<and> (\<forall>c. w \<in> thr c \<longrightarrow> w \<in> runq c s' \<and> (is_blocked s w \<longrightarrow> need_reschedule s' c))"
proof -
  obtain s1 where s1: "event_obtain ev s = Some (sstatus s, s1)" "held ev s1" "threads s1 = threads s"
    "waiting_thread (sched_events s1 ev) = w" using event_obtain_held [OF s] unfolding w_def by blast
  define s2 where "s2 = upd_event ev (\<lambda>e. e\<lparr>ev_set := True\<rparr>) s1"
  have s2: "held ev s2" "waiting_thread (sched_events s2 ev) = w" "ev_set (sched_events s2 ev)" "threads s2 = threads s"
    using s1 held_waiter [OF s1(2)] held_upd [OF s1(2), of "\<lambda>e. e\<lparr>ev_set := True\<rparr>"]
    by (auto simp: s2_def upd_event_def)
  show ?thesis
  proof (cases "w = 0")
    case True
    hence "signal_event sc ev s = Some (event_release ev (sstatus s) s2)"
      using s1(1) s2 by (simp add: signal_event_def flip: s2_def)
    thus ?thesis using True event_release_held [OF s2(1)] s2 thr_nonzero by auto
  next
    case False
    then obtain c where c: "w \<in> thr c" using held_waiter [OF s2(1)] s2(2) by auto
    obtain s3 where s3: "wake_thread sc w s2 = Some s3" "sched_inv pinv runq thr s3" "runq c s3 = insert w (runq c s2)"
      "is_blocked s2 w \<longrightarrow> need_reschedule s3 c"
      using wake_thread_ok [OF _ c, of s2] s2(1) by (auto simp: event_held_def)
    have h: "held ev s3" and e: "sched_events s3 = sched_events s2"
      using held_frame [OF s2(1) s3(2)] wake_thread_events [OF framed s3(1)] by auto
    have "signal_event sc ev s = Some (event_release ev (sstatus s) s3)"
      using s1(1) s2 s3(1) False by (simp add: signal_event_def flip: s2_def)
    moreover have "d = c" if "w \<in> thr d" for d using thr_disjoint that c by blast
    ultimately show ?thesis using event_release_held [OF h] s2 e s3(3,4)
      by (auto simp: is_blocked_def need_reschedule_def)
  qed
qed

text \<open>Waiting for an event that is already set does not block.\<close>

lemma wait_event_set:
  assumes s: "sys_inv s" and e: "ev_set (sched_events s ev)"
  shows "\<exists>s'. wait_event sc sw away ev s = Some s' \<and> sys_inv s' \<and> sstatus s' = sstatus s \<and> threads s' = threads s
    \<and> sched_ctl s' = sched_ctl s \<and> (\<forall>c. runq c s' = runq c s)
    \<and> \<not> ev_set (sched_events s' ev) \<and> waiting_thread (sched_events s' ev) = 0"
proof -
  obtain s1 where s1: "event_obtain ev s = Some (sstatus s, s1)" "held ev s1" "threads s1 = threads s"
    "sched_ctl s1 = sched_ctl s" "\<forall>c. runq c s1 = runq c s" "ev_set (sched_events s1 ev)"
    using event_obtain_held [OF s] e by metis
  let ?w = "\<lambda>s. upd_event ev (\<lambda>e. e\<lparr>waiting_thread := sched_get_current s (get_pcpu_id s)\<rparr>) s"
  let ?s3 = "upd_event ev (\<lambda>e. e\<lparr>ev_set := False, waiting_thread := 0\<rparr>) (?w s1)"
  have "wait_event_loop sc sw away ev (sstatus s) (?w s1) = Some (sstatus s, ?w s1)"
    using s1(6) by (subst wait_event_loop.simps) (simp add: upd_event_def)
  hence "wait_event sc sw away ev s = Some (event_release ev (sstatus s) ?s3)"
    using s1(1) by (simp add: wait_event_def)
  moreover have "?s3 = upd_event ev (\<lambda>e. e\<lparr>ev_set := False, waiting_thread := 0\<rparr>) s1"
    by (simp add: upd_event_def)
  moreover have "held ev (upd_event ev (\<lambda>e. e\<lparr>ev_set := False, waiting_thread := 0\<rparr>) s1)"
    by (rule held_upd [OF s1(2)]) simp_all
  ultimately show ?thesis using event_release_held s1
    by (simp add: upd_event_def runq_events)
qed

text \<open>
  A thread that waits for an event that is not set blocks before its hart
  switches away, and returns once the event is set meanwhile.
\<close>

lemma wait_event_blocks:
  assumes h: "held ev s" "\<not> ev_set (sched_events s ev)" "waiting_thread (sched_events s ev) = t"
    and t: "t \<in> thr c" "c = pcpu_id s" "curr_obj (sched_ctl s c) = t"
  shows "\<exists>s2 s3. sleep_thread sc t s = Some s2 \<and> schedule sc sw (event_release ev r s2) = Some s3
    \<and> sys_inv s3 \<and> is_blocked s3 t \<and> waiting_thread (sched_events s3 ev) = t"
proof -
  have i: "sched_inv pinv runq thr s" using h(1) by (simp add: event_held_def)
  hence run: "is_running s t" using t(3) sched_core_curr(2) by (metis sched_inv_def)
  obtain s2 where s2: "sleep_thread sc t s = Some s2" "sched_inv pinv runq thr s2" "be_blocking (threads s2 t)"
    using sleep_thread_ok [OF i t(1)] run by auto
  have e2: "sched_events s2 = sched_events s" using sleep_thread_events [OF framed s2(1)] .
  have same: "pcpu_id s2 = pcpu_id s" "curr_obj (sched_ctl s2 c) = t"
  proof -
    show "pcpu_id s2 = pcpu_id s" using s2(1) sleep_thread_pcpu [OF i t(1)] by auto
    have "is_running s2 t" using s2(2,3) t(1) sched_core_thr(3) by (metis sched_inv_def)
    thus "curr_obj (sched_ctl s2 c) = t" using s2(2) t(1) sched_core_running [of runq thr s2 t c]
      by (auto simp: sched_inv_def)
  qed
  have h2: "held ev s2" using held_frame [OF h(1) s2(2) e2] .
  let ?u = "event_release ev r s2"
  note u = event_release_held [OF h2, where r = r]
  obtain s3 where s3: "schedule sc sw ?u = Some s3" "sched_inv pinv runq thr s3" "is_blocked s3 t"
    using schedule_ok [of ?u] u(1) s2(3) same t(2) by (auto simp: event_inv_def u)
  have e3: "sched_events s3 = sched_events ?u" using schedule_events [OF framed s3(1)] .
  have "sys_inv s3" using u(1) s3(2) e3 by (simp add: event_inv_def events_ok_def)
  moreover have "waiting_thread (sched_events s3 ev) = t" using e3 u(8) e2 h(3) by simp
  ultimately show ?thesis using s2(1) s3 by blast
qed

text \<open>
  The observation \<open>k\<close> is one that waiting leaves alone, so it reaches the code
  that runs meanwhile as it was, and comes back as that code left it.
\<close>

lemma wait_event_observes:
  assumes s: "sys_inv s" "\<not> ev_set (sched_events s ev)"
    and t: "t \<in> thr c" "c = pcpu_id s" "curr_obj (sched_ctl s c) = t"
    and k: "\<And>f s. k (upd_event ev f s) = k s" "\<And>x s. k (s\<lparr>sstatus := x\<rparr>) = k s"
      "\<And>s s'. sleep_thread sc t s = Some s' \<Longrightarrow> k s' = k s" "\<And>s s'. schedule sc sw s = Some s' \<Longrightarrow> k s' = k s"
    and away: "\<And>u. sys_inv u \<Longrightarrow> is_blocked u t \<Longrightarrow> waiting_thread (sched_events u ev) = t \<Longrightarrow> k u = k s \<Longrightarrow>
      \<exists>u'. away u = Some u' \<and> sys_inv u' \<and> ev_set (sched_events u' ev) \<and> t \<in> runq c u' \<and> R (k u')"
  shows "\<exists>s'. wait_event sc sw away ev s = Some s' \<and> sys_inv s' \<and> t \<in> runq c s'
    \<and> \<not> ev_set (sched_events s' ev) \<and> waiting_thread (sched_events s' ev) = 0 \<and> R (k s')"
proof -
  let ?r = "sstatus s"
  have obtain_k: "k u' = k u" if "event_obtain ev u = Some (x, u')" for u x u'
    using that k(1,2) by (auto simp: event_obtain_def local_irq_save_def local_irq_disable_def bind_eq_Some_conv)
  have release_k: "k (event_release ev x u) = k u" for x u
    using k(1,2) by (simp add: event_release_def local_irq_restore_def)
  obtain s1 where s1: "event_obtain ev s = Some (?r, s1)" "held ev s1" "pcpu_id s1 = pcpu_id s"
    "sched_ctl s1 = sched_ctl s" "\<not> ev_set (sched_events s1 ev)"
    using event_obtain_held [OF s(1)] s(2) by metis
  define w where "w = upd_event ev (\<lambda>e. e\<lparr>waiting_thread := t\<rparr>) s1"
  have w: "held ev w" "\<not> ev_set (sched_events w ev)" "waiting_thread (sched_events w ev) = t"
    "c = pcpu_id w" "curr_obj (sched_ctl w c) = t"
    using s1 t held_upd [OF s1(2), of "\<lambda>e. e\<lparr>waiting_thread := t\<rparr>"] by (auto simp: w_def upd_event_def)
  have weq: "upd_event ev (\<lambda>e. e\<lparr>waiting_thread := sched_get_current s1 (get_pcpu_id s1)\<rparr>) s1 = w"
    using s1(3,4) t by (simp add: w_def sched_get_current_def get_pcpu_id_def)
  obtain s2 s3 where s3: "sleep_thread sc t w = Some s2" "schedule sc sw (event_release ev ?r s2) = Some s3"
    "sys_inv s3" "is_blocked s3 t" "waiting_thread (sched_events s3 ev) = t"
    using wait_event_blocks [OF w(1-3) t(1) w(4,5)] by blast
  have "k s3 = k s" using k(3) [OF s3(1)] k(4) [OF s3(2)] obtain_k [OF s1(1)] by (simp add: release_k w_def k(1))
  then obtain s4 where s4: "away s3 = Some s4" "sys_inv s4" "ev_set (sched_events s4 ev)" "t \<in> runq c s4" "R (k s4)"
    using away [OF s3(3-5)] by blast
  obtain s5 where s5: "event_obtain ev s4 = Some (sstatus s4, s5)" "held ev s5" "ev_set (sched_events s5 ev)"
    "t \<in> runq c s5" using event_obtain_held [OF s4(2)] s4(3,4) by metis
  have "t \<noteq> 0" using t(1) thr_nonzero by metis
  moreover have "wait_event_loop sc sw away ev (sstatus s4) s5 = Some (sstatus s4, s5)"
    using s5(3) by (subst wait_event_loop.simps) simp
  ultimately have "wait_event_loop sc sw away ev ?r w = Some (sstatus s4, s5)"
    using w s3(1,2) s4(1) s5(1) by (subst wait_event_loop.simps) simp
  hence "wait_event sc sw away ev s = Some (event_release ev (sstatus s4)
      (upd_event ev (\<lambda>e. e\<lparr>ev_set := False, waiting_thread := 0\<rparr>) s5))"
    using s1(1) weq by (simp add: wait_event_def)
  moreover have "held ev (upd_event ev (\<lambda>e. e\<lparr>ev_set := False, waiting_thread := 0\<rparr>) s5)"
    by (rule held_upd [OF s5(2)]) simp_all
  moreover have "R (k (event_release ev (sstatus s4) (upd_event ev (\<lambda>e. e\<lparr>ev_set := False, waiting_thread := 0\<rparr>) s5)))"
    using obtain_k [OF s5(1)] s4(5) by (simp add: release_k k(1))
  ultimately show ?thesis using event_release_held s5(4) by (simp add: upd_event_def runq_events)
qed

lemma wait_event_returns:
  assumes s: "sys_inv s" "\<not> ev_set (sched_events s ev)"
    and t: "t \<in> thr c" "c = pcpu_id s" "curr_obj (sched_ctl s c) = t"
    and away: "\<And>u. sys_inv u \<Longrightarrow> is_blocked u t \<Longrightarrow> waiting_thread (sched_events u ev) = t \<Longrightarrow>
      \<exists>u'. away u = Some u' \<and> sys_inv u' \<and> ev_set (sched_events u' ev) \<and> t \<in> runq c u'"
  shows "\<exists>s'. wait_event sc sw away ev s = Some s' \<and> sys_inv s' \<and> t \<in> runq c s'
    \<and> \<not> ev_set (sched_events s' ev) \<and> waiting_thread (sched_events s' ev) = 0"
  using wait_event_observes [OF s t, where k = "\<lambda>_. ()" and R = "\<lambda>_. True"] away by simp

text \<open>The handshake: a signal, followed by a scheduling decision, ends the wait.\<close>

lemma signal_then_schedule:
  assumes "sys_inv u" "t \<in> thr c" "waiting_thread (sched_events u ev) = t"
  shows "\<exists>u'. Option.bind (signal_event sc ev u) (schedule sc sw) = Some u' \<and> sys_inv u'
    \<and> ev_set (sched_events u' ev) \<and> t \<in> runq c u'"
proof -
  obtain v where v: "signal_event sc ev u = Some v" "sys_inv v" "ev_set (sched_events v ev)" "t \<in> runq c v"
    using signal_event_ok [OF assms(1), of ev] assms(2,3) by auto
  obtain u' where u': "schedule sc sw v = Some u'" "sched_inv pinv runq thr u'" "t \<in> runq c u'"
    using schedule_ok [of v] v(2,4) by (auto simp: event_inv_def)
  have "sched_events u' = sched_events v" using schedule_events [OF framed u'(1)] .
  thus ?thesis using v u' by (auto simp: event_inv_def events_ok_def)
qed

lemma wait_signal_handshake:
  assumes "sys_inv s" "\<not> ev_set (sched_events s ev)"
    "t \<in> thr c" "c = pcpu_id s" "curr_obj (sched_ctl s c) = t"
  shows "\<exists>s'. wait_event sc sw (\<lambda>u. Option.bind (signal_event sc ev u) (schedule sc sw)) ev s = Some s'
    \<and> sys_inv s' \<and> t \<in> runq c s' \<and> \<not> ev_set (sched_events s' ev) \<and> waiting_thread (sched_events s' ev) = 0"
proof (rule wait_event_returns [OF assms])
  fix u assume "sys_inv u" "is_blocked u t" "waiting_thread (sched_events u ev) = t"
  thus "\<exists>u'. Option.bind (signal_event sc ev u) (schedule sc sw) = Some u' \<and> sys_inv u'
    \<and> ev_set (sched_events u' ev) \<and> t \<in> runq c u'" using signal_then_schedule [OF _ assms(3)] by blast
qed

end

subsection \<open>The round-robin policy serves events\<close>

lemma list_ops_events [simp]:
  fixes s :: "'a event_state_scheme"
  shows "sched_events (list_add e l s) = sched_events s" "sched_events (list_add_tail e l s) = sched_events s"
    "sched_events (list_del_init e s) = sched_events s"
  by (simp_all add: list_add_def list_add_tail_def list_del_init_def heap_simps)

lemma iorr_ops_events [simp]:
  fixes s :: "'a event_state_scheme"
  shows "sched_events (upd_iorr_data t f s) = sched_events s" "sched_events (runqueue_add_head t s) = sched_events s"
    "sched_events (runqueue_add_tail t s) = sched_events s" "sched_events (runqueue_remove t s) = sched_events s"
    "sched_events (snd (cpu_ticks s)) = sched_events s"
  by (simp_all add: upd_iorr_data_def runqueue_add_head_def runqueue_add_tail_def runqueue_remove_def
      cpu_ticks_def get_tick_def)

lemma pick_next_keeps_events:
  fixes s :: "'a event_state_scheme"
  shows "sched_iorr_pick_next c s = Some (t, s') \<Longrightarrow> sched_events s' = sched_events s"
  by (auto simp: sched_iorr_pick_next_def Let_def bind_eq_Some_conv prod.case_eq_if split: if_splits)

lemma iorr_events_framed:
  assumes "\<And>g t s s'. sw g t s = Some s' \<Longrightarrow> sched_events s' = sched_events s"
  shows "events_framed sched_iorr sw"
  using assms by (auto simp: events_framed_def sched_iorr_def sched_iorr_sleep_def sched_iorr_wake_def
      dest: pick_next_keeps_events)

lemma iorr_event_policy:
  fixes sw :: "'a event_state_scheme thread_fn"
  assumes "threads_apart thr" "iorr_switch_ok thr sw"
    "\<And>g t s s'. sw g t s = Some s' \<Longrightarrow> sched_events s' = sched_events s"
  shows "event_policy sched_iorr sw (iorr_inv thr) (iorr_runq thr) thr"
proof -
  have "iorr_rel thr (s\<lparr>sched_events := e\<rparr>) Q" if "iorr_rel thr s Q" for s :: "'a event_state_scheme" and e Q
    using that dll_cong [of "s\<lparr>sched_events := e\<rparr>" s] by (simp add: iorr_rel_def)
  thus ?thesis using assms
    by (intro event_policy.intro event_policy_axioms.intro iorr_policy iorr_events_framed)
      (auto simp: iorr_inv_def iorr_runq_def is_inqueue_def list_empty_def)
qed

end
