(* ===== verification/Guest.thy ===== *)
theory Guest
  imports Event Sbuf
begin

text \<open>
  The state of guests: virtual machines, their vCPUs, and the hart registers and
  per-CPU variables that guests use (\<open>include/arch/riscv/asm/guest/vm.h\<close>,
  \<open>vcpu.h\<close>, \<open>vclint.h\<close>, \<open>include/dm/io_req.h\<close>, \<open>asm/cpu.h\<close>).

  A vCPU is identified by the address of its \<open>thread_obj\<close>, so \<open>container_of\<close>
  between the two is the identity.  A virtual machine is its index in
  \<open>vm_array\<close>.  Where objects embedded in these structs lie is given by the
  fields \<open>hw_vcpu\<close>, \<open>vtimer\<close>, \<open>vcpu_event\<close>, \<open>aio_node\<close> and \<open>aiodesc_queue\<close>, which no
  operation changes.
\<close>

subsection \<open>Registers of a vCPU\<close>

text \<open>
  \<open>arch.contexts\<close> and the \<open>cpu_info\<close> behind it are an array of 64-bit words, so that a
  register index past the end of one context hits what lies there.  A
  \<open>guest_cpu_context\<close> has 48 words: 37 of \<open>struct cpu_regs\<close>, the nine
  supervisor registers of \<open>struct run_context\<close>, \<open>tsc_offset\<close>, and the two 32-bit
  \<open>world_csrs\<close>.
\<close>

definition CPU_REG_SP :: nat where "CPU_REG_SP = 2"
definition CPU_REG_A0 :: nat where "CPU_REG_A0 = 10"
definition CPU_REG_A1 :: nat where "CPU_REG_A1 = 11"
definition CPU_REG_A2 :: nat where "CPU_REG_A2 = 12"
definition CPU_REG_A6 :: nat where "CPU_REG_A6 = 16"
definition CPU_REG_A7 :: nat where "CPU_REG_A7 = 17"
definition CPU_REG_STATUS :: nat where "CPU_REG_STATUS = 32"

definition OFFSET_REG_A0 :: nat where "OFFSET_REG_A0 = 80"

definition REG_IP :: nat where "REG_IP = 0"
definition REG_TVAL :: nat where "REG_TVAL = 33"
definition REG_CAUSE :: nat where "REG_CAUSE = 34"
definition REG_HSTATUS :: nat where "REG_HSTATUS = 35"

definition CTX_SSTATUS :: nat where "CTX_SSTATUS = 37"
definition CTX_SEPC :: nat where "CTX_SEPC = 38"
definition CTX_SIP :: nat where "CTX_SIP = 39"
definition CTX_SIE :: nat where "CTX_SIE = 40"
definition CTX_STVEC :: nat where "CTX_STVEC = 41"
definition CTX_SSCRATCH :: nat where "CTX_SSCRATCH = 42"
definition CTX_STVAL :: nat where "CTX_STVAL = 43"
definition CTX_SCAUSE :: nat where "CTX_SCAUSE = 44"
definition CTX_SATP :: nat where "CTX_SATP = 45"

definition RUN_CONTEXT_WORDS :: nat where "RUN_CONTEXT_WORDS = 46"
definition CONTEXT_WORDS :: nat where "CONTEXT_WORDS = 48"

definition NR_WORLD :: nat where "NR_WORLD = 2"
definition NORMAL_WORLD :: nat where "NORMAL_WORLD = 0"

text \<open>The supervisor and hypervisor registers of a hart that guests use.\<close>

datatype csr_reg = VSSTATUS | VSEPC | VSIP | VSIE | VSTVEC | VSSCRATCH | VSTVAL | VSCAUSE | VSATP
  | HVIP | HSTATUS | HEDELEG | SEPC | SCAUSE

subsection \<open>I/O requests\<close>

text \<open>
  The variants of the union \<open>reqs\<close> agree on direction, address and size; the
  value of a port request is the low half of the 64-bit value.
\<close>

record io_reqs =
  direction :: u32
  req_address :: u64
  req_size :: u64
  req_value :: u64

record io_request =
  io_type :: u32
  reqs :: io_reqs

record acrn_io_request =
  ioreq_type :: u32
  completion_polling :: u32
  ioreq_reqs :: io_reqs
  processed :: u32

record mem_io_node =
  hold_lock :: bool
  read_write :: "nat option"
  handler_private_data :: nat
  range_start :: u64
  range_end :: u64

record vm_io_handler_desc =
  port_start :: u16
  port_end :: u16
  io_read :: "nat option"
  io_write :: "nat option"

record asyncio_desc =
  aio_type :: u32
  aio_addr :: u64
  aio_fd :: u64

subsection \<open>vCPUs and virtual machines\<close>

datatype vcpu_state = VCPU_OFFLINE | VCPU_INIT | VCPU_RUNNING | VCPU_ZOMBIE

record acrn_vcpu =
  contexts :: "nat \<Rightarrow> u64"
  cur_context :: nat
  guest_csrs :: "nat \<Rightarrow> u64"
  csr_bitmap :: "nat \<Rightarrow> u8"
  vpid :: u16
  exc_vector :: u32
  exc_error :: u32
  exit_reason :: u64
  exit_qualification :: u64
  inst_len :: u32
  nr_sipi :: u8
  pending_req :: u64
  eoi_exit_bitmap :: "nat \<Rightarrow> u64"
  stack_frame :: "nat \<Rightarrow> u64"
  vcpu_id :: nat
  vcpu_pcpu_id :: nat
  vcpu_vm :: nat
  vstate :: vcpu_state
  launched :: bool
  req :: io_request
  reg_cached :: u64
  reg_updated :: u64

datatype vm_state = VM_POWERED_OFF | VM_CREATED | VM_RUNNING | VM_READY_TO_POWEROFF | VM_PAUSED

datatype vm_load_order = PRE_LAUNCHED_VM | SERVICE_VM | POST_LAUNCHED_VM

record acrn_vm_config =
  load_order :: vm_load_order
  guest_flags :: u64
  cfg_sched_params :: sched_params

record clint_regs =
  clint_msip :: "nat \<Rightarrow> u32"
  clint_mtimer :: "nat \<Rightarrow> u64"
  clint_mtime :: u64

record acrn_vm =
  vmid :: nat
  vm_st :: vm_state
  created_vcpus :: nat
  clint_page :: clint_regs
  mtip :: u64
  clint_base :: u64
  kernel_entry :: u64
  io_shared_page :: "(nat \<Rightarrow> acrn_io_request) option"
  is_polling_ioreq :: bool
  asyncio_sbuf :: addr
  aio_desc :: "nat \<Rightarrow> asyncio_desc"
  asyncio_lock :: spinlock_t
  emul_mmio_lock :: spinlock_t
  nr_emul_mmio_regions :: nat
  emul_mmio :: "nat \<Rightarrow> mem_io_node"
  emul_pio :: "nat \<Rightarrow> vm_io_handler_desc"

record guest_state = event_state +
  vcpus :: "addr \<Rightarrow> acrn_vcpu"
  vms :: "nat \<Rightarrow> acrn_vm"
  vm_configs :: acrn_vm_config
  hw_vcpu :: "nat \<Rightarrow> nat \<Rightarrow> addr"
  vtimer :: "nat \<Rightarrow> nat \<Rightarrow> addr"
  vcpu_event :: "addr \<Rightarrow> nat \<Rightarrow> addr"
  aio_node :: "nat \<Rightarrow> nat \<Rightarrow> addr"
  aiodesc_queue :: "nat \<Rightarrow> addr"
  stack_top :: "addr \<Rightarrow> u64"
  csr :: "csr_reg \<Rightarrow> u64"
  vcpu_run :: "nat \<Rightarrow> addr"
  ever_run_vcpu :: "nat \<Rightarrow> addr"
  vcpu_array :: "nat \<Rightarrow> nat \<Rightarrow> addr"
  swi_type :: "nat \<Rightarrow> u32"
  swi_param :: "nat \<Rightarrow> u64"
  sbufs :: "addr \<Rightarrow> shared_buf"
  gmem :: mem
  asyncio_fd_var :: addr
  acrn_hsm_notification_vector :: u32

definition upd_vcpu :: "addr \<Rightarrow> (acrn_vcpu \<Rightarrow> acrn_vcpu) \<Rightarrow> 'a guest_state_scheme \<Rightarrow> 'a guest_state_scheme" where
  "upd_vcpu v f s = s\<lparr>vcpus := (vcpus s)(v := f (vcpus s v))\<rparr>"

definition upd_vm :: "nat \<Rightarrow> (acrn_vm \<Rightarrow> acrn_vm) \<Rightarrow> 'a guest_state_scheme \<Rightarrow> 'a guest_state_scheme" where
  "upd_vm m f s = s\<lparr>vms := (vms s)(m := f (vms s m))\<rparr>"

definition cpu_csr_write :: "csr_reg \<Rightarrow> u64 \<Rightarrow> 'a guest_state_scheme \<Rightarrow> 'a guest_state_scheme" where
  "cpu_csr_write r v s = s\<lparr>csr := (csr s)(r := v)\<rparr>"

definition cpu_csr_set :: "csr_reg \<Rightarrow> u64 \<Rightarrow> 'a guest_state_scheme \<Rightarrow> 'a guest_state_scheme" where
  "cpu_csr_set r v s = s\<lparr>csr := (csr s)(r := csr s r OR v)\<rparr>"

definition cpu_csr_read :: "csr_reg \<Rightarrow> 'a guest_state_scheme \<Rightarrow> u64" where
  "cpu_csr_read r s = csr s r"

subsection \<open>Constants\<close>

definition SOS_VM_INDEX :: nat where "SOS_VM_INDEX = 0"
definition CONFIG_MAX_VCPU :: nat where "CONFIG_MAX_VCPU = 2"
definition MAX_VCPUS_PER_VM :: nat where "MAX_VCPUS_PER_VM = 8"
definition BSP_CPU_ID :: nat where "BSP_CPU_ID = 0"

definition ACRN_REQUEST_EXCP :: nat where "ACRN_REQUEST_EXCP = 0"
definition ACRN_REQUEST_EVENT :: nat where "ACRN_REQUEST_EVENT = 1"
definition ACRN_REQUEST_EXTINT :: nat where "ACRN_REQUEST_EXTINT = 2"
definition ACRN_REQUEST_NMI :: nat where "ACRN_REQUEST_NMI = 3"
definition ACRN_REQUEST_EOI_EXIT_BITMAP_UPDATE :: nat where "ACRN_REQUEST_EOI_EXIT_BITMAP_UPDATE = 4"
definition ACRN_REQUEST_EPT_FLUSH :: nat where "ACRN_REQUEST_EPT_FLUSH = 5"
definition ACRN_REQUEST_TRP_FAULT :: nat where "ACRN_REQUEST_TRP_FAULT = 6"
definition ACRN_REQUEST_VPID_FLUSH :: nat where "ACRN_REQUEST_VPID_FLUSH = 7"
definition ACRN_REQUEST_INIT_VMCS :: nat where "ACRN_REQUEST_INIT_VMCS = 8"
definition ACRN_REQUEST_WAIT_WBINVD :: nat where "ACRN_REQUEST_WAIT_WBINVD = 9"

definition VCPU_EVENT_IOREQ :: nat where "VCPU_EVENT_IOREQ = 0"
definition VCPU_EVENT_VIRTUAL_INTERRUPT :: nat where "VCPU_EVENT_VIRTUAL_INTERRUPT = 1"
definition VCPU_EVENT_SYNC_WBINVD :: nat where "VCPU_EVENT_SYNC_WBINVD = 2"
definition VCPU_EVENT_NUM :: nat where "VCPU_EVENT_NUM = 3"

definition VECTOR_INVALID :: u32 where "VECTOR_INVALID = 0x100"

lemmas request_ids = ACRN_REQUEST_EXCP_def ACRN_REQUEST_EVENT_def ACRN_REQUEST_EXTINT_def ACRN_REQUEST_NMI_def
  ACRN_REQUEST_EOI_EXIT_BITMAP_UPDATE_def ACRN_REQUEST_EPT_FLUSH_def ACRN_REQUEST_TRP_FAULT_def
  ACRN_REQUEST_VPID_FLUSH_def ACRN_REQUEST_INIT_VMCS_def ACRN_REQUEST_WAIT_WBINVD_def

subsection \<open>Frames\<close>

text \<open>
  \<open>guest_frame\<close>: scheduler, timers, lists and events are as they were; only the
  guests' part of the state, and the pending software interrupts, may differ.
\<close>

definition guest_frame :: "'a guest_state_scheme \<Rightarrow> 'a guest_state_scheme \<Rightarrow> bool" where
  "guest_frame s s' \<longleftrightarrow> iorr_state.truncate (s'\<lparr>msip := msip s\<rparr>) = iorr_state.truncate s \<and>
    sched_events s' = sched_events s"

lemma guest_frame_refl [simp]: "guest_frame s s"
  by (simp add: guest_frame_def)

lemma guest_frame_trans: "guest_frame s s' \<Longrightarrow> guest_frame s' s'' \<Longrightarrow> guest_frame s s''"
  by (simp add: guest_frame_def iorr_state.truncate_def)

end
