(* ===== verification/Vcpu.thy ===== *)
theory Vcpu
  imports Guest
begin

text \<open>
  Registers, requests and context switches of a vCPU:
  \<open>arch/riscv/guest/vcpu.c\<close>, \<open>vmcs.c\<close>, the request interface of \<open>virq.c\<close>, the index
  of emulated registers of \<open>vcsr.c\<close>, and the software interrupts of
  \<open>arch/riscv/clint.c\<close> that kick a vCPU.
\<close>

subsection \<open>Software interrupts\<close>

definition NOTIFY_VCPU_SWI :: u32 where "NOTIFY_VCPU_SWI = 0"

definition init_clint :: "nat \<Rightarrow> 'a guest_state_scheme \<Rightarrow> 'a guest_state_scheme" where
  "init_clint cpu s = s\<lparr>swi_type := (swi_type s)(cpu := 0), swi_param := (swi_param s)(cpu := 0)\<rparr>"

definition send_single_swi :: "nat \<Rightarrow> u32 \<Rightarrow> 'a guest_state_scheme \<Rightarrow> 'a guest_state_scheme" where
  "send_single_swi cpu vector s =
    s\<lparr>swi_type := (swi_type s)(cpu := swi_type s cpu OR vector), msip := (msip s)(cpu := 1)\<rparr>"

text \<open>The loop ends: each round clears the lowest bit that is set.\<close>

partial_function (option) send_dest_ipi_loop ::
  "u64 \<Rightarrow> u32 \<Rightarrow> nat \<Rightarrow> 'a guest_state_scheme \<Rightarrow> 'a guest_state_scheme option" where
  "send_dest_ipi_loop msk vector cpu s =
    (if cpu < NR_CPUS
     then let msk = clear_bit cpu msk; s = send_single_swi cpu vector s
          in send_dest_ipi_loop msk vector (ffs64 msk) s
     else Some s)"

declare send_dest_ipi_loop.simps [code]

definition send_dest_ipi_mask :: "u64 \<Rightarrow> u32 \<Rightarrow> 'a guest_state_scheme \<Rightarrow> 'a guest_state_scheme option" where
  "send_dest_ipi_mask dest_mask vector s =
    (let cpu = ffs64 dest_mask
     in if cpu \<noteq> 0 then Some s
        else send_dest_ipi_loop dest_mask vector (unat (of_nat cpu - 1 :: u16)) s)"

subsection \<open>Requests\<close>

definition pcpuid_from_vcpu :: "'a guest_state_scheme \<Rightarrow> addr \<Rightarrow> nat" where
  "pcpuid_from_vcpu s v = sched_get_pcpuid s v"

definition kick_vcpu :: "addr \<Rightarrow> 'a guest_state_scheme \<Rightarrow> 'a guest_state_scheme" where
  "kick_vcpu v s =
    (let cpu = pcpuid_from_vcpu s v
     in if get_pcpu_id s \<noteq> cpu \<and> vcpu_run s cpu = v then send_single_swi cpu NOTIFY_VCPU_SWI s else s)"

definition vcpu_make_request :: "addr \<Rightarrow> nat \<Rightarrow> 'a guest_state_scheme \<Rightarrow> 'a guest_state_scheme" where
  "vcpu_make_request v eventid s =
    kick_vcpu v (upd_vcpu v (\<lambda>c. c\<lparr>pending_req := bitmap_set_lock eventid (pending_req c)\<rparr>) s)"

subsection \<open>Registers\<close>

definition ctx_index :: "acrn_vcpu \<Rightarrow> nat \<Rightarrow> nat" where
  "ctx_index c i = CONTEXT_WORDS * cur_context c + i"

definition ctx_word :: "acrn_vcpu \<Rightarrow> nat \<Rightarrow> u64" where
  "ctx_word c i = contexts c (ctx_index c i)"

definition set_ctx_word :: "nat \<Rightarrow> u64 \<Rightarrow> acrn_vcpu \<Rightarrow> acrn_vcpu" where
  "set_ctx_word i x c = c\<lparr>contexts := (contexts c)(ctx_index c i := x)\<rparr>"

definition vcpu_get_gpreg :: "'a guest_state_scheme \<Rightarrow> addr \<Rightarrow> nat \<Rightarrow> u64" where
  "vcpu_get_gpreg s v reg = ctx_word (vcpus s v) reg"

definition vcpu_set_gpreg :: "addr \<Rightarrow> nat \<Rightarrow> u64 \<Rightarrow> 'a guest_state_scheme \<Rightarrow> 'a guest_state_scheme" where
  "vcpu_set_gpreg v reg x s = upd_vcpu v (set_ctx_word reg x) s"

definition vcpu_get_rip :: "'a guest_state_scheme \<Rightarrow> addr \<Rightarrow> u64" where
  "vcpu_get_rip s v = ctx_word (vcpus s v) REG_IP"

definition vcpu_set_rip :: "addr \<Rightarrow> u64 \<Rightarrow> 'a guest_state_scheme \<Rightarrow> 'a guest_state_scheme" where
  "vcpu_set_rip v x s = upd_vcpu v (set_ctx_word REG_IP x) s"

definition vcpu_get_sp :: "'a guest_state_scheme \<Rightarrow> addr \<Rightarrow> u64" where
  "vcpu_get_sp s v = ctx_word (vcpus s v) CPU_REG_SP"

definition vcpu_set_sp :: "addr \<Rightarrow> u64 \<Rightarrow> 'a guest_state_scheme \<Rightarrow> 'a guest_state_scheme" where
  "vcpu_set_sp v x s = upd_vcpu v
    (\<lambda>c. (set_ctx_word CPU_REG_SP x c)\<lparr>reg_updated := bitmap_set_lock CPU_REG_SP (reg_updated c)\<rparr>) s"

text \<open>\<open>&&\<close> evaluates left to right: the cache bit is set only if the register is not marked updated.\<close>

definition vcpu_get_status :: "addr \<Rightarrow> 'a guest_state_scheme \<Rightarrow> u64 \<times> 'a guest_state_scheme" where
  "vcpu_get_status v s =
    (let c = vcpus s v;
         s = (if \<not> bitmap_test CPU_REG_STATUS (reg_updated c)
              then let (old, cached) = bitmap_test_and_set_lock CPU_REG_STATUS (reg_cached c);
                       s = upd_vcpu v (\<lambda>c. c\<lparr>reg_cached := cached\<rparr>) s
                   in if \<not> old \<and> launched c
                      then upd_vcpu v (set_ctx_word CTX_SSTATUS (cpu_csr_read VSSTATUS s)) s else s
              else s)
     in (ctx_word (vcpus s v) CTX_SSTATUS, s))"

definition vcpu_set_status :: "addr \<Rightarrow> u64 \<Rightarrow> 'a guest_state_scheme \<Rightarrow> 'a guest_state_scheme" where
  "vcpu_set_status v x s = upd_vcpu v
    (\<lambda>c. (set_ctx_word CTX_SSTATUS x c)\<lparr>reg_updated := bitmap_set_lock CPU_REG_STATUS (reg_updated c)\<rparr>) s"

definition vcpu_retain_ip :: "addr \<Rightarrow> 'a guest_state_scheme \<Rightarrow> 'a guest_state_scheme" where
  "vcpu_retain_ip v s = upd_vcpu v (\<lambda>c. c\<lparr>inst_len := 0\<rparr>) s"

definition is_vcpu_bsp :: "'a guest_state_scheme \<Rightarrow> addr \<Rightarrow> bool" where
  "is_vcpu_bsp s v = (vcpu_id (vcpus s v) = BSP_CPU_ID)"

definition set_vcpu_startup_entry :: "addr \<Rightarrow> u64 \<Rightarrow> 'a guest_state_scheme \<Rightarrow> 'a guest_state_scheme" where
  "set_vcpu_startup_entry v entry s = vcpu_set_rip v 0 s"

definition emulate_instruction :: "addr \<Rightarrow> 'a guest_state_scheme \<Rightarrow> int \<times> 'a guest_state_scheme" where
  "emulate_instruction v s =
    (let pc = vcpu_get_gpreg s v REG_IP in (0, vcpu_set_gpreg v REG_IP (pc + 4) s))"

definition decode_instruction :: "addr \<Rightarrow> 'a guest_state_scheme \<Rightarrow> int" where
  "decode_instruction v s = 8"

subsection \<open>Emulated registers\<close>

definition NUM_GUEST_CSRS :: nat where "NUM_GUEST_CSRS = 19"
definition CSR_TSC_DEADLINE :: u32 where "CSR_TSC_DEADLINE = 0x6E0"
definition CSR_APIC_BASE :: u32 where "CSR_APIC_BASE = 0x1B"
definition CSR_MTRR_CAP :: u32 where "CSR_MTRR_CAP = 0xFE"

text \<open>The initializer names two entries; the rest of the array is zero.\<close>

definition emulated_guest_csrs :: "u32 list" where
  "emulated_guest_csrs = [CSR_TSC_DEADLINE, CSR_APIC_BASE] @ replicate (NUM_GUEST_CSRS - 2) 0"

definition vcsr_get_guest_csr_index :: "u32 \<Rightarrow> nat" where
  "vcsr_get_guest_csr_index r = length (takeWhile (\<lambda>x. x \<noteq> r) emulated_guest_csrs)"

definition vcpu_get_guest_csr :: "'a guest_state_scheme \<Rightarrow> addr \<Rightarrow> u32 \<Rightarrow> u64" where
  "vcpu_get_guest_csr s v r =
    (let index = vcsr_get_guest_csr_index r
     in if index < NUM_GUEST_CSRS then guest_csrs (vcpus s v) index else 0)"

definition vcpu_set_guest_csr :: "addr \<Rightarrow> u32 \<Rightarrow> u64 \<Rightarrow> 'a guest_state_scheme \<Rightarrow> 'a guest_state_scheme" where
  "vcpu_set_guest_csr v r x s =
    (let index = vcsr_get_guest_csr_index r
     in if index < NUM_GUEST_CSRS then upd_vcpu v (\<lambda>c. c\<lparr>guest_csrs := (guest_csrs c)(index := x)\<rparr>) s else s)"

subsection \<open>EOI exit bitmaps\<close>

definition vcpu_set_eoi_exit_bitmap :: "addr \<Rightarrow> u32 \<Rightarrow> 'a guest_state_scheme \<Rightarrow> 'a guest_state_scheme" where
  "vcpu_set_eoi_exit_bitmap v vector s =
    (let i = unat (drop_bit 6 (vector AND 0xff));
         (old, w) = bitmap_test_and_set_lock (unat (vector AND 0x3f)) (eoi_exit_bitmap (vcpus s v) i);
         s = upd_vcpu v (\<lambda>c. c\<lparr>eoi_exit_bitmap := (eoi_exit_bitmap c)(i := w)\<rparr>) s
     in if \<not> old then vcpu_make_request v ACRN_REQUEST_EOI_EXIT_BITMAP_UPDATE s else s)"

definition vcpu_clear_eoi_exit_bitmap :: "addr \<Rightarrow> u32 \<Rightarrow> 'a guest_state_scheme \<Rightarrow> 'a guest_state_scheme" where
  "vcpu_clear_eoi_exit_bitmap v vector s =
    (let i = unat (drop_bit 6 (vector AND 0xff));
         (old, w) = bitmap_test_and_clear_lock (unat (vector AND 0x3f)) (eoi_exit_bitmap (vcpus s v) i);
         s = upd_vcpu v (\<lambda>c. c\<lparr>eoi_exit_bitmap := (eoi_exit_bitmap c)(i := w)\<rparr>) s
     in if old then vcpu_make_request v ACRN_REQUEST_EOI_EXIT_BITMAP_UPDATE s else s)"

definition vcpu_reset_eoi_exit_bitmaps :: "addr \<Rightarrow> 'a guest_state_scheme \<Rightarrow> 'a guest_state_scheme" where
  "vcpu_reset_eoi_exit_bitmaps v s =
    vcpu_make_request v ACRN_REQUEST_EOI_EXIT_BITMAP_UPDATE
      (upd_vcpu v (\<lambda>c. c\<lparr>eoi_exit_bitmap := (\<lambda>i. if i < 4 then 0 else eoi_exit_bitmap c i)\<rparr>) s)"

subsection \<open>Loading and saving the guest state\<close>

definition init_guest_state :: "addr \<Rightarrow> 'a guest_state_scheme \<Rightarrow> 'a guest_state_scheme" where
  "init_guest_state v s =
    (let s = vcpu_set_gpreg v OFFSET_REG_A0 (of_nat (vcpu_id (vcpus s v))) s;
         c = vcpus s v;
         s = cpu_csr_write VSSTATUS 0x2000C0000 s;
         s = cpu_csr_write VSEPC (ctx_word c CTX_SEPC) s;
         s = cpu_csr_write VSIP (ctx_word c CTX_SIP) s;
         s = cpu_csr_write VSIE (ctx_word c CTX_SIE) s;
         s = cpu_csr_write VSTVEC (ctx_word c CTX_STVEC) s;
         s = cpu_csr_write VSSCRATCH (ctx_word c CTX_SSCRATCH) s;
         s = cpu_csr_write VSTVAL (ctx_word c CTX_STVAL) s;
         s = cpu_csr_write VSCAUSE (ctx_word c CTX_SCAUSE) s
     in cpu_csr_write VSATP (ctx_word c CTX_SATP) s)"

definition load_guest_state :: "addr \<Rightarrow> 'a guest_state_scheme \<Rightarrow> 'a guest_state_scheme" where
  "load_guest_state v s =
    (let c = vcpus s v;
         s = cpu_csr_write VSSTATUS (ctx_word c CTX_SSTATUS) s;
         s = cpu_csr_write VSEPC (ctx_word c CTX_SEPC) s;
         s = cpu_csr_write VSIP (ctx_word c CTX_SIP) s;
         s = cpu_csr_write VSIE (ctx_word c CTX_SIE) s;
         s = cpu_csr_write VSTVEC (ctx_word c CTX_STVEC) s;
         s = cpu_csr_write VSSCRATCH (ctx_word c CTX_SSCRATCH) s;
         s = cpu_csr_write VSTVAL (ctx_word c CTX_STVAL) s;
         s = cpu_csr_write VSCAUSE (ctx_word c CTX_SCAUSE) s
     in cpu_csr_write VSATP (ctx_word c CTX_SATP) s)"

definition save_guest_state :: "addr \<Rightarrow> 'a guest_state_scheme \<Rightarrow> 'a guest_state_scheme" where
  "save_guest_state v s =
    (let s = upd_vcpu v (set_ctx_word CTX_SSTATUS (cpu_csr_read VSSTATUS s)) s;
         s = upd_vcpu v (set_ctx_word CTX_SEPC (cpu_csr_read VSEPC s)) s;
         s = upd_vcpu v (set_ctx_word CTX_SIP (cpu_csr_read VSIP s)) s;
         s = upd_vcpu v (set_ctx_word CTX_SIE (cpu_csr_read VSIE s)) s;
         s = upd_vcpu v (set_ctx_word CTX_STVEC (cpu_csr_read VSTVEC s)) s;
         s = upd_vcpu v (set_ctx_word CTX_SSCRATCH (cpu_csr_read VSSCRATCH s)) s;
         s = upd_vcpu v (set_ctx_word CTX_STVAL (cpu_csr_read VSTVAL s)) s;
         s = upd_vcpu v (set_ctx_word CTX_SCAUSE (cpu_csr_read VSCAUSE s)) s
     in upd_vcpu v (set_ctx_word CTX_SATP (cpu_csr_read VSATP s)) s)"

text \<open>\<open>sstatus\<close> of the hart is the field of the base record.\<close>

definition init_host_state :: "addr \<Rightarrow> 'a guest_state_scheme \<Rightarrow> 'a guest_state_scheme" where
  "init_host_state v s =
    (let s = cpu_csr_set HSTATUS 0x200000180 s;
         s = upd_vcpu v (set_ctx_word REG_HSTATUS 0x200000180) s;
         s = s\<lparr>sstatus := sstatus s OR 0x2000C0100\<rparr>;
         s = upd_vcpu v (set_ctx_word CPU_REG_STATUS 0x2000C0100) s
     in cpu_csr_write HEDELEG 0xf0bfff s)"

definition init_vmcs :: "addr \<Rightarrow> 'a guest_state_scheme \<Rightarrow> 'a guest_state_scheme" where
  "init_vmcs v s =
    (let s = init_guest_state v (init_host_state v s)
     in s\<lparr>vcpu_run := (vcpu_run s)(get_pcpu_id s := v)\<rparr>)"

definition load_vmcs :: "addr \<Rightarrow> 'a guest_state_scheme \<Rightarrow> 'a guest_state_scheme" where
  "load_vmcs v s =
    (let s = load_guest_state v s in s\<lparr>vcpu_run := (vcpu_run s)(get_pcpu_id s := v)\<rparr>)"

definition save_vmcs :: "addr \<Rightarrow> 'a guest_state_scheme \<Rightarrow> 'a guest_state_scheme" where
  "save_vmcs v s = save_guest_state v s"

subsection \<open>Switching threads\<close>

text \<open>The function pointers \<open>context_switch_out\<close>, \<open>context_switch_in\<close> and \<open>vcpu_thread\<close>.\<close>

definition CONTEXT_SWITCH_OUT :: nat where "CONTEXT_SWITCH_OUT = 2"
definition CONTEXT_SWITCH_IN :: nat where "CONTEXT_SWITCH_IN = 3"
definition VCPU_THREAD :: nat where "VCPU_THREAD = 4"

definition context_switch_out :: "addr \<Rightarrow> 'a guest_state_scheme \<Rightarrow> 'a guest_state_scheme" where
  "context_switch_out prev s = save_vmcs prev s"

definition context_switch_in :: "addr \<Rightarrow> 'a guest_state_scheme \<Rightarrow> 'a guest_state_scheme" where
  "context_switch_in nxt s = load_vmcs nxt s"

text \<open>A call through \<open>switch_out\<close> or \<open>switch_in\<close>; these two are all the functions they point to.\<close>

definition guest_switch :: "'a guest_state_scheme thread_fn" where
  "guest_switch g t s =
    Some (if g = CONTEXT_SWITCH_OUT then context_switch_out t s else context_switch_in t s)"

definition get_running_vcpu :: "'a guest_state_scheme \<Rightarrow> nat \<Rightarrow> addr" where
  "get_running_vcpu s cpu =
    (let curr = sched_get_current s cpu in if curr \<noteq> 0 \<and> \<not> is_idle_thread s curr then curr else 0)"

definition get_ever_run_vcpu :: "'a guest_state_scheme \<Rightarrow> nat \<Rightarrow> addr" where
  "get_ever_run_vcpu s cpu = ever_run_vcpu s cpu"

subsection \<open>What these operations touch\<close>

lemma upd_vcpu_fields [simp]:
  "vcpus (upd_vcpu v f s) = (vcpus s)(v := f (vcpus s v))" "vms (upd_vcpu v f s) = vms s"
  "csr (upd_vcpu v f s) = csr s" "vcpu_run (upd_vcpu v f s) = vcpu_run s" "pcpu_id (upd_vcpu v f s) = pcpu_id s"
  "threads (upd_vcpu v f s) = threads s" "sched_ctl (upd_vcpu v f s) = sched_ctl s" "idle (upd_vcpu v f s) = idle s"
  "hw_vcpu (upd_vcpu v f s) = hw_vcpu s" "vtimer (upd_vcpu v f s) = vtimer s" "vcpu_event (upd_vcpu v f s) = vcpu_event s"
  "vm_configs (upd_vcpu v f s) = vm_configs s" "sched_events (upd_vcpu v f s) = sched_events s"
  "msip (upd_vcpu v f s) = msip s" "swi_type (upd_vcpu v f s) = swi_type s"
  by (simp_all add: upd_vcpu_def)

lemma upd_vcpu_frame [simp]: "guest_frame s (upd_vcpu v f s)"
  by (simp add: guest_frame_def upd_vcpu_def iorr_state.truncate_def)

lemma upd_vm_frame [simp]: "guest_frame s (upd_vm m f s)"
  by (simp add: guest_frame_def upd_vm_def iorr_state.truncate_def)

lemma csr_frame [simp]: "guest_frame s (cpu_csr_write r x s)" "guest_frame s (cpu_csr_set r x s)"
  by (simp_all add: guest_frame_def cpu_csr_write_def cpu_csr_set_def iorr_state.truncate_def)

lemma send_single_swi_frame [simp]: "guest_frame s (send_single_swi cpu x s)"
  by (simp add: guest_frame_def send_single_swi_def iorr_state.truncate_def)

lemma kick_vcpu_frame [simp]: "guest_frame s (kick_vcpu v s)"
  by (simp add: kick_vcpu_def Let_def)

lemma vcpu_make_request_frame [simp]: "guest_frame s (vcpu_make_request v e s)"
  unfolding vcpu_make_request_def using guest_frame_trans [OF upd_vcpu_frame kick_vcpu_frame] .

lemma kick_vcpu_fields [simp]:
  "vcpus (kick_vcpu v s) = vcpus s" "vms (kick_vcpu v s) = vms s" "csr (kick_vcpu v s) = csr s"
  by (simp_all add: kick_vcpu_def send_single_swi_def Let_def)

lemma vcpu_make_request_vcpus [simp]:
  "vcpus (vcpu_make_request v e s) = (vcpus s)(v := (vcpus s v)\<lparr>pending_req := bitmap_set_lock e (pending_req (vcpus s v))\<rparr>)"
  "vms (vcpu_make_request v e s) = vms s" "csr (vcpu_make_request v e s) = csr s"
  by (simp_all add: vcpu_make_request_def)

lemma vcpu_get_status_eq [simp]: "vcpu_get_status v s = (ctx_word (vcpus s v) CTX_SSTATUS, s)"
  by (simp add: vcpu_get_status_def bitmap_test_and_set_lock_def upd_vcpu_def Let_def)

lemma ctx_word_set [simp]:
  "ctx_word (set_ctx_word i x c) j = (if j = i then x else ctx_word c j)" "cur_context (set_ctx_word i x c) = cur_context c"
  by (simp_all add: ctx_word_def set_ctx_word_def ctx_index_def)

text \<open>Loading and saving as one update each.\<close>

definition vs_regs :: "(csr_reg \<times> nat) list" where
  "vs_regs = [(VSSTATUS, CTX_SSTATUS), (VSEPC, CTX_SEPC), (VSIP, CTX_SIP), (VSIE, CTX_SIE), (VSTVEC, CTX_STVEC),
    (VSSCRATCH, CTX_SSCRATCH), (VSTVAL, CTX_STVAL), (VSCAUSE, CTX_SCAUSE), (VSATP, CTX_SATP)]"

lemmas ctx_indices = CTX_SSTATUS_def CTX_SEPC_def CTX_SIP_def CTX_SIE_def CTX_STVEC_def CTX_SSCRATCH_def
  CTX_STVAL_def CTX_SCAUSE_def CTX_SATP_def

lemma load_vmcs_eq:
  "load_vmcs v s = s\<lparr>csr := csr (load_vmcs v s), vcpu_run := (vcpu_run s)(pcpu_id s := v)\<rparr>"
  "csr (load_vmcs v s) r = (case map_of vs_regs r of Some i \<Rightarrow> ctx_word (vcpus s v) i | None \<Rightarrow> csr s r)"
  by (simp_all add: load_vmcs_def load_guest_state_def cpu_csr_write_def Let_def get_pcpu_id_def vs_regs_def)

lemma save_vmcs_eq:
  "save_vmcs v s = upd_vcpu v (\<lambda>c. vcpus (save_vmcs v s) v) s"
  "ctx_word (vcpus (save_vmcs v s) v) i = (case map_of (map prod.swap vs_regs) i of
     Some r \<Rightarrow> csr s r | None \<Rightarrow> ctx_word (vcpus s v) i)"
  "cur_context (vcpus (save_vmcs v s) v) = cur_context (vcpus s v)"
  by (simp_all add: save_vmcs_def save_guest_state_def Let_def upd_vcpu_def cpu_csr_read_def vs_regs_def ctx_indices)

lemma save_vmcs_fields [simp]: "csr (save_vmcs v s) = csr s" "w \<noteq> v \<Longrightarrow> vcpus (save_vmcs v s) w = vcpus s w"
  by (subst save_vmcs_eq(1), simp)+

lemma load_vmcs_fields [simp]: "vcpus (load_vmcs v s) = vcpus s"
  by (subst load_vmcs_eq(1), simp)

lemma vs_regs_swap: "map_of vs_regs r = Some i \<Longrightarrow> map_of (map prod.swap vs_regs) i = Some r"
  by (auto simp: vs_regs_def ctx_indices split: if_splits)

text \<open>Switching a vCPU out and later in again restores its supervisor registers.\<close>

lemma switch_restores:
  assumes "map_of vs_regs r = Some i" "vcpus s' v = vcpus (context_switch_out v s) v"
  shows "csr (context_switch_in v s') r = csr s r"
  using assms vs_regs_swap [OF assms(1)]
  by (simp add: context_switch_in_def context_switch_out_def load_vmcs_eq(2) save_vmcs_eq(2))

subsection \<open>Switching respects the scheduler\<close>

lemma switch_same [simp]:
  "sched_same s (save_vmcs v s)" "sched_same s (load_vmcs v s)"
  "lnext (save_vmcs v s) = lnext s" "lnext (load_vmcs v s) = lnext s"
  "lprev (save_vmcs v s) = lprev s" "lprev (load_vmcs v s) = lprev s"
  "threads (save_vmcs v s) = threads s" "threads (load_vmcs v s) = threads s"
  "iorr_data (save_vmcs v s) = iorr_data s" "iorr_data (load_vmcs v s) = iorr_data s"
  "iorr_runqueue (save_vmcs v s) = iorr_runqueue s" "iorr_runqueue (load_vmcs v s) = iorr_runqueue s"
  "sched_events (save_vmcs v s) = sched_events s" "sched_events (load_vmcs v s) = sched_events s"
  by (subst save_vmcs_eq(1) load_vmcs_eq(1), simp add: sched_same_def upd_vcpu_def)+

lemma iorr_rel_heap_cong:
  assumes "lnext s' = lnext s" "lprev s' = lprev s" "threads s' = threads s" "iorr_data s' = iorr_data s"
    "iorr_runqueue s' = iorr_runqueue s"
  shows "iorr_rel thr s' Q = iorr_rel thr s Q" "iorr_inv thr s' = iorr_inv thr s" "iorr_runq thr d s' = iorr_runq thr d s"
proof -
  show rel: "iorr_rel thr s' Q = iorr_rel thr s Q" for Q
    using assms dll_cong [of s' s] by (simp add: iorr_rel_def)
  show "iorr_inv thr s' = iorr_inv thr s" by (simp add: iorr_inv_def rel)
  show "iorr_runq thr d s' = iorr_runq thr d s" using assms by (simp add: iorr_runq_def is_inqueue_def list_empty_def)
qed

lemma guest_switch_ok: "iorr_switch_ok thr (guest_switch :: 'a guest_state_scheme thread_fn)"
proof -
  have "iorr_inv thr (save_vmcs t s) = iorr_inv thr s" "iorr_runq thr d (save_vmcs t s) = iorr_runq thr d s"
    "iorr_inv thr (load_vmcs t s) = iorr_inv thr s" "iorr_runq thr d (load_vmcs t s) = iorr_runq thr d s"
    for t d and s :: "'a guest_state_scheme"
    by (rule iorr_rel_heap_cong; simp)+
  thus ?thesis by (simp add: iorr_switch_ok_def guest_switch_def context_switch_out_def context_switch_in_def)
qed

text \<open>The threads of a hart: those whose home it is.\<close>

definition homed :: "(addr \<Rightarrow> nat option) \<Rightarrow> nat \<Rightarrow> addr set" where
  "homed home c = {t. t \<noteq> 0 \<and> home t = Some c}"

lemma homed_apart: "threads_apart (homed home)"
  by (auto simp: threads_apart_def homed_def)

interpretation guest_sched: event_policy sched_iorr "guest_switch :: 'a guest_state_scheme thread_fn"
  "iorr_inv (homed home)" "iorr_runq (homed home)" "homed home" for home
  by (rule iorr_event_policy [OF homed_apart guest_switch_ok])
    (auto simp: guest_switch_def context_switch_out_def context_switch_in_def)

end
