(* ===== verification/Vclint.thy ===== *)
theory Vclint
  imports Vcpu
begin

text \<open>
  The virtual CLINT of a virtual machine, \<open>arch/riscv/guest/vclint.c\<close>: software
  interrupt bits, timers and their registers, for up to five vCPUs.  Its timers
  are hypervisor timers, so the handler of the timer queue runs
  \<open>vclint_timer_expired\<close> beside the scheduler tick; \<open>guest_callback\<close> is
  that dispatch, and the contract of timer callbacks is interpreted on it.

  The register file \<open>struct clint_regs\<close> takes \<open>0xD000\<close> bytes: its members end at
  \<open>0xC018\<close>, rounded up to whole pages.
\<close>

subsection \<open>Registers\<close>

definition CLINT_MEM_ADDR :: u64 where "CLINT_MEM_ADDR = 0x02000000"
definition CLINT_MEM_REGION :: u64 where "CLINT_MEM_REGION = CLINT_MEM_ADDR + 0x10000"
definition DEFAULT_CLINT_BASE :: u64 where "DEFAULT_CLINT_BASE = 0x2000000"
definition CLINT_REGS_SIZE :: u32 where "CLINT_REGS_SIZE = 0xD000"
definition NR_VTIMERS :: nat where "NR_VTIMERS = 5"

definition CLINT_OFFSET_MSIP0 :: u32 where "CLINT_OFFSET_MSIP0 = 0"
definition CLINT_OFFSET_TIMER0 :: u32 where "CLINT_OFFSET_TIMER0 = 0x4000"
definition CLINT_OFFSET_MTIME :: u32 where "CLINT_OFFSET_MTIME = 0xBFF8"

text \<open>The case labels of the switches.\<close>

definition msip_offsets :: "u32 list" where
  "msip_offsets = [0x00, 0x04, 0x08, 0x0C, 0x10]"

definition timer_offsets :: "u32 list" where
  "timer_offsets = [0x4000, 0x4008, 0x4010, 0x4018, 0x4020]"

definition CLINT_VECTOR_SSI :: u32 where "CLINT_VECTOR_SSI = 2"
definition CLINT_VECTOR_STI :: u32 where "CLINT_VECTOR_STI = 0x20"

text \<open>The function pointer \<open>vclint_timer_expired\<close>.\<close>

definition VCLINT_TIMER_EXPIRED :: nat where "VCLINT_TIMER_EXPIRED = 5"

definition vcpu_from_vid :: "'a guest_state_scheme \<Rightarrow> nat \<Rightarrow> nat \<Rightarrow> addr" where
  "vcpu_from_vid s m i = hw_vcpu s m i"

definition vcpu_vclint :: "'a guest_state_scheme \<Rightarrow> addr \<Rightarrow> nat" where
  "vcpu_vclint s v = vcpu_vm (vcpus s v)"

definition vclint_vcpu :: "'a guest_state_scheme \<Rightarrow> nat \<Rightarrow> nat \<Rightarrow> addr" where
  "vclint_vcpu s m i = hw_vcpu s m i"

subsection \<open>Interrupts\<close>

definition vclint_set_intr :: "addr \<Rightarrow> 'a guest_state_scheme \<Rightarrow> 'a guest_state_scheme option" where
  "vclint_set_intr v s = do {
     s \<leftarrow> signal_event sched_iorr (vcpu_event s v VCPU_EVENT_VIRTUAL_INTERRUPT) s;
     Some (vcpu_make_request v ACRN_REQUEST_EVENT s)
   }"

definition vclint_timer_expired :: "addr \<Rightarrow> 'a guest_state_scheme \<Rightarrow> 'a guest_state_scheme option" where
  "vclint_timer_expired v s =
    vclint_set_intr v (upd_vm (vcpu_vclint s v) (\<lambda>m. m\<lparr>mtip := set_bit_u64 (vcpu_id (vcpus s v)) (mtip m)\<rparr>) s)"

definition vclint_find_deliverable_intr :: "'a guest_state_scheme \<Rightarrow> addr \<Rightarrow> u32 \<Rightarrow> bool \<times> u32" where
  "vclint_find_deliverable_intr s v vector =
    (let m = vms s (vcpu_vclint s v); i = vcpu_id (vcpus s v);
         vector = (if clint_msip (clint_page m) i AND 1 \<noteq> 0 then CLINT_VECTOR_SSI
                   else if test_bit i (mtip m) then CLINT_VECTOR_STI else vector)
     in (False, vector))"

definition vcpu_inject_intr :: "addr \<Rightarrow> bool \<Rightarrow> bool \<Rightarrow> 'a guest_state_scheme \<Rightarrow> 'a guest_state_scheme" where
  "vcpu_inject_intr v guest_irq_enabled injected s =
    (if guest_irq_enabled \<and> \<not> injected
     then let (found, vector) = vclint_find_deliverable_intr s v 0
          in if found then cpu_csr_write HVIP (ucast vector) s else s
     else s)"

definition vclint_has_pending_intr :: "'a guest_state_scheme \<Rightarrow> addr \<Rightarrow> bool" where
  "vclint_has_pending_intr s v =
    (clint_msip (clint_page (vms s (vcpu_vclint s v))) (vcpu_id (vcpus s v)) AND 1 \<noteq> 0)"

definition vclint_has_pending_delivery_intr :: "addr \<Rightarrow> 'a guest_state_scheme \<Rightarrow> bool \<times> 'a guest_state_scheme" where
  "vclint_has_pending_delivery_intr v s =
    (let s = (if vclint_has_pending_intr s v then vcpu_make_request v ACRN_REQUEST_EVENT s else s)
     in (pending_req (vcpus s v) \<noteq> 0, s))"

subsection \<open>Timers\<close>

definition vclint_init_timer :: "nat \<Rightarrow> nat \<Rightarrow> 'a guest_state_scheme \<Rightarrow> 'a guest_state_scheme" where
  "vclint_init_timer m idx s =
    initialize_timer (vtimer s m idx) (Some VCLINT_TIMER_EXPIRED) (vcpu_from_vid s m idx) 0 0 s"

definition vclint_reset_timer :: "nat \<Rightarrow> 'a guest_state_scheme \<Rightarrow> 'a guest_state_scheme" where
  "vclint_reset_timer m s = fold (\<lambda>i s.
     upd_timer (vtimer s m i) (\<lambda>t. t\<lparr>timer_mode := TICK_MODE_ONESHOT, timeout := 0, period_in_cycle := 0\<rparr>)
       (del_timer (vtimer s m i) s)) [0..<NR_VTIMERS] s"

definition vclint_write_tmr :: "nat \<Rightarrow> nat \<Rightarrow> u64 \<Rightarrow> 'a guest_state_scheme \<Rightarrow> 'a guest_state_scheme option" where
  "vclint_write_tmr m index data s =
    (let t = vtimer s m index
     in map_option snd (add_timer t (upd_timer t (\<lambda>r. r\<lparr>timeout := data\<rparr>) (del_timer t s))))"

definition vclint_get_tsc_deadline_csr :: "nat \<Rightarrow> u64" where
  "vclint_get_tsc_deadline_csr m = 0"

definition vclint_set_tsc_deadline_csr :: "nat \<Rightarrow> nat \<Rightarrow> u64 \<Rightarrow> 'a guest_state_scheme \<Rightarrow> 'a guest_state_scheme option" where
  "vclint_set_tsc_deadline_csr m index val s =
    (let t = vtimer s m index; s = del_timer t s
     in if val \<noteq> 0 then map_option snd (add_timer t (upd_timer t (\<lambda>r. r\<lparr>timeout := val\<rparr>) s))
        else Some (upd_timer t (\<lambda>r. r\<lparr>timeout := 0\<rparr>) s))"

definition del_vtimers :: "nat \<Rightarrow> 'a guest_state_scheme \<Rightarrow> 'a guest_state_scheme" where
  "del_vtimers m s = fold (\<lambda>i s. del_timer (vtimer s m i) s) [0..<NR_VTIMERS] s"

definition vclint_free :: "addr \<Rightarrow> 'a guest_state_scheme \<Rightarrow> 'a guest_state_scheme" where
  "vclint_free v s = del_vtimers (vcpu_vclint s v) s"

subsection \<open>Register accesses\<close>

definition vclint_write_msip :: "nat \<Rightarrow> nat \<Rightarrow> u32 \<Rightarrow> 'a guest_state_scheme \<Rightarrow> 'a guest_state_scheme option" where
  "vclint_write_msip m idx data s =
    vclint_set_intr (hw_vcpu s m idx)
      (upd_vm m (\<lambda>r. r\<lparr>clint_page := (clint_page r)\<lparr>clint_msip := (clint_msip (clint_page r))(idx := data AND 1)\<rparr>\<rparr>) s)"

definition vclint_read :: "'a guest_state_scheme \<Rightarrow> nat \<Rightarrow> u32 \<Rightarrow> int \<times> u64" where
  "vclint_read s m offset_arg =
    (let clint = clint_page (vms s m); offset = offset_arg - ucast CLINT_MEM_ADDR
     in if offset > CLINT_REGS_SIZE then (- EACCES, 0)
        else if offset \<in> set timer_offsets
        then (0, clint_mtimer clint (unat (drop_bit 3 (offset - CLINT_OFFSET_TIMER0))))
        else if offset \<in> set msip_offsets
        then (0, ucast (clint_msip clint (unat (drop_bit 2 (offset - CLINT_OFFSET_MSIP0)))))
        else if offset = CLINT_OFFSET_MTIME then (0, clint_mtime clint)
        else (- EACCES, 0))"

definition vclint_write :: "nat \<Rightarrow> u32 \<Rightarrow> u64 \<Rightarrow> 'a guest_state_scheme \<Rightarrow> (int \<times> 'a guest_state_scheme) option" where
  "vclint_write m offset_arg data s =
    (let offset = offset_arg - ucast (clint_base (vms s m))
     in if offset \<le> CLINT_REGS_SIZE
        then if offset \<in> set msip_offsets
             then map_option (Pair 0) (vclint_write_msip m (unat (drop_bit 2 (offset - CLINT_OFFSET_MSIP0))) (ucast data) s)
             else if offset \<in> set timer_offsets
             then map_option (Pair 0) (vclint_write_tmr m (unat (drop_bit 3 (offset - CLINT_OFFSET_TIMER0))) data s)
             else if offset = CLINT_OFFSET_MTIME
             then Some (0, del_vtimers m (upd_vm m (\<lambda>r. r\<lparr>clint_page := (clint_page r)\<lparr>clint_mtime := data\<rparr>\<rparr>) s))
             else Some (- EACCES, s)
        else Some (- EACCES, s))"

definition vclint_get_clintbase :: "'a guest_state_scheme \<Rightarrow> nat \<Rightarrow> u64" where
  "vclint_get_clintbase s m = clint_base (vms s m)"

definition vclint_set_clintbase :: "nat \<Rightarrow> u64 \<Rightarrow> 'a guest_state_scheme \<Rightarrow> int \<times> 'a guest_state_scheme" where
  "vclint_set_clintbase m new s =
    (0, if clint_base (vms s m) \<noteq> new then upd_vm m (\<lambda>r. r\<lparr>clint_base := new\<rparr>) s else s)"

definition zero_clint :: clint_regs where
  "zero_clint = \<lparr>clint_msip = (\<lambda>_. 0), clint_mtimer = (\<lambda>_. 0), clint_mtime = 0\<rparr>"

definition vclint_reset :: "nat \<Rightarrow> 'a guest_state_scheme \<Rightarrow> 'a guest_state_scheme" where
  "vclint_reset m s =
    vclint_reset_timer m (upd_vm m (\<lambda>r. r\<lparr>clint_base := DEFAULT_CLINT_BASE, clint_page := zero_clint\<rparr>) s)"

definition vclint_init :: "nat \<Rightarrow> 'a guest_state_scheme \<Rightarrow> 'a guest_state_scheme" where
  "vclint_init m s =
    (let s = upd_vm m (\<lambda>r. r\<lparr>clint_base := DEFAULT_CLINT_BASE\<rparr>) s;
         (tick, s) = get_tick s;
         s = upd_vm m (\<lambda>r. r\<lparr>clint_page := (clint_page r)\<lparr>clint_mtime := tick\<rparr>\<rparr>) s
     in fold (vclint_init_timer m) [0..<NR_VTIMERS] s)"

definition ACRN_IOREQ_DIR_READ :: u32 where "ACRN_IOREQ_DIR_READ = 0"
definition ACRN_IOREQ_DIR_WRITE :: u32 where "ACRN_IOREQ_DIR_WRITE = 1"

definition upd_req :: "addr \<Rightarrow> (io_reqs \<Rightarrow> io_reqs) \<Rightarrow> 'a guest_state_scheme \<Rightarrow> 'a guest_state_scheme" where
  "upd_req v f s = upd_vcpu v (\<lambda>c. c\<lparr>req := (req c)\<lparr>reqs := f (reqs (req c))\<rparr>\<rparr>) s"

text \<open>Both \<open>may_valid\<close> operations of the vCLINT return true.\<close>

definition clint_access_vmexit_handler :: "addr \<Rightarrow> 'a guest_state_scheme \<Rightarrow> (int \<times> 'a guest_state_scheme) option" where
  "clint_access_vmexit_handler v s =
    (if decode_instruction v s \<ge> 0
     then let m = vcpu_vclint s v; mmio = reqs (req (vcpus s v)); offset = ucast (req_address mmio)
          in if direction mmio = ACRN_IOREQ_DIR_WRITE
             then let (err, s) = emulate_instruction v s
                  in if err = 0 then map_option (\<lambda>r. (err, snd r)) (vclint_write m offset (req_value mmio) s)
                     else Some (err, s)
             else let s = upd_req v (\<lambda>r. r\<lparr>req_value := snd (vclint_read s m offset)\<rparr>) s
                  in Some (emulate_instruction v s)
     else Some (- EINVAL, s))"

subsection \<open>Callbacks of the timer queue\<close>

definition guest_callback :: "nat \<Rightarrow> nat \<Rightarrow> 'a guest_state_scheme \<Rightarrow> 'a guest_state_scheme option" where
  "guest_callback f data s =
    (if f = SCHED_TICK_HANDLER then sched_tick_handler data s else vclint_timer_expired data s)"

text \<open>Waking a thread touches its own links and those of its run queue.\<close>

lemma wake_thread_steps:
  assumes "wake_thread sched_iorr t s = Some s'"
  shows "\<exists>s1 s2. policy_same s s1 \<and> (s2 = s1 \<or> s2 = runqueue_add_head t s1) \<and> policy_same s2 s'"
proof -
  have lock: "policy_same s s1" if "obtain_schedule_lock c s = Some (x, s1)" for c x s1
    using that by (auto simp: obtain_schedule_lock_def local_irq_save_def local_irq_disable_def bind_eq_Some_conv
        policy_same_def upd_ctl_def)
  have up: "policy_same u (release_schedule_lock c x (set_be_blocking t False (if is_blocked u t
      then make_reschedule_request c (set_thread_status t THREAD_STS_RUNNABLE u) else u)))" for c x u
    by (rule policy_same_trans [OF _ policy_same_upds(5)], rule policy_same_trans [OF _ policy_same_upds(3)])
      (auto intro: policy_same_trans [OF policy_same_upds(2) policy_same_upds(4)])
  obtain x s1 where s1: "obtain_schedule_lock (thr_pcpu_id (threads s t)) s = Some (x, s1)"
    and rest: "s' = release_schedule_lock (thr_pcpu_id (threads s t)) x (if is_blocked s1 t \<or> be_blocking (threads s1 t)
      then set_be_blocking t False (if is_blocked (runqueue_add_head t s1) t
        then make_reschedule_request (thr_pcpu_id (threads s t)) (set_thread_status t THREAD_STS_RUNNABLE (runqueue_add_head t s1))
        else runqueue_add_head t s1) else s1)"
    using assms by (simp add: wake_thread_def sched_iorr_def sched_iorr_wake_def bind_eq_Some_conv Let_def cong: if_cong)
      (auto split: if_splits)
  show ?thesis
  proof (cases "is_blocked s1 t \<or> be_blocking (threads s1 t)")
    case True
    have "policy_same (runqueue_add_head t s1) s'" using up [of "runqueue_add_head t s1"] unfolding rest if_P [OF True] .
    thus ?thesis using lock [OF s1] by blast
  next
    case False
    have "policy_same s1 s'" using policy_same_upds(5) [of s1] unfolding rest if_not_P [OF False] .
    thus ?thesis using lock [OF s1] by blast
  qed
qed

lemma policy_same_timers_kept: "policy_same s s' \<Longrightarrow> timers_kept N s s'"
  by (simp add: policy_same_def timers_kept_def)

lemma timers_kept_trans: "timers_kept N s s' \<Longrightarrow> timers_kept N s' s'' \<Longrightarrow> timers_kept N s s''"
  by (auto simp: timers_kept_def)

lemma runqueue_add_head_kept:
  assumes inv: "iorr_inv thr s" and t: "t \<in> thr c" and N: "\<And>d. N \<inter> thr d = {}" "\<And>d. iorr_runqueue s d \<notin> N"
  shows "timers_kept N s (runqueue_add_head t s)" "iorr_runqueue (runqueue_add_head t s) = iorr_runqueue s"
proof -
  obtain Q where Q: "iorr_rel thr s Q" using inv by (auto simp: iorr_inv_def)
  have "a \<notin> set (t # iorr_runqueue s c # Q c)" if "a \<in> N" for a
    using that N [of c] t iorr_relD(2) [OF Q, of c] by auto
  thus "timers_kept N s (runqueue_add_head t s)"
    using list_add_head_links [OF iorr_relD(1) [OF Q, of c]] iorr_relD(4) [OF Q t]
    by (simp add: timers_kept_def runqueue_add_head_def)
qed (simp add: runqueue_add_head_def)

lemma policy_same_runqueue: "policy_same s s' \<Longrightarrow> iorr_runqueue s' = iorr_runqueue s"
  by (cases s; cases s') (simp add: policy_same_def)

lemma wake_thread_kept:
  assumes "iorr_inv thr s" "t \<in> thr c" "threads_apart thr" "wake_thread sched_iorr t s = Some s'"
    and N: "\<And>d. N \<inter> thr d = {}" "\<And>d. iorr_runqueue s d \<notin> N"
  shows "timers_kept N s s'" "iorr_runqueue s' = iorr_runqueue s"
proof -
  obtain s1 s2 where st: "policy_same s s1" "s2 = s1 \<or> s2 = runqueue_add_head t s1" "policy_same s2 s'"
    using wake_thread_steps [OF assms(4)] by blast
  have i: "iorr_inv thr s1" using assms(1) iorr_rel_upd [OF _ st(1)] by (auto simp: iorr_inv_def)
  have rq: "iorr_runqueue s1 = iorr_runqueue s" by (rule policy_same_runqueue [OF st(1)])
  have "timers_kept N s1 s2" "iorr_runqueue s2 = iorr_runqueue s1"
    using st(2) runqueue_add_head_kept [OF i assms(2) N(1)] N(2) rq
    by (auto simp: timers_kept_def)
  thus "timers_kept N s s'" "iorr_runqueue s' = iorr_runqueue s"
    using policy_same_timers_kept [OF st(1)] policy_same_timers_kept [OF st(3)] timers_kept_trans
      policy_same_runqueue [OF st(3)] rq by (blast, simp)
qed

subsection \<open>Callbacks keep the system invariant\<close>

abbreviation guest_inv :: "(addr \<Rightarrow> nat option) \<Rightarrow> 'a guest_state_scheme \<Rightarrow> bool" where
  "guest_inv home \<equiv> event_inv (iorr_inv (homed home)) (iorr_runq (homed home)) (homed home)"

lemma iorr_rel_slices_cong:
  fixes s s' :: "'a iorr_state_scheme"
  assumes "iorr_rel thr s Q" "\<And>c a. a \<in> insert (iorr_runqueue s c) (thr c) \<Longrightarrow> lnext s' a = lnext s a \<and> lprev s' a = lprev s a"
    "threads s' = threads s" "iorr_runqueue s' = iorr_runqueue s"
    "\<And>t. slice_cycles (iorr_data s' t) = slice_cycles (iorr_data s t)"
  shows "iorr_rel thr s' Q"
proof -
  have "dll s' (iorr_runqueue s c) (Q c)" for c
    by (rule dll_frame [OF iorr_relD(1) [OF assms(1)]]) (use assms(2) iorr_relD(2) [OF assms(1), of c] in auto)
  moreover have "unlinked s' t" if "t \<in> thr c" "t \<notin> set (Q c)" for t c
    by (rule dll_frame [of s]) (use assms(1,2) that in \<open>auto simp: iorr_rel_def\<close>)
  ultimately show ?thesis using assms(1,3-5) by (auto simp: iorr_rel_def)
qed

lemma sched_inv_cong:
  fixes s s' :: "'a iorr_state_scheme"
  assumes s: "sched_inv (iorr_inv thr) (iorr_runq thr) thr s"
    and links: "\<And>c a. a \<in> insert (iorr_runqueue s c) (thr c) \<Longrightarrow> lnext s' a = lnext s a \<and> lprev s' a = lprev s a"
    and same: "threads s' = threads s" "iorr_runqueue s' = iorr_runqueue s" "idle s' = idle s"
      "\<And>t. slice_cycles (iorr_data s' t) = slice_cycles (iorr_data s t)"
      "\<And>c. curr_obj (sched_ctl s' c) = curr_obj (sched_ctl s c)" "\<And>c. lock_free (scheduler_lock (sched_ctl s' c))"
  shows "sched_inv (iorr_inv thr) (iorr_runq thr) thr s'"
proof -
  obtain Q where "iorr_rel thr s Q" using s by (auto simp: sched_inv_def iorr_inv_def)
  hence "iorr_rel thr s' Q" by (rule iorr_rel_slices_cong) (use links same in auto)
  hence "iorr_inv thr s'" by (auto simp: iorr_inv_def)
  moreover have rq: "iorr_runq thr c s' = iorr_runq thr c s" for c
    using links [of _ c] by (auto simp: iorr_runq_def is_inqueue_def list_empty_def)
  have "sched_core (iorr_runq thr) thr s' = sched_core (iorr_runq thr) thr s"
    by (rule sched_core_cong [OF same(1,3)]) (simp_all add: same rq)
  hence "sched_core (iorr_runq thr) thr s'" using s by (simp add: sched_inv_def)
  ultimately show ?thesis using same(6) by (simp add: sched_inv_def)
qed

lemma guest_frameD:
  assumes "guest_frame s s'"
  shows "lnext s' = lnext s" "lprev s' = lprev s" "threads s' = threads s" "iorr_runqueue s' = iorr_runqueue s"
    "iorr_data s' = iorr_data s" "idle s' = idle s" "sched_ctl s' = sched_ctl s" "sched_events s' = sched_events s"
    "timers s' = timers s" "timer_list s' = timer_list s" "mtime_at s' = mtime_at s" "mtime_reads s' = mtime_reads s"
    "cpu_khz s' = cpu_khz s" "pcpu_id s' = pcpu_id s" "sstatus s' = sstatus s"
  using assms by (simp_all add: guest_frame_def iorr_state.truncate_def)

lemma guest_frame_kept: "guest_frame s s' \<Longrightarrow> timers_kept N s s'"
  by (simp add: timers_kept_def guest_frameD)

lemma guest_frame_inv:
  assumes "guest_frame s s'" "guest_inv home s" shows "guest_inv home s'"
proof -
  have "sched_inv (iorr_inv (homed home)) (iorr_runq (homed home)) (homed home) s'"
    by (rule sched_inv_cong [of _ s]) (use assms(2) in \<open>simp_all add: guest_frameD [OF assms(1)] event_inv_def sched_inv_def\<close>)
  thus ?thesis using assms(2) by (simp add: event_inv_def events_ok_def guest_frameD [OF assms(1)])
qed

lemma signal_event_kept:
  assumes s: "guest_inv home s" and r: "signal_event sched_iorr ev s = Some s'"
    and N: "\<And>d. N \<inter> homed home d = {}" "\<And>d. iorr_runqueue s d \<notin> N"
  shows "timers_kept N s s'" "iorr_runqueue s' = iorr_runqueue s"
proof -
  define lk where "lk = (ev_lock (sched_events s ev))\<lparr>lock_head := lock_head (ev_lock (sched_events s ev)) + 1\<rparr>"
  define u where "u = upd_event ev (\<lambda>e. e\<lparr>ev_lock := lk, ev_set := True\<rparr>) (local_irq_disable s)"
  have free: "lock_free (ev_lock (sched_events s e))" for e using s by (simp add: event_inv_def events_ok_def)
  let ?w = "waiting_thread (sched_events s ev)"
  obtain v where v: "(if ?w \<noteq> 0 then wake_thread sched_iorr ?w u else Some u) = Some v" and s': "s' = event_release ev (sstatus s) v"
    using r by (auto simp: signal_event_def event_obtain_def local_irq_save_def spinlock_obtain_free [OF free]
        u_def lk_def bind_eq_Some_conv upd_event_def local_irq_disable_def Let_def cong: if_cong)
  have links: "lnext u = lnext s" "lprev u = lprev s" "iorr_runqueue u = iorr_runqueue s"
    by (simp_all add: u_def upd_event_def local_irq_disable_def)
  have ku: "timers_kept N s u" by (simp add: timers_kept_def u_def upd_event_def local_irq_disable_def)
  have kv: "timers_kept N v s'" "iorr_runqueue s' = iorr_runqueue v"
    by (simp_all add: s' timers_kept_def event_release_def local_irq_restore_def upd_event_def)
  have "timers_kept N u v \<and> iorr_runqueue v = iorr_runqueue u"
  proof (cases "?w = 0")
    case True
    thus ?thesis using v by (simp add: timers_kept_def)
  next
    case False
    obtain c where c: "?w \<in> homed home c" using s False by (auto simp: event_inv_def events_ok_def)
    obtain Q where Q: "iorr_rel (homed home) s Q" using s by (auto simp: event_inv_def sched_inv_def iorr_inv_def)
    have "iorr_rel (homed home) u Q"
      by (rule iorr_rel_slices_cong [OF Q]) (simp_all add: links, simp_all add: u_def upd_event_def local_irq_disable_def)
    hence "iorr_inv (homed home) u" by (auto simp: iorr_inv_def)
    moreover have "wake_thread sched_iorr ?w u = Some v" using v False by simp
    ultimately show ?thesis using wake_thread_kept [OF _ c homed_apart _ N(1)] N(2) links(3) by metis
  qed
  thus "timers_kept N s s'" "iorr_runqueue s' = iorr_runqueue s"
    using ku kv links(3) timers_kept_trans by (blast, simp)
qed

lemma tick_request_fields:
  fixes s :: "'a event_state_scheme"
  shows "lnext (make_reschedule_request c s) = lnext s" "lprev (make_reschedule_request c s) = lprev s"
    "iorr_runqueue (make_reschedule_request c s) = iorr_runqueue s" "iorr_data (make_reschedule_request c s) = iorr_data s"
    "timers (make_reschedule_request c s) = timers s" "timer_list (make_reschedule_request c s) = timer_list s"
    "mtime_at (make_reschedule_request c s) = mtime_at s" "mtime_reads (make_reschedule_request c s) = mtime_reads s"
    "cpu_khz (make_reschedule_request c s) = cpu_khz s"
  by (simp_all add: make_reschedule_request_def upd_ctl_def kick_pcpu_def do_swi_def Let_def)

text \<open>The effect of the scheduler tick: budgets, and perhaps a reschedule request.\<close>

lemma sched_tick_handler_ok:
  fixes s :: "'a event_state_scheme"
  assumes s: "sched_inv (iorr_inv thr) (iorr_runq thr) thr s"
  shows "\<exists>s'. sched_tick_handler ctl s = Some s' \<and> sched_inv (iorr_inv thr) (iorr_runq thr) thr s'
    \<and> timers_kept N s s' \<and> iorr_runqueue s' = iorr_runqueue s \<and> sched_events s' = sched_events s"
proof -
  define c s0 now where "c = pcpu_id s" and "s0 = snd (cpu_ticks s)" and "now = fst (cpu_ticks s)"
  define t where "t = with_lock c s0"
  define cur where "cur = curr_obj (sched_ctl t ctl)"
  define u where "u = (if \<not> is_idle_thread t cur
    then upd_iorr_data cur (\<lambda>d. d\<lparr>left_cycles := left_cycles d - (now - last_cycles d), last_cycles := now\<rparr>) t else t)"
  define v where "v = (if cur \<noteq> 0 \<and> \<not> (is_idle_thread t cur \<and> list_empty t (iorr_runqueue t ctl))
    then if is_idle_thread u cur \<or> sint (left_cycles (iorr_data u cur)) \<le> 0 then make_reschedule_request c u else u
    else t)"
  let ?r = "release_schedule_lock c (sstatus s) v"
  have free: "lock_free (scheduler_lock (sched_ctl s d))" for d using s by (simp add: sched_inv_def)
  have s0: "cpu_ticks s = (now, s0)" "s0 = s\<lparr>mtime_reads := mtime_reads s + 1\<rparr>" "pcpu_id s0 = c"
    by (simp_all add: s0_def now_def c_def cpu_ticks_def get_tick_def)
  note samet = t_def with_lock_def upd_ctl_def local_irq_disable_def s0(2)
  have u: "lnext u = lnext t" "lprev u = lprev t" "threads u = threads t" "iorr_runqueue u = iorr_runqueue t"
    "idle u = idle t" "slice_cycles (iorr_data u x) = slice_cycles (iorr_data t x)" "sched_ctl u = sched_ctl t"
    "timers u = timers t" "timer_list u = timer_list t" "mtime_at u = mtime_at t" "cpu_khz u = cpu_khz t"
    "pcpu_id u = pcpu_id t" "mtime_reads u = mtime_reads t" "sched_events u = sched_events t" for x
    by (simp_all add: u_def upd_iorr_data_def)
  have v: "lnext v = lnext t" "lprev v = lprev t" "threads v = threads t" "iorr_runqueue v = iorr_runqueue t"
    "idle v = idle t" "slice_cycles (iorr_data v x) = slice_cycles (iorr_data t x)"
    "curr_obj (sched_ctl v d) = curr_obj (sched_ctl t d)" "timers v = timers t" "timer_list v = timer_list t"
    "mtime_at v = mtime_at t" "cpu_khz v = cpu_khz t" "pcpu_id v = pcpu_id t" "mtime_reads v = mtime_reads t"
    "sched_events v = sched_events t" "scheduler_lock (sched_ctl v d) = scheduler_lock (sched_ctl t d)" for x d
    by (simp_all add: v_def u tick_request_fields)
  have same: "lnext v = lnext s" "lprev v = lprev s" "threads v = threads s" "iorr_runqueue v = iorr_runqueue s"
    "idle v = idle s" "slice_cycles (iorr_data v x) = slice_cycles (iorr_data s x)"
    "curr_obj (sched_ctl v d) = curr_obj (sched_ctl s d)" "timers v = timers s" "timer_list v = timer_list s"
    "mtime_at v = mtime_at s" "cpu_khz v = cpu_khz s" "pcpu_id v = pcpu_id s" "mtime_reads v = mtime_reads s + 1"
    "sched_events v = sched_events s" "scheduler_lock (sched_ctl v d) = scheduler_lock (sched_ctl t d)" for x d
    by (simp_all add: v) (simp_all add: samet)
  have lk: "locked c t" using free by (auto simp: t_def s0(2) intro!: locked_with_lock)
  have ob: "obtain_schedule_lock c s0 = Some (sstatus s, t)"
    using free obtain_schedule_lock_free [of s0 c] by (simp add: t_def s0(2))
  have "sched_tick_handler ctl s = Some ?r"
    by (cases "is_idle_thread t cur") (simp_all add: sched_tick_handler_def get_pcpu_id_def s0(1) c_def [symmetric] ob
        cur_def [symmetric] u_def v_def Let_def del: upd_iorr_data_fields)
  moreover have "lock_free (scheduler_lock (sched_ctl ?r d))" for d
    using locked_release [of c v] lk locked_cong [of v t c] same(15) by simp
  hence "sched_inv (iorr_inv thr) (iorr_runq thr) thr ?r"
    by (intro sched_inv_cong [OF s]) (simp_all add: same release_schedule_lock_def local_irq_restore_def upd_ctl_def)
  moreover have "timers_kept N s ?r" "iorr_runqueue ?r = iorr_runqueue s" "sched_events ?r = sched_events s"
    by (simp_all add: timers_kept_def same release_schedule_lock_def local_irq_restore_def upd_ctl_def)
  ultimately show ?thesis by blast
qed

text \<open>An expired virtual timer marks the interrupt and wakes the vCPU's waiter.\<close>

lemma vclint_set_intr_ok:
  assumes s: "guest_inv home s" and N: "\<And>d. N \<inter> homed home d = {}" "\<And>d. iorr_runqueue s d \<notin> N"
  shows "\<exists>s'. vclint_set_intr v s = Some s' \<and> guest_inv home s' \<and> timers_kept N s s'
    \<and> iorr_runqueue s' = iorr_runqueue s \<and> bit (pending_req (vcpus s' v)) ACRN_REQUEST_EVENT"
proof -
  let ?e = "vcpu_event s v VCPU_EVENT_VIRTUAL_INTERRUPT"
  obtain u where u: "signal_event sched_iorr ?e s = Some u" "guest_inv home u"
    using guest_sched.signal_event_ok [OF s, of ?e] by blast
  let ?r = "vcpu_make_request v ACRN_REQUEST_EVENT u"
  have f: "guest_frame u ?r" by simp
  have "timers_kept N s ?r" "iorr_runqueue ?r = iorr_runqueue s"
    using signal_event_kept [OF s u(1) N] timers_kept_trans guest_frame_kept [OF f] guest_frameD(4) [OF f] by (blast, simp)
  moreover have "bit (pending_req (vcpus ?r v)) ACRN_REQUEST_EVENT"
    by (simp add: ACRN_REQUEST_EVENT_def bitmap_set_lock_def bit_or_iff bit_exp_iff bit_simps)
  ultimately show ?thesis using u guest_frame_inv [OF f u(2)] by (auto simp: vclint_set_intr_def)
qed

lemma vclint_timer_expired_ok:
  assumes s: "guest_inv home s" and N: "\<And>d. N \<inter> homed home d = {}" "\<And>d. iorr_runqueue s d \<notin> N"
  shows "\<exists>s'. vclint_timer_expired v s = Some s' \<and> guest_inv home s' \<and> timers_kept N s s' \<and> iorr_runqueue s' = iorr_runqueue s"
proof -
  let ?u = "upd_vm (vcpu_vclint s v) (\<lambda>m. m\<lparr>mtip := set_bit_u64 (vcpu_id (vcpus s v)) (mtip m)\<rparr>) s"
  have f: "guest_frame s ?u" by simp
  note u = guest_frame_inv [OF f s] guest_frame_kept [OF f] guest_frameD(4) [OF f]
  have "iorr_runqueue ?u d \<notin> N" for d using N(2) u(3) by simp
  then obtain s' where "vclint_set_intr v ?u = Some s'" "guest_inv home s'" "timers_kept N ?u s'"
    "iorr_runqueue s' = iorr_runqueue ?u"
    using vclint_set_intr_ok [OF u(1) N(1), of v] by blast
  thus ?thesis using u(3) timers_kept_trans [OF u(2)] by (auto simp: vclint_timer_expired_def)
qed

definition guest_timer_inv :: "(addr \<Rightarrow> nat option) \<Rightarrow> addr set \<Rightarrow> 'a guest_state_scheme \<Rightarrow> bool" where
  "guest_timer_inv home N s \<longleftrightarrow> guest_inv home s \<and> (\<forall>d. N \<inter> homed home d = {} \<and> iorr_runqueue s d \<notin> N)"

lemma timer_frame_guest:
  assumes "guest_timer_inv home N s" "timer_frame N s s'"
  shows "guest_timer_inv home N s'"
proof -
  have m: "sched_state.more s' = sched_state.more s" "threads s' = threads s" "sched_ctl s' = sched_ctl s" "idle s' = idle s"
    using assms(2) by (cases s; cases s'; simp add: timer_frame_def)+
  have i: "iorr_runqueue s' = iorr_runqueue s" "iorr_data s' = iorr_data s" "sched_events s' = sched_events s"
    using m(1) by (cases s; cases s'; simp)+
  have links: "lnext s' a = lnext s a" "lprev s' a = lprev s a" if "a \<notin> N" for a
    using that assms(2) by (auto simp: timer_frame_def)
  have "a \<notin> N" if "a \<in> insert (iorr_runqueue s c) (homed home c)" for a c
    using that assms(1) by (auto simp: guest_timer_inv_def)
  hence "sched_inv (iorr_inv (homed home)) (iorr_runq (homed home)) (homed home) s'"
    by (intro sched_inv_cong [of _ s s'])
      (use assms(1) links in \<open>simp_all add: m i guest_timer_inv_def event_inv_def sched_inv_def\<close>)
  thus ?thesis using assms(1) by (simp add: guest_timer_inv_def event_inv_def events_ok_def i)
qed

lemma guest_callback_ok:
  assumes "guest_timer_inv home N s"
  shows "\<exists>s'. guest_callback f data s = Some s' \<and> guest_timer_inv home N s' \<and> timers_kept N s s'"
proof -
  have s: "guest_inv home s" and N: "\<And>d. N \<inter> homed home d = {}" "\<And>d. iorr_runqueue s d \<notin> N"
    using assms by (simp_all add: guest_timer_inv_def)
  show ?thesis
  proof (cases "f = SCHED_TICK_HANDLER")
    case True
    thus ?thesis using sched_tick_handler_ok [of "homed home" s data N] s N
      by (auto simp: guest_callback_def guest_timer_inv_def event_inv_def events_ok_def)
  next
    case False
    thus ?thesis using vclint_timer_expired_ok [OF s N, of data] N
      by (auto simp: guest_callback_def guest_timer_inv_def)
  qed
qed

interpretation guest_timers: timer_client "guest_callback :: nat \<Rightarrow> nat \<Rightarrow> 'a guest_state_scheme \<Rightarrow> _" N
  "guest_timer_inv home N" for home N
  by unfold_locales (use guest_callback_ok timer_frame_guest in blast)+

end
