(* ===== verification/Virq.thy ===== *)
theory Virq
  imports Vclint
begin

text \<open>
  Exceptions and interrupts injected into a vCPU, and the service of its pending
  requests before it enters the guest: \<open>arch/riscv/guest/virq.c\<close>.
\<close>

subsection \<open>Exceptions\<close>

definition HX_INT_TYPE_HW_EXP :: u16 where "HX_INT_TYPE_HW_EXP = 3"
definition EXCEPTION_ERROR_CODE_VALID :: u16 where "EXCEPTION_ERROR_CODE_VALID = 8"

definition IDT_DE :: u32 where "IDT_DE = 0"
definition IDT_DB :: u32 where "IDT_DB = 1"
definition IDT_NMI :: u32 where "IDT_NMI = 2"
definition IDT_BP :: u32 where "IDT_BP = 3"
definition IDT_OF :: u32 where "IDT_OF = 4"
definition IDT_UD :: u32 where "IDT_UD = 6"
definition IDT_DF :: u32 where "IDT_DF = 8"
definition IDT_TS :: u32 where "IDT_TS = 10"
definition IDT_NP :: u32 where "IDT_NP = 11"
definition IDT_SS :: u32 where "IDT_SS = 12"
definition IDT_GP :: u32 where "IDT_GP = 13"
definition IDT_PF :: u32 where "IDT_PF = 14"
definition IDT_MC :: u32 where "IDT_MC = 18"
definition IDT_VE :: u32 where "IDT_VE = 20"

definition exception_type :: "u16 list" where
  "exception_type =
    [HX_INT_TYPE_HW_EXP, HX_INT_TYPE_HW_EXP, HX_INT_TYPE_HW_EXP, HX_INT_TYPE_HW_EXP,
     HX_INT_TYPE_HW_EXP, HX_INT_TYPE_HW_EXP, HX_INT_TYPE_HW_EXP, HX_INT_TYPE_HW_EXP,
     HX_INT_TYPE_HW_EXP OR EXCEPTION_ERROR_CODE_VALID, HX_INT_TYPE_HW_EXP,
     HX_INT_TYPE_HW_EXP OR EXCEPTION_ERROR_CODE_VALID, HX_INT_TYPE_HW_EXP OR EXCEPTION_ERROR_CODE_VALID,
     HX_INT_TYPE_HW_EXP OR EXCEPTION_ERROR_CODE_VALID, HX_INT_TYPE_HW_EXP OR EXCEPTION_ERROR_CODE_VALID,
     HX_INT_TYPE_HW_EXP OR EXCEPTION_ERROR_CODE_VALID, HX_INT_TYPE_HW_EXP,
     HX_INT_TYPE_HW_EXP, HX_INT_TYPE_HW_EXP OR EXCEPTION_ERROR_CODE_VALID, HX_INT_TYPE_HW_EXP, HX_INT_TYPE_HW_EXP,
     HX_INT_TYPE_HW_EXP, HX_INT_TYPE_HW_EXP, HX_INT_TYPE_HW_EXP, HX_INT_TYPE_HW_EXP,
     HX_INT_TYPE_HW_EXP, HX_INT_TYPE_HW_EXP, HX_INT_TYPE_HW_EXP, HX_INT_TYPE_HW_EXP,
     HX_INT_TYPE_HW_EXP, HX_INT_TYPE_HW_EXP, HX_INT_TYPE_HW_EXP, HX_INT_TYPE_HW_EXP]"

datatype exc_kind = EXCEPTION_FAULT | EXCEPTION_TRAP | EXCEPTION_ABORT | EXCEPTION_INTERRUPT

definition get_exception_type :: "u32 \<Rightarrow> exc_kind" where
  "get_exception_type vector =
    (if vector > 31 \<or> vector = IDT_NMI then EXCEPTION_INTERRUPT
     else if vector = IDT_DB \<or> vector = IDT_BP \<or> vector = IDT_OF then EXCEPTION_TRAP
     else if vector = IDT_DF \<or> vector = IDT_MC then EXCEPTION_ABORT
     else EXCEPTION_FAULT)"

datatype exc_class = EXCEPTION_CLASS_BENIGN | EXCEPTION_CLASS_CONT | EXCEPTION_CLASS_PF

definition get_excep_class :: "u32 \<Rightarrow> exc_class" where
  "get_excep_class vector =
    (if vector = IDT_DE \<or> vector = IDT_TS \<or> vector = IDT_NP \<or> vector = IDT_SS \<or> vector = IDT_GP
     then EXCEPTION_CLASS_CONT
     else if vector = IDT_PF \<or> vector = IDT_VE then EXCEPTION_CLASS_PF
     else EXCEPTION_CLASS_BENIGN)"

definition HV_ARCH_VCPU_STATUS_SIE :: u64 where "HV_ARCH_VCPU_STATUS_SIE = 2"
definition HV_ARCH_VCPU_RFLAGS_RF :: u64 where "HV_ARCH_VCPU_RFLAGS_RF = 0x10000"
definition NR_MAX_VECTOR :: u32 where "NR_MAX_VECTOR = 0xFF"

definition is_guest_irq_enabled :: "addr \<Rightarrow> 'a guest_state_scheme \<Rightarrow> bool \<times> 'a guest_state_scheme" where
  "is_guest_irq_enabled v s =
    (let (st, s) = vcpu_get_status v s in (st AND HV_ARCH_VCPU_STATUS_SIE \<noteq> 0, s))"

text \<open>\<open>is_notification_nmi\<close> is false, so a queued NMI is requested like any other exception.\<close>

definition vcpu_queue_exception ::
  "addr \<Rightarrow> u32 \<Rightarrow> u32 \<Rightarrow> 'a guest_state_scheme \<Rightarrow> int \<times> 'a guest_state_scheme" where
  "vcpu_queue_exception v vector_arg err_code_arg s =
    (if vector_arg \<ge> 32 then (- EINVAL, s)
     else
       let prev_vector = exc_vector (vcpus s v);
           prev_class = get_excep_class prev_vector;
           new_class = get_excep_class vector_arg
       in if prev_vector = IDT_DF \<and> new_class \<noteq> EXCEPTION_CLASS_BENIGN
          then (0, vcpu_make_request v ACRN_REQUEST_TRP_FAULT s)
          else
            let (vector, err_code) =
                  (if (prev_class = EXCEPTION_CLASS_CONT \<and> new_class = EXCEPTION_CLASS_CONT) \<or>
                      (prev_class = EXCEPTION_CLASS_PF \<and> new_class \<noteq> EXCEPTION_CLASS_BENIGN)
                   then (IDT_DF, 0) else (vector_arg, err_code_arg));
                s = upd_vcpu v (\<lambda>c. c\<lparr>exc_vector := vector,
                      exc_error := (if exception_type ! unat vector AND EXCEPTION_ERROR_CODE_VALID \<noteq> 0
                                    then err_code else 0)\<rparr>) s
            in (0, vcpu_make_request v ACRN_REQUEST_EXCP s))"

text \<open>
  \<open>exception_type[vector]\<close> is read but not used; its index is in range when the
  exception was queued.
\<close>

definition vcpu_inject_exception :: "addr \<Rightarrow> 'a guest_state_scheme \<Rightarrow> bool \<times> 'a guest_state_scheme" where
  "vcpu_inject_exception v s =
    (let (was, p) = bitmap_test_and_clear_lock ACRN_REQUEST_EXCP (pending_req (vcpus s v));
         s = upd_vcpu v (\<lambda>c. c\<lparr>pending_req := p\<rparr>) s
     in if was
        then let vector = exc_vector (vcpus s v);
                 s = upd_vcpu v (\<lambda>c. c\<lparr>exc_vector := VECTOR_INVALID\<rparr>) s;
                 s = vcpu_retain_ip v s;
                 s = (if get_exception_type vector = EXCEPTION_FAULT
                      then let (st, s) = vcpu_get_status v s in vcpu_set_status v (st OR HV_ARCH_VCPU_RFLAGS_RF) s
                      else s)
             in (True, s)
        else (False, s))"

definition vcpu_inject_extint :: "addr \<Rightarrow> 'a guest_state_scheme \<Rightarrow> 'a guest_state_scheme option" where
  "vcpu_inject_extint v s =
    (let s = vcpu_make_request v ACRN_REQUEST_EXTINT s
     in signal_event sched_iorr (vcpu_event s v VCPU_EVENT_VIRTUAL_INTERRUPT) s)"

definition vcpu_inject_nmi :: "addr \<Rightarrow> 'a guest_state_scheme \<Rightarrow> 'a guest_state_scheme option" where
  "vcpu_inject_nmi v s =
    (let s = vcpu_make_request v ACRN_REQUEST_NMI s
     in signal_event sched_iorr (vcpu_event s v VCPU_EVENT_VIRTUAL_INTERRUPT) s)"

definition vcpu_inject_gp :: "addr \<Rightarrow> u32 \<Rightarrow> 'a guest_state_scheme \<Rightarrow> 'a guest_state_scheme" where
  "vcpu_inject_gp v err_code s = snd (vcpu_queue_exception v IDT_GP err_code s)"

definition vcpu_inject_pf :: "addr \<Rightarrow> u64 \<Rightarrow> u32 \<Rightarrow> 'a guest_state_scheme \<Rightarrow> 'a guest_state_scheme" where
  "vcpu_inject_pf v a err_code s = snd (vcpu_queue_exception v IDT_PF err_code s)"

definition vcpu_inject_ud :: "addr \<Rightarrow> 'a guest_state_scheme \<Rightarrow> 'a guest_state_scheme" where
  "vcpu_inject_ud v s = snd (vcpu_queue_exception v IDT_UD 0 s)"

definition vcpu_inject_ss :: "addr \<Rightarrow> 'a guest_state_scheme \<Rightarrow> 'a guest_state_scheme" where
  "vcpu_inject_ss v s = snd (vcpu_queue_exception v IDT_SS 0 s)"

subsection \<open>Exit handlers\<close>

definition interrupt_window_vmexit_handler :: "addr \<Rightarrow> 'a guest_state_scheme \<Rightarrow> int \<times> 'a guest_state_scheme" where
  "interrupt_window_vmexit_handler v s = (0, vcpu_retain_ip v s)"

definition HX_INT_INFO_VALID :: u32 where "HX_INT_INFO_VALID = 0x80000000"
definition HX_INT_TYPE_MASK :: u32 where "HX_INT_TYPE_MASK = 0x700"
definition HX_INT_TYPE_EXT_INT :: u32 where "HX_INT_TYPE_EXT_INT = 0"

text \<open>\<open>dispatch\<close> is \<open>dispatch_interrupt\<close> of theory Irq, on the physical part of the state.\<close>

definition external_interrupt_vmexit_handler ::
  "('a guest_state_scheme \<Rightarrow> 'a guest_state_scheme option) \<Rightarrow> addr \<Rightarrow>
    'a guest_state_scheme \<Rightarrow> (int \<times> 'a guest_state_scheme) option" where
  "external_interrupt_vmexit_handler dispatch v s =
    (let intr_info = ucast (cpu_csr_read SCAUSE s) :: u32
     in if intr_info AND HX_INT_INFO_VALID = 0 \<or>
           drop_bit 8 (intr_info AND HX_INT_TYPE_MASK) \<noteq> HX_INT_TYPE_EXT_INT
        then Some (- EINVAL, vcpu_retain_ip v s)
        else do { s \<leftarrow> dispatch s; Some (0, vcpu_retain_ip v s) })"

definition exception_vmexit_handler :: "addr \<Rightarrow> 'a guest_state_scheme \<Rightarrow> int \<times> 'a guest_state_scheme" where
  "exception_vmexit_handler v s = vcpu_queue_exception v VECTOR_INVALID 0 (vcpu_retain_ip v s)"

subsection \<open>Pending requests\<close>

definition vcpu_do_pending_extint :: "addr \<Rightarrow> 'a guest_state_scheme \<Rightarrow> bool \<times> 'a guest_state_scheme" where
  "vcpu_do_pending_extint v s =
    (if v = vcpu_from_vid s (vcpu_vm (vcpus s v)) BSP_CPU_ID
     then (True, cpu_csr_write HVIP (ucast NR_MAX_VECTOR) s)
     else (False, s))"

definition take_request :: "nat \<Rightarrow> addr \<Rightarrow> 'a guest_state_scheme \<Rightarrow> bool \<times> 'a guest_state_scheme" where
  "take_request nr v s =
    (let (was, p) = bitmap_test_and_clear_lock nr (pending_req (vcpus s v))
     in (was, upd_vcpu v (\<lambda>c. c\<lparr>pending_req := p\<rparr>) s))"

definition acrn_inject_pending_intr :: "addr \<Rightarrow> bool \<Rightarrow> 'a guest_state_scheme \<Rightarrow> 'a guest_state_scheme" where
  "acrn_inject_pending_intr v injected s =
    (let (guest_irq_enabled, s) = is_guest_irq_enabled v s;
         (ret, s) = (if guest_irq_enabled \<and> \<not> injected
                     then let (was, s) = take_request ACRN_REQUEST_EXTINT v s
                          in if was then vcpu_do_pending_extint v s else (injected, s)
                     else (injected, s));
         (was, s) = take_request ACRN_REQUEST_EVENT v s
     in if was then vcpu_inject_intr v guest_irq_enabled ret s else s)"

definition acrn_handle_pending_request ::
  "('a guest_state_scheme \<Rightarrow> 'a guest_state_scheme option) \<Rightarrow> addr \<Rightarrow>
    'a guest_state_scheme \<Rightarrow> (int \<times> 'a guest_state_scheme) option" where
  "acrn_handle_pending_request away v s =
    (let (was, s) = take_request ACRN_REQUEST_INIT_VMCS v s;
         s = (if was then init_vmcs v s else s);
         (was, s) = take_request ACRN_REQUEST_TRP_FAULT v s
     in if was then Some (- EFAULT, s)
        else do {
          let (was, s) = take_request ACRN_REQUEST_WAIT_WBINVD v s;
          s \<leftarrow> (if was then wait_event sched_iorr guest_switch away (vcpu_event s v VCPU_EVENT_SYNC_WBINVD) s else Some s);
          let (was, s) = take_request ACRN_REQUEST_EPT_FLUSH v s;
          let (was, s) = take_request ACRN_REQUEST_VPID_FLUSH v s;
          let (was, s) = take_request ACRN_REQUEST_EOI_EXIT_BITMAP_UPDATE v s;
          let (injected, s) = vcpu_inject_exception v s;
          Some (0, acrn_inject_pending_intr v injected s)
        })"

subsection \<open>Requests and exceptions\<close>

lemma take_request_eq:
  "nr < 31 \<Longrightarrow> take_request nr v s = (bit (pending_req (vcpus s v)) nr,
    upd_vcpu v (\<lambda>c. c\<lparr>pending_req := bitmap_clear_lock nr (pending_req (vcpus s v))\<rparr>) s)"
  by (simp add: take_request_def test_and_clear_eq)

text \<open>
  An exception that was queued has a vector of the exception table: the index
  that \<open>vcpu_inject_exception\<close> reads is in range.
\<close>

definition exc_ok :: "acrn_vcpu \<Rightarrow> bool" where
  "exc_ok c \<longleftrightarrow> (bit (pending_req c) ACRN_REQUEST_EXCP \<longrightarrow> unat (exc_vector c) < length exception_type)"

lemma queue_exception_ok:
  assumes "exc_ok (vcpus s v)" shows "exc_ok (vcpus (snd (vcpu_queue_exception v vec err s)) v)"
proof -
  have "length exception_type = 32" by (simp add: exception_type_def)
  thus ?thesis using assms
    by (auto simp: exc_ok_def vcpu_queue_exception_def Let_def request_ids bit_bitmap_set_lock IDT_DF_def word_less_nat_alt linorder_not_le split: if_splits)
qed

lemma take_request_ok: "nr < 31 \<Longrightarrow> exc_ok (vcpus s v) \<Longrightarrow> exc_ok (vcpus (snd (take_request nr v s)) v)"
  by (simp add: take_request_eq exc_ok_def bit_bitmap_clear_lock)

lemma inject_exception_ok: "exc_ok (vcpus (snd (vcpu_inject_exception v s)) v)"
  by (simp add: vcpu_inject_exception_def test_and_clear_eq exc_ok_def request_ids bit_bitmap_clear_lock vcpu_retain_ip_def
      vcpu_set_status_def set_ctx_word_def Let_def split_beta)

text \<open>Faults on faults: two that combine make a double fault, a third stops the vCPU.\<close>

definition combines :: "u32 \<Rightarrow> u32 \<Rightarrow> bool" where
  "combines a b \<longleftrightarrow> get_excep_class a = EXCEPTION_CLASS_CONT \<and> get_excep_class b = EXCEPTION_CLASS_CONT \<or>
    get_excep_class a = EXCEPTION_CLASS_PF \<and> get_excep_class b \<noteq> EXCEPTION_CLASS_BENIGN"

lemma queue_exception_vector:
  assumes "vec < 32" "\<not> (exc_vector (vcpus s v) = IDT_DF \<and> get_excep_class vec \<noteq> EXCEPTION_CLASS_BENIGN)"
  shows "exc_vector (vcpus (snd (vcpu_queue_exception v vec err s)) v) = (if combines (exc_vector (vcpus s v)) vec then IDT_DF else vec)"
  using assms by (auto simp: vcpu_queue_exception_def combines_def Let_def)

lemma queue_exception_triple:
  assumes "vec < 32" "exc_vector (vcpus s v) = IDT_DF" "get_excep_class vec \<noteq> EXCEPTION_CLASS_BENIGN"
  shows "vcpu_queue_exception v vec err s = (0, vcpu_make_request v ACRN_REQUEST_TRP_FAULT s)"
  using assms by (auto simp: vcpu_queue_exception_def)

lemma triple_fault_requested:
  fixes x y z :: u32
  assumes "get_excep_class (exc_vector (vcpus s v)) = EXCEPTION_CLASS_BENIGN" "exc_vector (vcpus s v) \<noteq> IDT_DF"
    and "a < 32" "b < 32" "c < 32" "combines a b" "get_excep_class c \<noteq> EXCEPTION_CLASS_BENIGN"
  defines "s' \<equiv> snd (vcpu_queue_exception v c z (snd (vcpu_queue_exception v b y (snd (vcpu_queue_exception v a x s)))))"
  shows "bit (pending_req (vcpus s' v)) ACRN_REQUEST_TRP_FAULT"
proof -
  let ?a = "snd (vcpu_queue_exception v a x s)"
  have "\<not> combines (exc_vector (vcpus s v)) a" using assms(1) by (auto simp: combines_def)
  hence a: "exc_vector (vcpus ?a v) = a" using queue_exception_vector [OF assms(3), of s v x] assms(2) by simp
  have "a \<noteq> IDT_DF" using assms(6) by (auto simp: combines_def get_excep_class_def IDT_DF_def IDT_DE_def IDT_TS_def IDT_NP_def
      IDT_SS_def IDT_GP_def IDT_PF_def IDT_VE_def)
  hence b: "exc_vector (vcpus (snd (vcpu_queue_exception v b y ?a)) v) = IDT_DF"
    using queue_exception_vector [OF assms(4), of ?a v y] a assms(6) by simp
  show ?thesis unfolding s'_def queue_exception_triple [OF assms(5) b assms(7)] by (simp add: request_ids bit_bitmap_set_lock)
qed

lemma queue_exception_frame:
  "vms (snd (vcpu_queue_exception v vec err s)) = vms s"
  "w \<noteq> v \<Longrightarrow> vcpus (snd (vcpu_queue_exception v vec err s)) w = vcpus s w"
  "contexts (vcpus (snd (vcpu_queue_exception v vec err s)) v) = contexts (vcpus s v)"
  "vstate (vcpus (snd (vcpu_queue_exception v vec err s)) v) = vstate (vcpus s v)"
  by (simp_all add: vcpu_queue_exception_def vcpu_make_request_def kick_vcpu_def send_single_swi_def upd_vcpu_def Let_def split_beta)

end
