(* ===== verification/Io_Req.thy ===== *)
theory Io_Req
  imports Vclint
begin

text \<open>
  Emulation of guest I/O: \<open>dm/io_req.c\<close> with the RISC-V hooks of
  \<open>arch/riscv/guest/vio.c\<close>.

  Requests are those embedded in the vCPU, \<open>&vcpu->req\<close>, the only ones the
  callers pass.  Registered MMIO handlers are function identifiers; \<open>handler\<close>
  gives the effect of calling one on the request and its private data.  Loops
  that wait for the device model of the service VM are partial functions with
  the parameter \<open>away\<close> for what runs meanwhile.
\<close>

subsection \<open>State of a request\<close>

definition ACRN_IO_REQUEST_MAX :: nat where "ACRN_IO_REQUEST_MAX = 16"
definition ACRN_ASYNCIO_MAX :: nat where "ACRN_ASYNCIO_MAX = 64"
definition ACRN_IOREQ_STATE_PENDING :: u32 where "ACRN_IOREQ_STATE_PENDING = 0"
definition ACRN_IOREQ_STATE_COMPLETE :: u32 where "ACRN_IOREQ_STATE_COMPLETE = 1"
definition ACRN_IOREQ_STATE_FREE :: u32 where "ACRN_IOREQ_STATE_FREE = 3"
definition ACRN_IOREQ_TYPE_PORTIO :: u32 where "ACRN_IOREQ_TYPE_PORTIO = 0"
definition ACRN_IOREQ_TYPE_MMIO :: u32 where "ACRN_IOREQ_TYPE_MMIO = 1"
definition ACRN_IOREQ_TYPE_PCICFG :: u32 where "ACRN_IOREQ_TYPE_PCICFG = 2"
definition ACRN_IOREQ_TYPE_WP :: u32 where "ACRN_IOREQ_TYPE_WP = 3"
definition ACRN_ASYNCIO_PIO :: u32 where "ACRN_ASYNCIO_PIO = 1"
definition ACRN_ASYNCIO_MMIO :: u32 where "ACRN_ASYNCIO_MMIO = 2"
definition CONFIG_MAX_EMULATED_MMIO_REGIONS :: nat where "CONFIG_MAX_EMULATED_MMIO_REGIONS = 32"

definition get_io_req_state :: "'a guest_state_scheme \<Rightarrow> nat \<Rightarrow> nat \<Rightarrow> u32" where
  "get_io_req_state s m i =
    (case io_shared_page (vms s m) of None \<Rightarrow> 0xffffffff | Some slots \<Rightarrow> processed (slots i))"

definition upd_slot :: "nat \<Rightarrow> nat \<Rightarrow> (acrn_io_request \<Rightarrow> acrn_io_request) \<Rightarrow> 'a guest_state_scheme \<Rightarrow> 'a guest_state_scheme" where
  "upd_slot m i f s = upd_vm m (\<lambda>r. r\<lparr>io_shared_page := map_option (\<lambda>slots. slots(i := f (slots i))) (io_shared_page r)\<rparr>) s"

definition set_io_req_state :: "nat \<Rightarrow> nat \<Rightarrow> u32 \<Rightarrow> 'a guest_state_scheme \<Rightarrow> 'a guest_state_scheme" where
  "set_io_req_state m i st s = upd_slot m i (\<lambda>q. q\<lparr>processed := st\<rparr>) s"

definition reset_vm_ioreqs :: "nat \<Rightarrow> 'a guest_state_scheme \<Rightarrow> 'a guest_state_scheme" where
  "reset_vm_ioreqs m s = fold (\<lambda>i. set_io_req_state m i ACRN_IOREQ_STATE_FREE) [0..<ACRN_IO_REQUEST_MAX] s"

definition has_complete_ioreq :: "'a guest_state_scheme \<Rightarrow> addr \<Rightarrow> bool" where
  "has_complete_ioreq s v =
    (get_io_req_state s (vcpu_vm (vcpus s v)) (vcpu_id (vcpus s v)) = ACRN_IOREQ_STATE_COMPLETE)"

definition set_hsm_notification_vector :: "u32 \<Rightarrow> 'a guest_state_scheme \<Rightarrow> 'a guest_state_scheme" where
  "set_hsm_notification_vector vector s = s\<lparr>acrn_hsm_notification_vector := vector\<rparr>"

definition get_hsm_notification_vector :: "'a guest_state_scheme \<Rightarrow> u32" where
  "get_hsm_notification_vector s = acrn_hsm_notification_vector s"

subsection \<open>Asynchronous I/O\<close>

definition asyncio_obtain :: "nat \<Rightarrow> 'a guest_state_scheme \<Rightarrow> 'a guest_state_scheme option" where
  "asyncio_obtain m s = do {
     lock \<leftarrow> spinlock_obtain (asyncio_lock (vms s m));
     Some (upd_vm m (\<lambda>r. r\<lparr>asyncio_lock := lock\<rparr>) s)
   }"

definition asyncio_release :: "nat \<Rightarrow> 'a guest_state_scheme \<Rightarrow> 'a guest_state_scheme" where
  "asyncio_release m s = upd_vm m (\<lambda>r. r\<lparr>asyncio_lock := spinlock_release (asyncio_lock r)\<rparr>) s"

definition first_index :: "(nat \<Rightarrow> bool) \<Rightarrow> nat \<Rightarrow> nat option" where
  "first_index P n = find P [0..<n]"

definition add_asyncio ::
  "nat \<Rightarrow> u32 \<Rightarrow> u64 \<Rightarrow> u64 \<Rightarrow> 'a guest_state_scheme \<Rightarrow> (int \<times> 'a guest_state_scheme) option" where
  "add_asyncio m type address fd s =
    (if address \<noteq> 0
     then do {
       s \<leftarrow> asyncio_obtain m s;
       let (ret, s) = (case first_index (\<lambda>i. aio_addr (aio_desc (vms s m) i) = 0 \<and> aio_fd (aio_desc (vms s m) i) = 0)
                         ACRN_ASYNCIO_MAX of
           None \<Rightarrow> (-1, s)
         | Some i \<Rightarrow>
             (let s = upd_vm m (\<lambda>r. r\<lparr>aio_desc := (aio_desc r)(i := \<lparr>aio_type = type, aio_addr = address, aio_fd = fd\<rparr>)\<rparr>) s;
                  s = INIT_LIST_HEAD (aio_node s m i) s
              in (0, list_add (aio_node s m i) (aiodesc_queue s m) s)));
       Some (ret, asyncio_release m s)
     }
     else Some (-1, s))"

definition remove_asyncio ::
  "nat \<Rightarrow> u32 \<Rightarrow> u64 \<Rightarrow> u64 \<Rightarrow> 'a guest_state_scheme \<Rightarrow> (int \<times> 'a guest_state_scheme) option" where
  "remove_asyncio m type address fd s =
    (if address \<noteq> 0
     then do {
       s \<leftarrow> asyncio_obtain m s;
       let (ret, s) = (case first_index (\<lambda>i. aio_desc (vms s m) i = \<lparr>aio_type = type, aio_addr = address, aio_fd = fd\<rparr>)
                         ACRN_ASYNCIO_MAX of
           None \<Rightarrow> (-1, s)
         | Some i \<Rightarrow>
             (let s = upd_vm m (\<lambda>r. r\<lparr>aio_desc := (aio_desc r)(i := \<lparr>aio_type = 0, aio_addr = 0, aio_fd = 0\<rparr>)\<rparr>) s
              in (0, list_del_init (aio_node s m i) s)));
       Some (ret, asyncio_release m s)
     }
     else Some (-1, s))"

text \<open>The walk over the descriptor list; \<open>container_of\<close> is the search for the index of a node.\<close>

definition aio_index :: "'a guest_state_scheme \<Rightarrow> nat \<Rightarrow> addr \<Rightarrow> nat option" where
  "aio_index s m pos = first_index (\<lambda>i. aio_node s m i = pos) ACRN_ASYNCIO_MAX"

partial_function (option) asyncio_walk ::
  "'a guest_state_scheme \<Rightarrow> nat \<Rightarrow> u64 \<Rightarrow> u32 \<Rightarrow> addr \<Rightarrow> nat option option" where
  "asyncio_walk s m address type pos =
    (if pos = aiodesc_queue s m then Some None
     else do {
       i \<leftarrow> aio_index s m pos;
       if aio_addr (aio_desc (vms s m) i) = address \<and> aio_type (aio_desc (vms s m) i) = type then Some (Some i)
       else asyncio_walk s m address type (lnext s pos)
     })"

declare asyncio_walk.simps [code]

text \<open>For other request types the address stays 0 and no descriptor is looked up.\<close>

definition get_asyncio_desc :: "addr \<Rightarrow> 'a guest_state_scheme \<Rightarrow> (nat option \<times> 'a guest_state_scheme) option" where
  "get_asyncio_desc v s =
    (let m = vcpu_vm (vcpus s v); io = req (vcpus s v);
         (address, type) = (if io_type io = ACRN_IOREQ_TYPE_PORTIO then (req_address (reqs io), ACRN_ASYNCIO_PIO)
                            else if io_type io = ACRN_IOREQ_TYPE_MMIO then (req_address (reqs io), ACRN_ASYNCIO_MMIO)
                            else (0, 0))
     in if asyncio_sbuf (vms s m) \<noteq> 0 \<and> address \<noteq> 0
        then do {
          s \<leftarrow> asyncio_obtain m s;
          i \<leftarrow> asyncio_walk s m address type (lnext s (aiodesc_queue s m));
          Some (i, asyncio_release m s)
        }
        else Some (None, s))"

definition store_u64 :: "addr \<Rightarrow> u64 \<Rightarrow> mem \<Rightarrow> mem" where
  "store_u64 a x m = (\<lambda>b. if a \<le> b \<and> b < a + 8 then ucast (drop_bit (8 * (b - a)) x) else m b)"

definition arch_fire_hsm_interrupt :: "'a guest_state_scheme \<Rightarrow> 'a guest_state_scheme option" where
  "arch_fire_hsm_interrupt s = vclint_set_intr (vcpu_from_vid s SOS_VM_INDEX BSP_CPU_ID) s"

definition asyncio_put :: "addr \<Rightarrow> u64 \<Rightarrow> 'a guest_state_scheme \<Rightarrow> u32 \<times> 'a guest_state_scheme" where
  "asyncio_put sb fd s =
    (let (r, h, m) = sbuf_put sb (asyncio_fd_var s) (sbufs s sb, store_u64 (asyncio_fd_var s) fd (gmem s))
     in (r, s\<lparr>sbufs := (sbufs s)(sb := h), gmem := m\<rparr>))"

definition resched_if_needed ::
  "addr \<Rightarrow> 'a guest_state_scheme \<Rightarrow> 'a guest_state_scheme option" where
  "resched_if_needed v s =
    (if need_reschedule s (pcpuid_from_vcpu s v) then schedule sched_iorr guest_switch s else Some s)"

partial_function (option) insert_asyncio_loop ::
  "('a guest_state_scheme \<Rightarrow> 'a guest_state_scheme option) \<Rightarrow> addr \<Rightarrow> nat \<Rightarrow> addr \<Rightarrow> u64 \<Rightarrow>
    'a guest_state_scheme \<Rightarrow> 'a guest_state_scheme option" where
  "insert_asyncio_loop away v m sb fd s =
    (let (r, s) = asyncio_put sb fd s
     in if r = 0
        then do {
          s \<leftarrow> resched_if_needed v (asyncio_release m s);
          s \<leftarrow> away s;
          s \<leftarrow> asyncio_obtain m s;
          insert_asyncio_loop away v m sb fd s
        }
        else Some s)"

declare insert_asyncio_loop.simps [code]

definition acrn_insert_asyncio ::
  "('a guest_state_scheme \<Rightarrow> 'a guest_state_scheme option) \<Rightarrow> addr \<Rightarrow> u64 \<Rightarrow>
    'a guest_state_scheme \<Rightarrow> (int \<times> 'a guest_state_scheme) option" where
  "acrn_insert_asyncio away v fd s =
    (let m = vcpu_vm (vcpus s v); sb = asyncio_sbuf (vms s m)
     in if sb \<noteq> 0
        then do {
          s \<leftarrow> asyncio_obtain m s;
          s \<leftarrow> insert_asyncio_loop away v m sb fd s;
          s \<leftarrow> arch_fire_hsm_interrupt (asyncio_release m s);
          Some (0, s)
        }
        else Some (- ENODEV, s))"

definition SBUF_MAGIC :: u64 where "SBUF_MAGIC = 0x5aa57aa71aa13aa3"

definition init_asyncio :: "nat \<Rightarrow> addr \<Rightarrow> 'a guest_state_scheme \<Rightarrow> int \<times> 'a guest_state_scheme" where
  "init_asyncio m hva s =
    (if hva \<noteq> 0 \<and> magic (sbufs s hva) = SBUF_MAGIC
     then let s = upd_vm m (\<lambda>r. r\<lparr>asyncio_sbuf := hva\<rparr>) s;
              s = INIT_LIST_HEAD (aiodesc_queue s m) s
          in (0, upd_vm m (\<lambda>r. r\<lparr>asyncio_lock := spinlock_init\<rparr>) s)
     else (-1, s))"

subsection \<open>Requests to the service VM\<close>

partial_function (option) poll_complete ::
  "('a guest_state_scheme \<Rightarrow> 'a guest_state_scheme option) \<Rightarrow> addr \<Rightarrow>
    'a guest_state_scheme \<Rightarrow> 'a guest_state_scheme option" where
  "poll_complete away v s =
    (if has_complete_ioreq s v then Some s
     else do { s \<leftarrow> resched_if_needed v s; s \<leftarrow> away s; poll_complete away v s })"

declare poll_complete.simps [code]

definition acrn_insert_request ::
  "('a guest_state_scheme \<Rightarrow> 'a guest_state_scheme option) \<Rightarrow> addr \<Rightarrow>
    'a guest_state_scheme \<Rightarrow> (int \<times> 'a guest_state_scheme) option" where
  "acrn_insert_request away v s =
    (let m = vcpu_vm (vcpus s v); cur = vcpu_id (vcpus s v); io = req (vcpus s v)
     in if io_shared_page (vms s m) \<noteq> None \<and> get_io_req_state s m cur = ACRN_IOREQ_STATE_FREE
        then do {
          let s = upd_slot m cur (\<lambda>q. q\<lparr>ioreq_type := io_type io, ioreq_reqs := reqs io\<rparr>) s;
          let polling = is_polling_ioreq (vms s m);
          let s = (if polling then upd_slot m cur (\<lambda>q. q\<lparr>completion_polling := 1\<rparr>) s else s);
          let s = set_io_req_state m cur ACRN_IOREQ_STATE_PENDING s;
          s \<leftarrow> arch_fire_hsm_interrupt s;
          s \<leftarrow> (if polling then poll_complete away v s
                else wait_event sched_iorr guest_switch away (vcpu_event s v VCPU_EVENT_IOREQ) s);
          Some (0, s)
        }
        else Some (- EINVAL, s))"

definition emulate_mmio_complete :: "addr \<Rightarrow> 'a guest_state_scheme \<Rightarrow> 'a guest_state_scheme" where
  "emulate_mmio_complete v s =
    (if direction (reqs (req (vcpus s v))) = ACRN_IOREQ_DIR_READ then snd (emulate_instruction v s) else s)"

text \<open>With \<open>use = False\<close> the pointer \<open>io_req\<close> is null; a missing page is dereferenced.\<close>

definition complete_ioreq :: "addr \<Rightarrow> bool \<Rightarrow> 'a guest_state_scheme \<Rightarrow> 'a guest_state_scheme option" where
  "complete_ioreq v use s =
    (let m = vcpu_vm (vcpus s v); i = vcpu_id (vcpus s v); type = io_type (req (vcpus s v))
     in case io_shared_page (vms s m) of
          None \<Rightarrow> None
        | Some slots \<Rightarrow>
            (let x = req_value (ioreq_reqs (slots i));
                 s = (if use \<and> type = ACRN_IOREQ_TYPE_PORTIO
                      then upd_req v (\<lambda>r. r\<lparr>req_value := req_value r AND 0xffffffff00000000 OR x AND 0xffffffff\<rparr>) s
                      else if use \<and> type = ACRN_IOREQ_TYPE_MMIO then upd_req v (\<lambda>r. r\<lparr>req_value := x\<rparr>) s
                      else s)
             in Some (set_io_req_state m i ACRN_IOREQ_STATE_FREE s)))"

definition emulate_pio_complete :: "addr \<Rightarrow> 'a guest_state_scheme \<Rightarrow> 'a guest_state_scheme" where
  "emulate_pio_complete v s = s"

definition dm_emulate_pio_complete :: "addr \<Rightarrow> 'a guest_state_scheme \<Rightarrow> 'a guest_state_scheme option" where
  "dm_emulate_pio_complete v s = map_option (emulate_pio_complete v) (complete_ioreq v True s)"

definition dm_emulate_mmio_complete :: "addr \<Rightarrow> 'a guest_state_scheme \<Rightarrow> 'a guest_state_scheme option" where
  "dm_emulate_mmio_complete v s = map_option (emulate_mmio_complete v) (complete_ioreq v True s)"

definition dm_emulate_io_complete :: "addr \<Rightarrow> 'a guest_state_scheme \<Rightarrow> 'a guest_state_scheme option" where
  "dm_emulate_io_complete v s =
    (let c = vcpus s v
     in if get_io_req_state s (vcpu_vm c) (vcpu_id c) = ACRN_IOREQ_STATE_COMPLETE
        then if vstate c = VCPU_ZOMBIE then complete_ioreq v False s
             else if io_type (req c) = ACRN_IOREQ_TYPE_MMIO then dm_emulate_mmio_complete v s
             else if io_type (req c) \<in> {ACRN_IOREQ_TYPE_PORTIO, ACRN_IOREQ_TYPE_PCICFG} then dm_emulate_pio_complete v s
             else complete_ioreq v False s
        else Some s)"

subsection \<open>Handlers in the hypervisor\<close>

definition is_service_vm :: "nat \<Rightarrow> bool" where
  "is_service_vm m = (m = SOS_VM_INDEX)"

definition get_vm_config :: "'a guest_state_scheme \<Rightarrow> nat \<Rightarrow> acrn_vm_config" where
  "get_vm_config s vid = vm_configs s"

definition is_prelaunched_vm :: "'a guest_state_scheme \<Rightarrow> nat \<Rightarrow> bool" where
  "is_prelaunched_vm s m = (load_order (get_vm_config s (vmid (vms s m))) = PRE_LAUNCHED_VM)"

definition is_postlaunched_vm :: "'a guest_state_scheme \<Rightarrow> nat \<Rightarrow> bool" where
  "is_postlaunched_vm s m = (load_order (get_vm_config s (vmid (vms s m))) = POST_LAUNCHED_VM)"

definition mmio_default_access_handler :: "io_reqs \<Rightarrow> int \<times> io_reqs" where
  "mmio_default_access_handler r =
    (0, if direction r = ACRN_IOREQ_DIR_READ
        then if req_size r = 1 then r\<lparr>req_value := 0xFF\<rparr>
             else if req_size r = 2 then r\<lparr>req_value := 0xFFFF\<rparr>
             else if req_size r = 4 then r\<lparr>req_value := 0xFFFFFFFF\<rparr>
             else if req_size r = 8 then r\<lparr>req_value := 0xFFFFFFFFFFFFFFFF\<rparr>
             else r
        else r)"

text \<open>The function pointer \<open>mmio_default_access_handler\<close>; all others are calls of \<open>handler\<close>.\<close>

definition MMIO_DEFAULT_HANDLER :: nat where "MMIO_DEFAULT_HANDLER = 6"

type_synonym 'a mmio_fn = "nat \<Rightarrow> nat \<Rightarrow> io_reqs \<Rightarrow> 'a guest_state_scheme \<Rightarrow> (int \<times> io_reqs \<times> 'a guest_state_scheme) option"

definition mmio_call :: "'a mmio_fn \<Rightarrow> nat \<Rightarrow> nat \<Rightarrow> addr \<Rightarrow> 'a guest_state_scheme \<Rightarrow> (int \<times> 'a guest_state_scheme) option" where
  "mmio_call handler f data v s =
    (let r = reqs (req (vcpus s v))
     in if f = MMIO_DEFAULT_HANDLER
        then let (st, r) = mmio_default_access_handler r in Some (st, upd_req v (\<lambda>_. r) s)
        else do { (st, r, s) \<leftarrow> handler f data r s; Some (st, upd_req v (\<lambda>_. r) s) })"

definition mmio_overlaps :: "mem_io_node \<Rightarrow> u64 \<Rightarrow> u64 \<Rightarrow> bool" where
  "mmio_overlaps n address len \<longleftrightarrow>
    read_write n \<noteq> None \<and> \<not> (address + len \<le> range_start n \<or> address \<ge> range_end n)"

definition mmio_inside :: "mem_io_node \<Rightarrow> u64 \<Rightarrow> u64 \<Rightarrow> bool" where
  "mmio_inside n address len \<longleftrightarrow> address \<ge> range_start n \<and> address + len \<le> range_end n"

definition mmio_obtain :: "nat \<Rightarrow> 'a guest_state_scheme \<Rightarrow> 'a guest_state_scheme option" where
  "mmio_obtain m s = do {
     lock \<leftarrow> spinlock_obtain (emul_mmio_lock (vms s m));
     Some (upd_vm m (\<lambda>r. r\<lparr>emul_mmio_lock := lock\<rparr>) s)
   }"

definition mmio_release :: "nat \<Rightarrow> 'a guest_state_scheme \<Rightarrow> 'a guest_state_scheme" where
  "mmio_release m s = upd_vm m (\<lambda>r. r\<lparr>emul_mmio_lock := spinlock_release (emul_mmio_lock r)\<rparr>) s"

definition hv_emulate_mmio ::
  "'a mmio_fn \<Rightarrow> addr \<Rightarrow> 'a guest_state_scheme \<Rightarrow> (int \<times> 'a guest_state_scheme) option" where
  "hv_emulate_mmio handler v s =
    (let m = vcpu_vm (vcpus s v); r = reqs (req (vcpus s v)); address = req_address r; len = req_size r;
         default_rw = (if is_service_vm m \<or> is_prelaunched_vm s m then Some MMIO_DEFAULT_HANDLER else None)
     in do {
       s \<leftarrow> mmio_obtain m s;
       let (status, hold, rw, data) =
         (case find (\<lambda>i. mmio_overlaps (emul_mmio (vms s m) i) address len) [0..<nr_emul_mmio_regions (vms s m) + 1] of
            None \<Rightarrow> (- ENODEV, True, default_rw, 0)
          | Some i \<Rightarrow>
              (let n = emul_mmio (vms s m) i
               in if mmio_inside n address len then (- ENODEV, hold_lock n, read_write n, handler_private_data n)
                  else (- EIO, True, default_rw, 0)));
       (status, s) \<leftarrow> (if status = - ENODEV
         then (case rw of
             None \<Rightarrow> Some (status, s)
           | Some f \<Rightarrow> do {
               let s = (if hold then s else mmio_release m s);
               (status, s) \<leftarrow> mmio_call handler f data v s;
               s \<leftarrow> (if hold then Some s else mmio_obtain m s);
               Some (status, s)
             })
         else Some (status, s));
       Some (status, mmio_release m s)
     })"

text \<open>On RISC-V port I/O is not emulated.\<close>

definition hv_emulate_pio :: int where
  "hv_emulate_pio = -1"

definition emulate_io ::
  "'a mmio_fn \<Rightarrow> ('a guest_state_scheme \<Rightarrow> 'a guest_state_scheme option) \<Rightarrow> addr \<Rightarrow>
    'a guest_state_scheme \<Rightarrow> (int \<times> 'a guest_state_scheme) option" where
  "emulate_io handler away v s = do {
     let config = get_vm_config s (vmid (vms s (vcpu_vm (vcpus s v))));
     let type = io_type (req (vcpus s v));
     (status, s) \<leftarrow>
       (if type = ACRN_IOREQ_TYPE_PORTIO
        then Some (hv_emulate_pio, if hv_emulate_pio = 0 then emulate_pio_complete v s else s)
        else if type = ACRN_IOREQ_TYPE_MMIO \<or> type = ACRN_IOREQ_TYPE_WP
        then do {
          (status, s) \<leftarrow> hv_emulate_mmio handler v s;
          Some (status, if status = 0 then emulate_mmio_complete v s else s)
        }
        else Some (- EINVAL, s));
     if status = - ENODEV \<and> load_order config = POST_LAUNCHED_VM
     then do {
       (desc, s) \<leftarrow> get_asyncio_desc v s;
       (case desc of
          Some i \<Rightarrow> acrn_insert_asyncio away v (aio_fd (aio_desc (vms s (vcpu_vm (vcpus s v))) i)) s
        | None \<Rightarrow> do {
            (status, s) \<leftarrow> acrn_insert_request away v s;
            if status = 0 then map_option (Pair status) (dm_emulate_io_complete v s) else Some (status, s)
          })
     }
     else Some (status, s)
   }"

subsection \<open>Registration\<close>

definition register_pio_emulation_handler ::
  "nat \<Rightarrow> nat \<Rightarrow> u16 \<Rightarrow> u16 \<Rightarrow> nat option \<Rightarrow> nat option \<Rightarrow> 'a guest_state_scheme \<Rightarrow> 'a guest_state_scheme" where
  "register_pio_emulation_handler m pio_idx base len rd wr s =
    upd_vm m (\<lambda>r. r\<lparr>emul_pio := (emul_pio r)(pio_idx :=
      \<lparr>port_start = base, port_end = base + len, io_read = rd, io_write = wr\<rparr>)\<rparr>) s"

definition find_match_mmio_node :: "acrn_vm \<Rightarrow> u64 \<Rightarrow> u64 \<Rightarrow> nat option" where
  "find_match_mmio_node r start fin =
    first_index (\<lambda>i. range_start (emul_mmio r i) = start \<and> range_end (emul_mmio r i) = fin) CONFIG_MAX_EMULATED_MMIO_REGIONS"

definition find_free_mmio_node :: "acrn_vm \<Rightarrow> nat option \<times> acrn_vm" where
  "find_free_mmio_node r =
    (case find_match_mmio_node r 0 0 of
       None \<Rightarrow> (None, r)
     | Some idx \<Rightarrow> (Some idx, if nr_emul_mmio_regions r < idx then r\<lparr>nr_emul_mmio_regions := idx\<rparr> else r))"

definition register_mmio_emulation_handler ::
  "nat \<Rightarrow> nat option \<Rightarrow> u64 \<Rightarrow> u64 \<Rightarrow> nat \<Rightarrow> bool \<Rightarrow> 'a guest_state_scheme \<Rightarrow> 'a guest_state_scheme option" where
  "register_mmio_emulation_handler m rw start fin data hold s =
    (if rw \<noteq> None \<and> fin > start
     then do {
       s \<leftarrow> mmio_obtain m s;
       let (node, r) = find_free_mmio_node (vms s m);
       let s = upd_vm m (\<lambda>_. r) s;
       let s = (case node of
           None \<Rightarrow> s
         | Some i \<Rightarrow> upd_vm m (\<lambda>r. r\<lparr>emul_mmio := (emul_mmio r)(i := \<lparr>hold_lock = hold, read_write = rw,
                       handler_private_data = data, range_start = start, range_end = fin\<rparr>)\<rparr>) s);
       Some (mmio_release m s)
     }
     else Some s)"

definition zero_mmio_node :: mem_io_node where
  "zero_mmio_node = \<lparr>hold_lock = False, read_write = None, handler_private_data = 0, range_start = 0, range_end = 0\<rparr>"

definition unregister_mmio_emulation_handler ::
  "nat \<Rightarrow> u64 \<Rightarrow> u64 \<Rightarrow> 'a guest_state_scheme \<Rightarrow> 'a guest_state_scheme option" where
  "unregister_mmio_emulation_handler m start fin s = do {
     s \<leftarrow> mmio_obtain m s;
     let s = (case find_match_mmio_node (vms s m) start fin of
         None \<Rightarrow> s
       | Some i \<Rightarrow> upd_vm m (\<lambda>r. r\<lparr>emul_mmio := (emul_mmio r)(i := zero_mmio_node)\<rparr>) s);
     Some (mmio_release m s)
   }"

definition deinit_emul_io :: "nat \<Rightarrow> 'a guest_state_scheme \<Rightarrow> 'a guest_state_scheme" where
  "deinit_emul_io m s =
    upd_vm m (\<lambda>r. r\<lparr>emul_mmio := (\<lambda>_. zero_mmio_node),
      emul_pio := (\<lambda>_. \<lparr>port_start = 0, port_end = 0, io_read = None, io_write = None\<rparr>)\<rparr>) s"

subsection \<open>Registered regions\<close>

text \<open>
  \<open>mmio_free m start fin s\<close>: the table of machine \<open>m\<close> is well formed, has a free node, and no
  registered region meets \<open>[start, fin)\<close>.
\<close>

definition mmio_free :: "nat \<Rightarrow> u64 \<Rightarrow> u64 \<Rightarrow> 'a guest_state_scheme \<Rightarrow> bool" where
  "mmio_free m start fin s \<longleftrightarrow> lock_free (emul_mmio_lock (vms s m)) \<and>
    nr_emul_mmio_regions (vms s m) < CONFIG_MAX_EMULATED_MMIO_REGIONS \<and> find_match_mmio_node (vms s m) 0 0 \<noteq> None \<and>
    (\<forall>j < CONFIG_MAX_EMULATED_MMIO_REGIONS. let n = emul_mmio (vms s m) j in
       read_write n \<noteq> None \<longrightarrow> range_end n \<le> start \<or> fin \<le> range_start n)"

lemma first_index_Some: "first_index P n = Some i \<Longrightarrow> i < n \<and> P i \<and> (\<forall>j < i. \<not> P j)"
  by (auto simp: first_index_def find_Some_iff nth_upt)

lemma register_mmio_node:
  assumes f: "mmio_free m start fin s" and r: "start < fin"
  obtains i s' where "register_mmio_emulation_handler m (Some f) start fin data hold s = Some s'"
    "i < CONFIG_MAX_EMULATED_MMIO_REGIONS" "range_start (emul_mmio (vms s m) i) = 0" "range_end (emul_mmio (vms s m) i) = 0"
    "i \<le> nr_emul_mmio_regions (vms s' m)" "nr_emul_mmio_regions (vms s' m) < CONFIG_MAX_EMULATED_MMIO_REGIONS"
    "emul_mmio (vms s' m) = (emul_mmio (vms s m))(i := \<lparr>hold_lock = hold, read_write = Some f, handler_private_data = data,
       range_start = start, range_end = fin\<rparr>)" "lock_free (emul_mmio_lock (vms s' m))" "vcpus s' = vcpus s" "vm_configs s' = vm_configs s"
proof -
  obtain i where i: "find_match_mmio_node (vms s m) 0 0 = Some i" using f by (auto simp: mmio_free_def)
  have j: "i < CONFIG_MAX_EMULATED_MMIO_REGIONS" "range_start (emul_mmio (vms s m) i) = 0" "range_end (emul_mmio (vms s m) i) = 0"
    using first_index_Some [OF i [unfolded find_match_mmio_node_def]] by auto
  have i': "find_match_mmio_node ((vms s m)\<lparr>emul_mmio_lock := l\<rparr>) 0 0 = Some i" for l
    using i by (simp add: find_match_mmio_node_def)
  have l: "lock_free (emul_mmio_lock (vms s m))" using f by (simp add: mmio_free_def)
  let ?n = "\<lparr>hold_lock = hold, read_write = Some f, handler_private_data = data, range_start = start, range_end = fin\<rparr>"
  let ?L = "spinlock_release ((emul_mmio_lock (vms s m))\<lparr>lock_head := lock_head (emul_mmio_lock (vms s m)) + 1\<rparr>)"
  let ?s = "upd_vm m (\<lambda>r. r\<lparr>emul_mmio_lock := ?L, nr_emul_mmio_regions := max (nr_emul_mmio_regions r) i,
    emul_mmio := (emul_mmio r)(i := ?n)\<rparr>) s"
  have e: "register_mmio_emulation_handler m (Some f) start fin data hold s = Some ?s"
    using r l i' by (cases "vms s m") (simp add: register_mmio_emulation_handler_def mmio_obtain_def mmio_release_def
        spinlock_obtain_free find_free_mmio_node_def upd_vm_def max_def)
  have "lock_free ?L" using l by (simp add: lock_free_def spinlock_release_def)
  moreover have "nr_emul_mmio_regions (vms s m) < CONFIG_MAX_EMULATED_MMIO_REGIONS" using f by (simp add: mmio_free_def)
  ultimately show ?thesis using j by (intro that [OF e j]) (simp_all add: upd_vm_def)
qed

text \<open>Which node serves an access.\<close>

lemma mmio_found:
  assumes "i \<le> n" "mmio_overlaps (nodes i) address len" "\<And>j. j \<le> n \<Longrightarrow> j \<noteq> i \<Longrightarrow> \<not> mmio_overlaps (nodes j) address len"
  shows "find (\<lambda>i. mmio_overlaps (nodes i) address len) [0..<n + 1] = Some i"
  unfolding find_Some_iff using assms by (intro exI [of _ i]) (auto simp: nth_upt simp del: upt_Suc)

lemma emulate_mmio_found:
  assumes l: "lock_free (emul_mmio_lock (vms s m))" and m: "m = vcpu_vm (vcpus s v)" "r = reqs (req (vcpus s v))"
    and i: "find (\<lambda>i. mmio_overlaps (emul_mmio (vms s m) i) (req_address r) (req_size r)) [0..<nr_emul_mmio_regions (vms s m) + 1] = Some i"
      "mmio_inside (emul_mmio (vms s m) i) (req_address r) (req_size r)" "read_write (emul_mmio (vms s m) i) = Some f"
      "f \<noteq> MMIO_DEFAULT_HANDLER"
    and h: "\<And>f d r s. handler f d r s = Some (fst (h f d r), snd (h f d r), s)"
  shows "\<exists>s'. hv_emulate_mmio handler v s = Some (fst (h f (handler_private_data (emul_mmio (vms s m) i)) r), s')
    \<and> reqs (req (vcpus s' v)) = snd (h f (handler_private_data (emul_mmio (vms s m) i)) r)
    \<and> lock_free (emul_mmio_lock (vms s' m)) \<and> emul_mmio (vms s' m) = emul_mmio (vms s m)"
  using assms by (auto simp: hv_emulate_mmio_def mmio_obtain_def mmio_release_def mmio_call_def spinlock_obtain_free upd_vm_def
      upd_req_def upd_vcpu_def lock_free_def spinlock_obtain_def spinlock_release_def Let_def)

text \<open>
  A registered region takes over the accesses that lie in it; after it is
  unregistered nothing of it is left.
\<close>

lemma registered_mmio_served:
  assumes f: "mmio_free m start fin s" and g: "g \<noteq> MMIO_DEFAULT_HANDLER"
    and a: "start \<le> req_address r" "req_address r < req_address r + req_size r" "req_address r + req_size r \<le> fin"
    and m: "m = vcpu_vm (vcpus s v)" "r = reqs (req (vcpus s v))"
    and h: "\<And>f d r s. handler f d r s = Some (fst (h f d r), snd (h f d r), s)"
  shows "\<exists>s1 s2. register_mmio_emulation_handler m (Some g) start fin data hold s = Some s1
    \<and> hv_emulate_mmio handler v s1 = Some (fst (h g data r), s2) \<and> reqs (req (vcpus s2 v)) = snd (h g data r)
    \<and> lock_free (emul_mmio_lock (vms s2 m))"
proof -
  let ?n = "\<lparr>hold_lock = hold, read_write = Some g, handler_private_data = data, range_start = start, range_end = fin\<rparr>"
  have "start < fin" using a by simp
  then obtain i s1 where s1: "register_mmio_emulation_handler m (Some g) start fin data hold s = Some s1"
    "i \<le> nr_emul_mmio_regions (vms s1 m)" "nr_emul_mmio_regions (vms s1 m) < CONFIG_MAX_EMULATED_MMIO_REGIONS"
    "emul_mmio (vms s1 m) = (emul_mmio (vms s m))(i := ?n)" "lock_free (emul_mmio_lock (vms s1 m))" "vcpus s1 = vcpus s"
    using register_mmio_node [OF f] by metis
  have o: "mmio_overlaps (emul_mmio (vms s1 m) i) (req_address r) (req_size r)"
    using a s1(4) by (auto simp: mmio_overlaps_def)
  have "\<not> mmio_overlaps (emul_mmio (vms s1 m) j) (req_address r) (req_size r)" if j: "j \<le> nr_emul_mmio_regions (vms s1 m)" "j \<noteq> i" for j
  proof -
    have "read_write (emul_mmio (vms s m) j) \<noteq> None \<longrightarrow>
        range_end (emul_mmio (vms s m) j) \<le> start \<or> fin \<le> range_start (emul_mmio (vms s m) j)"
      using f j(1) s1(3) by (simp add: mmio_free_def Let_def)
    thus ?thesis using a j s1(4) by (auto simp: mmio_overlaps_def)
  qed
  note found = mmio_found [OF s1(2), where nodes = "emul_mmio (vms s1 m)", OF o this]
  have "mmio_inside (emul_mmio (vms s1 m) i) (req_address r) (req_size r)" "read_write (emul_mmio (vms s1 m) i) = Some g"
    "handler_private_data (emul_mmio (vms s1 m) i) = data"
    using a s1(4) by (simp_all add: mmio_inside_def)
  thus ?thesis using emulate_mmio_found [OF s1(5) _ _ found _ _ g h] m s1(1,6) by fastforce
qed

lemma first_index_unique: "i < n \<Longrightarrow> P i \<Longrightarrow> (\<And>j. j < n \<Longrightarrow> j \<noteq> i \<Longrightarrow> \<not> P j) \<Longrightarrow> first_index P n = Some i"
  unfolding first_index_def find_Some_iff by (intro exI [of _ i]) (auto simp: nth_upt)

lemma first_index_None: "first_index P n = None \<longleftrightarrow> (\<forall>j < n. \<not> P j)"
  by (auto simp: first_index_def find_None_iff)

lemma unregistered_mmio_gone:
  assumes f: "mmio_free m start fin s" and r: "start < fin"
    and new: "find_match_mmio_node (vms s m) start fin = None"
  shows "\<exists>s1 s2 i. register_mmio_emulation_handler m (Some g) start fin data hold s = Some s1
    \<and> unregister_mmio_emulation_handler m start fin s1 = Some s2
    \<and> range_start (emul_mmio (vms s m) i) = 0 \<and> range_end (emul_mmio (vms s m) i) = 0
    \<and> emul_mmio (vms s2 m) = (emul_mmio (vms s m))(i := zero_mmio_node) \<and> lock_free (emul_mmio_lock (vms s2 m))"
proof -
  let ?n = "\<lparr>hold_lock = hold, read_write = Some g, handler_private_data = data, range_start = start, range_end = fin\<rparr>"
  obtain i s1 where s1: "register_mmio_emulation_handler m (Some g) start fin data hold s = Some s1" "i < CONFIG_MAX_EMULATED_MMIO_REGIONS"
    "range_start (emul_mmio (vms s m) i) = 0" "range_end (emul_mmio (vms s m) i) = 0"
    "emul_mmio (vms s1 m) = (emul_mmio (vms s m))(i := ?n)" "lock_free (emul_mmio_lock (vms s1 m))"
    using register_mmio_node [OF f r] by metis
  have "\<not> (range_start (emul_mmio (vms s m) j) = start \<and> range_end (emul_mmio (vms s m) j) = fin)"
    if "j < CONFIG_MAX_EMULATED_MMIO_REGIONS" for j
    using new that by (simp add: find_match_mmio_node_def first_index_None)
  hence "first_index (\<lambda>j. range_start (emul_mmio (vms s1 m) j) = start \<and> range_end (emul_mmio (vms s1 m) j) = fin)
      CONFIG_MAX_EMULATED_MMIO_REGIONS = Some i"
    by (intro first_index_unique [OF s1(2)]) (simp_all add: s1(5))
  hence "unregister_mmio_emulation_handler m start fin s1 = Some (mmio_release m (upd_vm m (\<lambda>r. r\<lparr>emul_mmio_lock :=
      (emul_mmio_lock r)\<lparr>lock_head := lock_head (emul_mmio_lock r) + 1\<rparr>, emul_mmio := (emul_mmio r)(i := zero_mmio_node)\<rparr>) s1))"
    using s1(6) by (cases "vms s1 m")
      (simp add: unregister_mmio_emulation_handler_def mmio_obtain_def spinlock_obtain_free upd_vm_def find_match_mmio_node_def)
  thus ?thesis using s1 by (simp add: mmio_release_def upd_vm_def) blast
qed

end
