(* ===== verification/Vm.thy ===== *)
theory Vm
  imports Virq Io_Req
begin

text \<open>
  The life of vCPUs (\<open>arch/riscv/guest/vcpu.c\<close>) and of virtual machines
  (\<open>arch/riscv/guest/vm.c\<close>): create, launch, pause, reset and take offline.

  The debug name of a thread is not modelled.  \<open>vboot\<close> is the link-time address
  of the test kernel that vCPUs start at.
\<close>

subsection \<open>vCPUs\<close>

text \<open>\<open>update_vm_vclint_state\<close> is empty.\<close>

definition vcpu_set_state :: "addr \<Rightarrow> vcpu_state \<Rightarrow> 'a guest_state_scheme \<Rightarrow> 'a guest_state_scheme" where
  "vcpu_set_state v st s = upd_vcpu v (\<lambda>c. c\<lparr>vstate := st\<rparr>) s"

definition clear_run_contexts :: "(nat \<Rightarrow> u64) \<Rightarrow> nat \<Rightarrow> u64" where
  "clear_run_contexts w = (\<lambda>i. if i < NR_WORLD * CONTEXT_WORDS \<and> i mod CONTEXT_WORDS < RUN_CONTEXT_WORDS then 0 else w i)"

fun reset_events :: "addr list \<Rightarrow> 'a guest_state_scheme \<Rightarrow> 'a guest_state_scheme option" where
  "reset_events [] s = Some s"
| "reset_events (e # es) s = Option.bind (reset_event e s) (reset_events es)"

definition vcpu_reset_internal :: "addr \<Rightarrow> 'a guest_state_scheme \<Rightarrow> 'a guest_state_scheme option" where
  "vcpu_reset_internal v s =
    (let s = upd_vcpu v (\<lambda>c. c\<lparr>launched := False, nr_sipi := 0, exc_vector := VECTOR_INVALID,
               cur_context := NORMAL_WORLD, contexts := clear_run_contexts (contexts c)\<rparr>) s;
         s = vclint_reset (vcpu_vclint s v) s
     in reset_events (map (vcpu_event s v) [0..<VCPU_EVENT_NUM]) s)"

text \<open>
  The memory copy of \<open>set_vcpu_regs\<close> reads from the address of the pointer
  parameter; \<open>stack\<close> are the words found there.
\<close>

definition set_vcpu_regs :: "addr \<Rightarrow> (nat \<Rightarrow> u64) \<Rightarrow> (nat \<Rightarrow> u64) \<Rightarrow> 'a guest_state_scheme \<Rightarrow> 'a guest_state_scheme" where
  "set_vcpu_regs v regs stack s =
    (let s = fold (\<lambda>i. vcpu_set_gpreg v i (stack i)) [0..<CTX_SSTATUS] s;
         s = vcpu_set_rip v (regs REG_IP) s;
         s = vcpu_set_sp v (regs CPU_REG_SP) s
     in if regs CPU_REG_STATUS = 0 then vcpu_set_status v 2 s
        else vcpu_set_status v (regs CPU_REG_STATUS AND NOT 0x8d5) s)"

definition STACK_FRAME_SIZE :: u64 where "STACK_FRAME_SIZE = 296"

definition build_stack_frame :: "addr \<Rightarrow> 'a guest_state_scheme \<Rightarrow> u64 \<times> 'a guest_state_scheme" where
  "build_stack_frame v s =
    (let frame = stack_top s v - STACK_FRAME_SIZE;
         entry = (case thread_entry (threads s v) of Some f \<Rightarrow> of_nat f | None \<Rightarrow> 0);
         s = upd_vcpu v (\<lambda>c. c\<lparr>stack_frame := (\<lambda>i.
               if i = REG_IP then entry else if i = 1 then entry else if i = CPU_REG_SP then frame
               else if i = 4 then of_nat v else if i = CPU_REG_A0 then of_nat v
               else if i < 32 then 0 else stack_frame c i)\<rparr>) s
     in (frame, s))"

definition offline_vcpu :: "addr \<Rightarrow> 'a guest_state_scheme \<Rightarrow> 'a guest_state_scheme" where
  "offline_vcpu v s =
    (let s = vclint_free v s; cpu = pcpuid_from_vcpu s v; m = vmid (vms s (vcpu_vm (vcpus s v)));
         s = s\<lparr>ever_run_vcpu := (ever_run_vcpu s)(cpu := 0),
               vcpu_array := (vcpu_array s)(cpu := (vcpu_array s cpu)(m := 0))\<rparr>
     in vcpu_set_state v VCPU_OFFLINE s)"

definition reset_vcpu :: "addr \<Rightarrow> 'a guest_state_scheme \<Rightarrow> 'a guest_state_scheme option" where
  "reset_vcpu v s = map_option (vcpu_set_state v VCPU_INIT) (vcpu_reset_internal v s)"

definition zombie_vcpu :: "addr \<Rightarrow> vcpu_state \<Rightarrow> 'a guest_state_scheme \<Rightarrow> 'a guest_state_scheme option" where
  "zombie_vcpu v new_state s =
    (let cpu = pcpuid_from_vcpu s v; prev_state = vstate (vcpus s v)
     in if (prev_state = VCPU_RUNNING \<or> prev_state = VCPU_INIT) \<and> new_state = VCPU_ZOMBIE
        then let s = vcpu_set_state v new_state s
             in if prev_state = VCPU_RUNNING
                then if cpu = get_pcpu_id s then sleep_thread sched_iorr v s else sleep_thread_sync sched_iorr v s
                else Some s
        else Some s)"

definition launch_vcpu :: "addr \<Rightarrow> 'a guest_state_scheme \<Rightarrow> 'a guest_state_scheme option" where
  "launch_vcpu v s =
    (let cpu = vcpu_pcpu_id (vcpus s v);
         s = vcpu_set_state v VCPU_RUNNING s;
         s = vcpu_set_gpreg v CPU_REG_A0 (of_nat cpu) s
     in wake_thread sched_iorr v s)"

definition zero_vcpu :: acrn_vcpu where
  "zero_vcpu = \<lparr>contexts = (\<lambda>_. 0), cur_context = 0, guest_csrs = (\<lambda>_. 0), csr_bitmap = (\<lambda>_. 0), vpid = 0,
     exc_vector = 0, exc_error = 0, exit_reason = 0, exit_qualification = 0, inst_len = 0, nr_sipi = 0, pending_req = 0,
     eoi_exit_bitmap = (\<lambda>_. 0), stack_frame = (\<lambda>_. 0), vcpu_id = 0, vcpu_pcpu_id = 0, vcpu_vm = 0, vstate = VCPU_OFFLINE,
     launched = False, req = \<lparr>io_type = 0, reqs = \<lparr>direction = 0, req_address = 0, req_size = 0, req_value = 0\<rparr>\<rparr>,
     reg_cached = 0, reg_updated = 0\<rparr>"

definition zero_thread :: thread_object where
  "zero_thread = \<lparr>thr_pcpu_id = 0, thr_sched_ctl = 0, thread_entry = None, thr_status = THREAD_STS_RUNNING,
     be_blocking = False, host_sp = 0, switch_out = None, switch_in = None\<rparr>"

definition create_vcpu :: "u64 \<Rightarrow> nat \<Rightarrow> nat \<Rightarrow> 'a guest_state_scheme \<Rightarrow> (int \<times> 'a guest_state_scheme) option" where
  "create_vcpu vboot m vcpu_id_arg s =
    (let r = vms s m; cpu = (vcpu_id_arg + vmid r * CONFIG_MAX_VCPU) mod 2 ^ 16; i = created_vcpus r
     in if i < MAX_VCPUS_PER_VM
        then do {
          let v = hw_vcpu s m i;
          let s = upd_vcpu v (\<lambda>_. zero_vcpu\<lparr>vcpu_id := i, vcpu_pcpu_id := cpu, vcpu_vm := m,
                    vpid := of_nat (1 + vmid r * MAX_VCPUS_PER_VM + i)\<rparr>) s;
          let s = s\<lparr>ever_run_vcpu := (ever_run_vcpu s)(cpu := v),
                    vcpu_array := (vcpu_array s)(cpu := (vcpu_array s cpu)(vmid r := v))\<rparr>;
          let s = vcpu_set_rip v vboot (vcpu_set_state v VCPU_INIT s);
          let s = upd_vm m (\<lambda>r. r\<lparr>created_vcpus := created_vcpus r + 1\<rparr>) s;
          let s = upd_thread v (\<lambda>_. zero_thread\<lparr>thr_sched_ctl := cpu, thread_entry := Some VCPU_THREAD, thr_pcpu_id := cpu\<rparr>) s;
          let (sp, s) = build_stack_frame v s;
          let s = upd_thread v (\<lambda>t. t\<lparr>host_sp := sp, switch_out := Some CONTEXT_SWITCH_OUT, switch_in := Some CONTEXT_SWITCH_IN\<rparr>)
                    (upd_iorr_data v (\<lambda>d. d\<lparr>last_cycles := 0\<rparr>) s);
          s \<leftarrow> init_thread_data sched_iorr v (cfg_sched_params (get_vm_config s (vmid r))) s;
          let s = fold (\<lambda>k s. init_event (vcpu_event s v k) s) [0..<VCPU_EVENT_NUM] s;
          Some (0, vcpu_make_request v ACRN_REQUEST_INIT_VMCS s)
        }
        else Some (- EINVAL, s))"

text \<open>\<open>bitmap_set_nolock\<close> as the port implements it.\<close>

definition vcpumask2pcpumask :: "'a guest_state_scheme \<Rightarrow> nat \<Rightarrow> u64 \<Rightarrow> u64" where
  "vcpumask2pcpumask s m vdmask =
    fold (\<lambda>i dmask. if vdmask AND 2 ^ i \<noteq> 0 then bitmap_set_nolock (pcpuid_from_vcpu s (hw_vcpu s m i)) dmask else dmask)
      [0..<created_vcpus (vms s m)] 0"

definition active_vcpus :: "'a guest_state_scheme \<Rightarrow> nat \<Rightarrow> addr list" where
  "active_vcpus s m =
    filter (\<lambda>v. vstate (vcpus s v) \<noteq> VCPU_OFFLINE) (map (hw_vcpu s m) [0..<created_vcpus (vms s m)])"

definition vm_active_cpus :: "'a guest_state_scheme \<Rightarrow> nat \<Rightarrow> u64" where
  "vm_active_cpus s m = fold (\<lambda>v. bitmap_set_nolock (vcpu_id (vcpus s v))) (active_vcpus s m) 0"

definition vcpu_from_pid :: "'a guest_state_scheme \<Rightarrow> nat \<Rightarrow> nat \<Rightarrow> addr" where
  "vcpu_from_pid s m cpu = (case find (\<lambda>v. pcpuid_from_vcpu s v = cpu) (active_vcpus s m) of Some v \<Rightarrow> v | None \<Rightarrow> 0)"

subsection \<open>Running a vCPU\<close>

text \<open>\<open>vmrun\<close> is the assembly that enters the guest and comes back with its exit.\<close>

definition run_vcpu ::
  "(addr \<Rightarrow> 'a guest_state_scheme \<Rightarrow> (int \<times> 'a guest_state_scheme) option) \<Rightarrow> addr \<Rightarrow>
    'a guest_state_scheme \<Rightarrow> (int \<times> 'a guest_state_scheme) option" where
  "run_vcpu vmrun v s = do {
     let s = (if \<not> launched (vcpus s v) then upd_vcpu v (\<lambda>c. c\<lparr>launched := True\<rparr>) s else s);
     (status, s) \<leftarrow> vmrun v (load_vmcs v s);
     let s = save_vmcs v s;
     Some (status, upd_vcpu v (\<lambda>c. c\<lparr>reg_cached := 0, inst_len := 64, exit_reason := ctx_word c REG_CAUSE\<rparr>) s)
   }"

subsection \<open>Virtual machines\<close>

definition set_vm_state :: "nat \<Rightarrow> vm_state \<Rightarrow> 'a guest_state_scheme \<Rightarrow> 'a guest_state_scheme" where
  "set_vm_state m st s = upd_vm m (\<lambda>r. r\<lparr>vm_st := st\<rparr>) s"

definition is_poweroff_vm :: "'a guest_state_scheme \<Rightarrow> nat \<Rightarrow> bool" where
  "is_poweroff_vm s m = (vm_st (vms s m) = VM_POWERED_OFF)"

definition is_created_vm :: "'a guest_state_scheme \<Rightarrow> nat \<Rightarrow> bool" where
  "is_created_vm s m = (vm_st (vms s m) = VM_CREATED)"

definition is_paused_vm :: "'a guest_state_scheme \<Rightarrow> nat \<Rightarrow> bool" where
  "is_paused_vm s m = (vm_st (vms s m) = VM_PAUSED)"

definition shutdown_vm :: "nat \<Rightarrow> 'a guest_state_scheme \<Rightarrow> int \<times> 'a guest_state_scheme" where
  "shutdown_vm m s = (0, offline_vcpu (hw_vcpu s m 0) (set_vm_state m VM_POWERED_OFF s))"

definition pause_vm :: "nat \<Rightarrow> 'a guest_state_scheme \<Rightarrow> 'a guest_state_scheme option" where
  "pause_vm m s = map_option (set_vm_state m VM_PAUSED) (zombie_vcpu (hw_vcpu s m 0) VCPU_ZOMBIE s)"

definition reset_vm :: "nat \<Rightarrow> 'a guest_state_scheme \<Rightarrow> int \<times> 'a guest_state_scheme" where
  "reset_vm m s = (0, set_vm_state m VM_CREATED (reset_vm_ioreqs m s))"

fun launch_vcpus :: "addr list \<Rightarrow> 'a guest_state_scheme \<Rightarrow> 'a guest_state_scheme option" where
  "launch_vcpus [] s = Some s"
| "launch_vcpus (v # vs) s = Option.bind (launch_vcpu v s) (launch_vcpus vs)"

definition start_vm :: "nat \<Rightarrow> 'a guest_state_scheme \<Rightarrow> 'a guest_state_scheme option" where
  "start_vm m s =
    (let s = set_vm_state m VM_RUNNING s in launch_vcpus (map (hw_vcpu s m) [0..<created_vcpus (vms s m)]) s)"

definition start_sos_vm :: "'a guest_state_scheme \<Rightarrow> 'a guest_state_scheme option" where
  "start_sos_vm s = start_vm SOS_VM_INDEX s"

definition GUEST_FLAG_HIDE_MTRR :: u64 where "GUEST_FLAG_HIDE_MTRR = 8"

definition vm_hide_mtrr :: "'a guest_state_scheme \<Rightarrow> nat \<Rightarrow> bool" where
  "vm_hide_mtrr s m = (guest_flags (get_vm_config s (vmid (vms s m))) AND GUEST_FLAG_HIDE_MTRR \<noteq> 0)"

definition is_valid_postlaunched_vmid :: "'a guest_state_scheme \<Rightarrow> nat \<Rightarrow> bool" where
  "is_valid_postlaunched_vmid s vid = (vid < CONFIG_MAX_VM_NUM \<and> is_postlaunched_vm s vid)"

fun create_vcpus :: "u64 \<Rightarrow> nat \<Rightarrow> nat list \<Rightarrow> 'a guest_state_scheme \<Rightarrow> 'a guest_state_scheme option" where
  "create_vcpus vboot m [] s = Some s"
| "create_vcpus vboot m (i # is) s = Option.bind (create_vcpu vboot m i s) (\<lambda>(r, s). create_vcpus vboot m is s)"

subsection \<open>Invariants of the vCPUs of a machine\<close>

lemma vcpu_set_state_frame [simp]: "guest_frame s (vcpu_set_state v st s)"
  by (simp add: vcpu_set_state_def)

lemma vcpu_set_gpreg_frame [simp]: "guest_frame s (vcpu_set_gpreg v r x s)"
  by (simp add: vcpu_set_gpreg_def)

text \<open>Launching a created vCPU makes it runnable on its hart.\<close>

lemma launch_vcpu_ok:
  assumes "guest_inv home s" "v \<in> homed home c"
  shows "\<exists>s'. launch_vcpu v s = Some s' \<and> guest_inv home s' \<and> v \<in> iorr_runq (homed home) c s'
    \<and> (is_blocked s v \<longrightarrow> need_reschedule s' c)"
proof -
  let ?u = "vcpu_set_gpreg v CPU_REG_A0 (of_nat (vcpu_pcpu_id (vcpus s v))) (vcpu_set_state v VCPU_RUNNING s)"
  have f: "guest_frame s ?u" using guest_frame_trans [OF vcpu_set_state_frame vcpu_set_gpreg_frame] .
  have i: "guest_inv home ?u" by (rule guest_frame_inv [OF f assms(1)])
  obtain s' where s': "wake_thread sched_iorr v ?u = Some s'" "sched_inv (iorr_inv (homed home)) (iorr_runq (homed home)) (homed home) s'"
    "iorr_runq (homed home) c s' = insert v (iorr_runq (homed home) c ?u)" "is_blocked ?u v \<longrightarrow> need_reschedule s' c"
    using guest_sched.wake_thread_ok [OF _ assms(2), of ?u] i by (auto simp: event_inv_def)
  have "sched_events s' = sched_events ?u"
    using wake_thread_events [OF guest_sched.framed s'(1)] .
  hence "guest_inv home s'" using i s'(2) by (simp add: event_inv_def events_ok_def)
  thus ?thesis using s' guest_frameD(3) [OF f] by (auto simp: launch_vcpu_def is_blocked_def Let_def)
qed

end
