(* ===== verification/Vmexit.thy ===== *)
theory Vmexit
  imports Vm
begin

text \<open>
  What happens when a guest exits: register emulation (\<open>arch/riscv/guest/vcsr.c\<close>),
  hypercalls (\<open>vmcall.c\<close>), stage-2 faults (\<open>vio.c\<close>), the dispatch of exits
  (\<open>vmexit.c\<close>).

  The parameters are code outside the C sources or other parts of the system:
  \<open>dispatch\<close> services physical interrupts, \<open>handler\<close> calls registered MMIO
  handlers, and \<open>away\<close> is what runs while the vCPU waits.
\<close>

subsection \<open>Emulated registers\<close>

definition csr_slot :: "u32 \<Rightarrow> nat" where
  "csr_slot r = unat (drop_bit 3 (r AND 0x1FFF))"

definition enable_csr_interception :: "u32 \<Rightarrow> bool \<Rightarrow> bool \<Rightarrow> (nat \<Rightarrow> u8) \<Rightarrow> nat \<Rightarrow> u8" where
  "enable_csr_interception r rd wr bm =
    (if r \<le> 0x1FFF \<or> (r \<ge> 0xc0000000 \<and> r \<le> 0xc0001fff)
     then
       let off = (if r AND 0xc0000000 \<noteq> 0 then 1024 else 0);
           csr_bit = push_bit (unat (r AND 0x7)) 1 :: u8;
           i = off + csr_slot r; j = 2048 + off + csr_slot r;
           bm = bm(i := if rd then bm i OR csr_bit else bm i AND NOT csr_bit)
       in bm(j := if wr then bm j OR csr_bit else bm j AND NOT csr_bit)
     else bm)"

definition mtrr_csrs :: "u32 list" where
  "mtrr_csrs = CSR_MTRR_CAP # replicate 12 0"

definition unsupported_csrs :: "u32 list" where
  "unsupported_csrs = replicate 111 0"

definition init_csr_emulation :: "addr \<Rightarrow> 'a guest_state_scheme \<Rightarrow> 'a guest_state_scheme" where
  "init_csr_emulation v s =
    upd_vcpu v (\<lambda>c. c\<lparr>csr_bitmap := fold (\<lambda>r. enable_csr_interception r True True)
      (emulated_guest_csrs @ mtrr_csrs @ unsupported_csrs) (csr_bitmap c)\<rparr>) s"

definition rdcsr_vmexit_handler :: "addr \<Rightarrow> 'a guest_state_scheme \<Rightarrow> int \<times> 'a guest_state_scheme" where
  "rdcsr_vmexit_handler v s =
    (let r = ucast (vcpu_get_gpreg s v CPU_REG_A0) :: u32; m = vcpu_vclint s v;
         (err, x) = (if r = CSR_TSC_DEADLINE then (0, vclint_get_tsc_deadline_csr m)
                     else if r = CSR_MTRR_CAP then (if \<not> vm_hide_mtrr s (vcpu_vm (vcpus s v)) then (0, 0) else (- EACCES, 0))
                     else if r = CSR_APIC_BASE then (0, vclint_get_clintbase s m)
                     else (- EACCES, 0));
         s = vcpu_set_gpreg v CPU_REG_A0 (x AND 0xffffffff) s
     in (err, vcpu_set_gpreg v CPU_REG_A2 (drop_bit 32 x) s))"

definition wrcsr_vmexit_handler :: "addr \<Rightarrow> 'a guest_state_scheme \<Rightarrow> (int \<times> 'a guest_state_scheme) option" where
  "wrcsr_vmexit_handler v s =
    (let r = ucast (vcpu_get_gpreg s v CPU_REG_A0) :: u32;
         x = push_bit 32 (vcpu_get_gpreg s v CPU_REG_A1) OR vcpu_get_gpreg s v CPU_REG_A2
     in if r = CSR_TSC_DEADLINE then map_option (Pair 0) (vclint_set_tsc_deadline_csr (vcpu_vclint s v) 0 x s)
        else Some (- EACCES, s))"

subsection \<open>Hypercalls\<close>

text \<open>The identifiers \<open>BASE_HC_ID(HC_ID, n)\<close>.\<close>

definition hc_id :: "u64 \<Rightarrow> u64" where "hc_id n = 0x80000000 OR n"

definition HC_GET_API_VERSION :: u64 where "HC_GET_API_VERSION = hc_id 0x00"
definition HC_SET_CALLBACK_VECTOR :: u64 where "HC_SET_CALLBACK_VECTOR = hc_id 0x02"
definition HC_CREATE_VM :: u64 where "HC_CREATE_VM = hc_id 0x10"
definition HC_DESTROY_VM :: u64 where "HC_DESTROY_VM = hc_id 0x11"
definition HC_START_VM :: u64 where "HC_START_VM = hc_id 0x12"
definition HC_PAUSE_VM :: u64 where "HC_PAUSE_VM = hc_id 0x13"
definition HC_CREATE_VCPU :: u64 where "HC_CREATE_VCPU = hc_id 0x14"
definition HC_RESET_VM :: u64 where "HC_RESET_VM = hc_id 0x15"
definition HC_SET_VCPU_REGS :: u64 where "HC_SET_VCPU_REGS = hc_id 0x16"
definition HC_VM_SET_MEMORY_REGIONS :: u64 where "HC_VM_SET_MEMORY_REGIONS = hc_id 0x42"
definition HC_VM_GPA2HPA :: u64 where "HC_VM_GPA2HPA = hc_id 0x41"
definition HC_VM_PCI_MSIX_REMAP :: u64 where "HC_VM_PCI_MSIX_REMAP = hc_id 0x52"
definition HC_INITIALIZE_TRUSTY :: u64 where "HC_INITIALIZE_TRUSTY = hc_id 0x70"
definition HC_WORLD_SWITCH :: u64 where "HC_WORLD_SWITCH = hc_id 0x71"
definition HC_SAVE_RESTORE_SWORLD_CTX :: u64 where "HC_SAVE_RESTORE_SWORLD_CTX = hc_id 0x72"

text \<open>
  The hypercalls that only act on a valid post-launched machine, in the order of the
  switch: destroy, start, reset, pause, set registers, IRQ line, MSI, request
  buffer, request finished, write protection, assign and deassign PCI device,
  assign MMIO device, set and reset device interrupt.
\<close>

definition guarded_hypercalls :: "u64 list" where
  "guarded_hypercalls = [HC_DESTROY_VM, HC_START_VM, HC_RESET_VM, HC_PAUSE_VM, HC_SET_VCPU_REGS, hc_id 0x25, hc_id 0x23,
     hc_id 0x30, hc_id 0x31, hc_id 0x43, hc_id 0x55, hc_id 0x56, hc_id 0x57, hc_id 0x53, hc_id 0x54]"

text \<open>On RISC-V each \<open>hcall_\<close> function is an inline stub that returns -1.\<close>

definition hcall_stub :: int where "hcall_stub = -1"

definition rel_vmid_2_vmid :: "u16 \<Rightarrow> u16 \<Rightarrow> u16" where
  "rel_vmid_2_vmid sos_vmid rel_vmid = sos_vmid + rel_vmid"

definition dispatch_sos_hypercall :: "addr \<Rightarrow> u64 \<Rightarrow> 'a guest_state_scheme \<Rightarrow> int \<times> 'a guest_state_scheme" where
  "dispatch_sos_hypercall v hypcall_id s =
    (let sos = vcpu_vm (vcpus s v);
         vid = unat (rel_vmid_2_vmid (of_nat (vmid (vms s sos))) (ucast (vcpu_get_gpreg s v CPU_REG_A0)));
         s = (if vid < CONFIG_MAX_VM_NUM \<and> hypcall_id = HC_CREATE_VM then upd_vm vid (\<lambda>r. r\<lparr>vmid := vid\<rparr>) s else s)
     in if hypcall_id = HC_GET_API_VERSION \<or> hypcall_id = HC_SET_CALLBACK_VECTOR \<or> hypcall_id = HC_CREATE_VM
        then (hcall_stub, s)
        else if hypcall_id \<in> set guarded_hypercalls
        then (if is_valid_postlaunched_vmid s vid then hcall_stub else -1, s)
        else if hypcall_id = HC_CREATE_VCPU then (0, s)
        else if hypcall_id = HC_VM_SET_MEMORY_REGIONS then (hcall_stub, s)
        else if hypcall_id = HC_VM_PCI_MSIX_REMAP then (0, s)
        else if hypcall_id = HC_VM_GPA2HPA
        then (if vid < CONFIG_MAX_VM_NUM \<and> \<not> is_prelaunched_vm s vid then hcall_stub else -1, s)
        else (-1, s))"

text \<open>\<open>guest_cpuid\<close> is empty, so the registers are written back as they were read.\<close>

definition ecall_vmexit_handler :: "addr \<Rightarrow> 'a guest_state_scheme \<Rightarrow> int \<times> 'a guest_state_scheme" where
  "ecall_vmexit_handler v s =
    (let a = vcpu_get_gpreg s v CPU_REG_A0; b = vcpu_get_gpreg s v CPU_REG_A1;
         c = vcpu_get_gpreg s v CPU_REG_A2; d = vcpu_get_gpreg s v 13;
         s = vcpu_set_gpreg v CPU_REG_A0 a s; s = vcpu_set_gpreg v CPU_REG_A1 b s; s = vcpu_set_gpreg v CPU_REG_A2 c s
     in (0, vcpu_set_gpreg v 13 d s))"

definition VMCALL_TYPE_HYPERCALL :: u64 where "VMCALL_TYPE_HYPERCALL = 0x0A000000"

definition vmcall_vmexit_handler :: "addr \<Rightarrow> 'a guest_state_scheme \<Rightarrow> int \<times> 'a guest_state_scheme" where
  "vmcall_vmexit_handler v s =
    (if vcpu_get_gpreg s v CPU_REG_A7 \<noteq> VMCALL_TYPE_HYPERCALL then ecall_vmexit_handler v s
     else
       let hypcall_id = vcpu_get_gpreg s v CPU_REG_A6;
           (ret, s) =
             (if hypcall_id = HC_WORLD_SWITCH \<or> hypcall_id = HC_INITIALIZE_TRUSTY \<or> hypcall_id = HC_SAVE_RESTORE_SWORLD_CTX
              then (- ENODEV, vcpu_inject_ud v s)
              else if is_service_vm (vcpu_vm (vcpus s v)) then dispatch_sos_hypercall v hypcall_id s
              else (- ENODEV, vcpu_inject_ud v s));
           s = (if ret \<noteq> - EACCES \<and> ret \<noteq> - ENODEV then vcpu_set_gpreg v CPU_REG_A0 (word_of_int ret) s else s)
       in (0, s))"

subsection \<open>Stage-2 faults\<close>

definition HX_EXIT_PF_GUEST_LOAD :: nat where "HX_EXIT_PF_GUEST_LOAD = 0x15"
definition HX_EXIT_PF_GUEST_STORE :: nat where "HX_EXIT_PF_GUEST_STORE = 0x17"

definition s2pt_violation_vmexit_handler ::
  "'a mmio_fn \<Rightarrow> ('a guest_state_scheme \<Rightarrow> 'a guest_state_scheme option) \<Rightarrow> addr \<Rightarrow>
    'a guest_state_scheme \<Rightarrow> (int \<times> 'a guest_state_scheme) option" where
  "s2pt_violation_vmexit_handler handler away v s =
    (let exit_qual = exit_qualification (vcpus s v); gpa = ctx_word (vcpus s v) REG_TVAL;
         s = upd_vcpu v (\<lambda>c. c\<lparr>req := (req c)\<lparr>io_type := ACRN_IOREQ_TYPE_MMIO\<rparr>\<rparr>) s
     in if exit_qual \<noteq> of_nat HX_EXIT_PF_GUEST_STORE \<and> exit_qual \<noteq> of_nat HX_EXIT_PF_GUEST_LOAD then Some (-1, s)
        else
          let s = (if exit_qual = of_nat HX_EXIT_PF_GUEST_STORE
                   then upd_req v (\<lambda>r. r\<lparr>direction := ACRN_IOREQ_DIR_WRITE, req_value := 0\<rparr>) s
                   else upd_req v (\<lambda>r. r\<lparr>direction := ACRN_IOREQ_DIR_READ\<rparr>) s);
              s = upd_req v (\<lambda>r. r\<lparr>req_address := gpa\<rparr>) s;
              ret = decode_instruction v s
          in if ret > 0
             then
               let s = upd_req v (\<lambda>r. r\<lparr>req_size := word_of_int ret\<rparr>) s
               in if gpa > CLINT_MEM_ADDR \<and> gpa + word_of_int ret < CLINT_MEM_REGION then clint_access_vmexit_handler v s
                  else
                    let (status, s) = (if direction (reqs (req (vcpus s v))) = ACRN_IOREQ_DIR_WRITE
                                       then emulate_instruction v s else (0, s))
                    in if status = 0 then emulate_io handler away v s else Some (status, s)
             else Some (if ret = - EFAULT then 0 else -1, s))"

subsection \<open>Dispatch\<close>

datatype exit_fn = Undefined_exit | Unhandled_exit | External_interrupt_exit | Exception_exit | Vmcall_exit
  | Pf_exit | S2pt_violation_exit | Hlt_exit

definition unhandled_vmexit_handler :: "addr \<Rightarrow> 'a guest_state_scheme \<Rightarrow> int \<times> 'a guest_state_scheme" where
  "unhandled_vmexit_handler v s = (0, s)"

definition hlt_vmexit_handler ::
  "('a guest_state_scheme \<Rightarrow> 'a guest_state_scheme option) \<Rightarrow> addr \<Rightarrow>
    'a guest_state_scheme \<Rightarrow> (int \<times> 'a guest_state_scheme) option" where
  "hlt_vmexit_handler away v s =
    (if pending_req (vcpus s v) = 0 \<and> \<not> vclint_has_pending_intr s v
     then map_option (Pair 0) (wait_event sched_iorr guest_switch away (vcpu_event s v VCPU_EVENT_VIRTUAL_INTERRUPT) s)
     else Some (0, s))"

definition undefined_vmexit_handler :: "addr \<Rightarrow> 'a guest_state_scheme \<Rightarrow> int \<times> 'a guest_state_scheme" where
  "undefined_vmexit_handler v s = (0, vcpu_inject_ud v s)"

text \<open>The three page fault handlers only log.\<close>

definition pf_vmexit_handler :: "addr \<Rightarrow> 'a guest_state_scheme \<Rightarrow> int \<times> 'a guest_state_scheme" where
  "pf_vmexit_handler v s = (0, s)"

text \<open>
  The dispatch tables; an index that has no entry is a null handler.  In the
  second table reason 0xE has two initializers, of which the last counts.
\<close>

definition interrupt_dispatch_table :: "nat \<Rightarrow> exit_fn option" where
  "interrupt_dispatch_table = map_of
    [(0, Undefined_exit), (1, Unhandled_exit), (2, Undefined_exit), (3, Unhandled_exit), (5, Unhandled_exit),
     (6, Undefined_exit), (7, Unhandled_exit), (9, External_interrupt_exit), (0xA, Undefined_exit), (0xB, Unhandled_exit),
     (0x22, Unhandled_exit)]"

definition exception_dispatch_table :: "nat \<Rightarrow> exit_fn option" where
  "exception_dispatch_table = map_of
    [(0, Exception_exit), (1, Exception_exit), (2, Exception_exit), (3, Exception_exit), (4, Exception_exit),
     (6, Exception_exit), (7, Exception_exit), (8, Unhandled_exit), (9, Unhandled_exit), (0xA, Vmcall_exit),
     (0xB, Unhandled_exit), (0xC, Pf_exit), (0xD, Pf_exit), (0xF, Pf_exit), (0xE, Unhandled_exit),
     (0x14, S2pt_violation_exit), (0x15, S2pt_violation_exit), (0x16, Hlt_exit), (0x17, S2pt_violation_exit)]"

definition NR_HX_EXIT_REASONS :: nat where "NR_HX_EXIT_REASONS = 0x18"
definition NR_HX_EXIT_IRQ_REASONS :: nat where "NR_HX_EXIT_IRQ_REASONS = 0x23"

record 's exit_env =
  env_dispatch :: "'s \<Rightarrow> 's option"
  env_handler :: "nat \<Rightarrow> nat \<Rightarrow> io_reqs \<Rightarrow> 's \<Rightarrow> (int \<times> io_reqs \<times> 's) option"
  env_away :: "'s \<Rightarrow> 's option"

primrec call_exit_fn ::
  "'a guest_state_scheme exit_env \<Rightarrow> exit_fn \<Rightarrow> addr \<Rightarrow> 'a guest_state_scheme \<Rightarrow> (int \<times> 'a guest_state_scheme) option" where
  "call_exit_fn env Undefined_exit v s = Some (undefined_vmexit_handler v s)"
| "call_exit_fn env Unhandled_exit v s = Some (unhandled_vmexit_handler v s)"
| "call_exit_fn env External_interrupt_exit v s = external_interrupt_vmexit_handler (env_dispatch env) v s"
| "call_exit_fn env Exception_exit v s = Some (exception_vmexit_handler v s)"
| "call_exit_fn env Vmcall_exit v s = Some (vmcall_vmexit_handler v s)"
| "call_exit_fn env Pf_exit v s = Some (pf_vmexit_handler v s)"
| "call_exit_fn env S2pt_violation_exit v s = s2pt_violation_vmexit_handler (env_handler env) (env_away env) v s"
| "call_exit_fn env Hlt_exit v s = hlt_vmexit_handler (env_away env) v s"

definition vmexit_handler ::
  "'a guest_state_scheme exit_env \<Rightarrow> addr \<Rightarrow> 'a guest_state_scheme \<Rightarrow> (int \<times> 'a guest_state_scheme) option" where
  "vmexit_handler env v s =
    (if get_pcpu_id s \<noteq> pcpuid_from_vcpu s v then Some (- EINVAL, s)
     else
       let reason = unat (ucast (exit_reason (vcpus s v) AND 0xFFFFFFFF) :: u16);
           irq = (exit_reason (vcpus s v) AND 0x8000000000000000 \<noteq> 0)
       in if (\<not> irq \<and> reason \<ge> NR_HX_EXIT_REASONS) \<or> (irq \<and> reason \<ge> NR_HX_EXIT_IRQ_REASONS) then Some (- EINVAL, s)
          else do {
            let s = upd_vcpu v (\<lambda>c. c\<lparr>exit_qualification := of_nat reason\<rparr>) s;
            f \<leftarrow> (if irq then interrupt_dispatch_table else exception_dispatch_table) reason;
            call_exit_fn env f v s
          })"

subsection \<open>Exit reasons\<close>

lemma exit_reason_bits:
  assumes "n < 2 ^ 16"
  shows "unat (ucast (of_nat n AND 0xFFFFFFFF :: u64) :: u16) = n" "of_nat n AND 0x8000000000000000 = (0 :: u64)"
proof -
  have m: "n AND 0xFFFFFFFF = take_bit 32 n" "n AND 0xFFFF = take_bit 16 n" by (simp_all add: take_bit_eq_mask mask_eq_exp_minus_1)
  have "n AND 0xFFFFFFFF = n" "n AND 0xFFFF = n" unfolding m using assms by (simp_all add: take_bit_nat_eq_self)
  moreover have "take_bit 64 n = n" "take_bit 16 n = n" using assms by (simp_all add: take_bit_nat_eq_self)
  ultimately show "unat (ucast (of_nat n AND 0xFFFFFFFF :: u64) :: u16) = n"
    by (simp add: unsigned_ucast_eq unsigned_and_eq unsigned_of_nat)
  have "\<not> bit n 63" using assms by (simp add: bit_iff_odd)
  hence "\<not> bit (of_nat n :: u64) 63" by (simp add: bit_of_nat_iff)
  hence "of_nat n AND 2 ^ 63 = (0 :: u64)" unfolding and_exp_eq_0_iff_not_bit .
  thus "of_nat n AND 0x8000000000000000 = (0 :: u64)" by simp
qed

end
