(* ===== verification/Guest_Inv.thy ===== *)
theory Guest_Inv
  imports Vm
begin

text \<open>
  The invariant under which vCPU threads run, and that the operations of
  scheduler, timers, events and vCPUs keep it.

  \<open>N\<close> is the set of the addresses of all timers and timer list heads, \<open>home\<close> the
  hart of each vCPU thread.  Beside the invariant of scheduler and events, the
  links of timers stay among timers, and threads are switched in by loading
  their registers.  \<open>others v\<close> are the saved registers of all vCPUs but \<open>v\<close>; a
  predicate \<open>P\<close> on them is carried along, to state what the operations of \<open>v\<close> do
  to the registers of other vCPUs.
\<close>

subsection \<open>The invariant\<close>

definition links_closed :: "addr set \<Rightarrow> 'a list_heap_scheme \<Rightarrow> bool" where
  "links_closed N s \<longleftrightarrow> (\<forall>a \<in> N. lnext s a \<in> N \<and> lprev s a \<in> N)"

definition others :: "addr \<Rightarrow> 'a guest_state_scheme \<Rightarrow> addr \<Rightarrow> nat \<Rightarrow> u64" where
  "others v s = (\<lambda>w. if w = v then (\<lambda>_. 0) else contexts (vcpus s w))"

definition vm_sys :: "(addr \<Rightarrow> nat option) \<Rightarrow> addr set \<Rightarrow> 'a guest_state_scheme \<Rightarrow> bool" where
  "vm_sys home N s \<longleftrightarrow> guest_timer_inv home N s \<and> links_closed N s \<and> (\<forall>c. timer_list s c \<in> N) \<and>
    (\<forall>m. \<forall>i < NR_VTIMERS. vtimer s m i \<in> N) \<and> (\<forall>t. switch_in (threads s t) \<noteq> Some CONTEXT_SWITCH_OUT)"

text \<open>The thread of \<open>v\<close> has the hart, or something else has.\<close>

definition vm_run ::
  "(addr \<Rightarrow> nat option) \<Rightarrow> addr set \<Rightarrow> addr \<Rightarrow> ((addr \<Rightarrow> nat \<Rightarrow> u64) \<Rightarrow> bool) \<Rightarrow> 'a guest_state_scheme \<Rightarrow> bool" where
  "vm_run home N v P s \<longleftrightarrow> vm_sys home N s \<and> P (others v s) \<and> v \<in> homed home (pcpu_id s) \<and>
    curr_obj (sched_ctl s (pcpu_id s)) = v"

definition vm_off ::
  "(addr \<Rightarrow> nat option) \<Rightarrow> addr set \<Rightarrow> addr \<Rightarrow> ((addr \<Rightarrow> nat \<Rightarrow> u64) \<Rightarrow> bool) \<Rightarrow> 'a guest_state_scheme \<Rightarrow> bool" where
  "vm_off home N v P s \<longleftrightarrow> vm_sys home N s \<and> P (others v s)"

subsection \<open>Steps outside the timers\<close>

definition sys_step :: "addr set \<Rightarrow> addr \<Rightarrow> 'a guest_state_scheme \<Rightarrow> 'a guest_state_scheme \<Rightarrow> bool" where
  "sys_step N v s s' \<longleftrightarrow> timers_kept N s s' \<and> iorr_runqueue s' = iorr_runqueue s \<and> vtimer s' = vtimer s \<and>
    others v s' = others v s \<and> (\<forall>t. switch_in (threads s' t) = switch_in (threads s t))"

lemma sys_step_refl [simp]: "sys_step N v s s"
  by (simp add: sys_step_def timers_kept_def)

lemma sys_step_trans: "sys_step N v s s' \<Longrightarrow> sys_step N v s' s'' \<Longrightarrow> sys_step N v s s''"
  by (auto simp: sys_step_def intro: timers_kept_trans)

lemma sys_step_sys:
  assumes "sys_step N v s s'" "vm_sys home N s" "guest_inv home s'"
  shows "vm_sys home N s'"
  using assms by (auto simp: sys_step_def vm_sys_def guest_timer_inv_def timers_kept_def links_closed_def)

lemma sys_step_off:
  assumes "sys_step N v s s'" "vm_off home N v P s" "guest_inv home s'"
  shows "vm_off home N v P s'"
  using assms sys_step_sys [OF assms(1)] by (auto simp: vm_off_def sys_step_def)

lemma vm_sys_inv: "vm_sys home N s \<Longrightarrow> guest_inv home s"
  by (simp add: vm_sys_def guest_timer_inv_def)

text \<open>Steps of \<open>v\<close> on the guests' part of the state, and on \<open>sstatus\<close>.\<close>

definition local_step :: "addr \<Rightarrow> 'a guest_state_scheme \<Rightarrow> 'a guest_state_scheme \<Rightarrow> bool" where
  "local_step v s s' \<longleftrightarrow> guest_frame s (s'\<lparr>sstatus := sstatus s\<rparr>) \<and> vtimer s' = vtimer s \<and> others v s' = others v s"

lemma local_step_refl [simp]: "local_step v s s"
  by (simp add: local_step_def)

lemma local_step_trans: "local_step v s s' \<Longrightarrow> local_step v s' s'' \<Longrightarrow> local_step v s s''"
  by (simp add: local_step_def guest_frame_def iorr_state.truncate_def)

lemma local_step_sys_step: "local_step v s s' \<Longrightarrow> sys_step N v s s'"
  using guest_frameD [of s "s'\<lparr>sstatus := sstatus s\<rparr>"] by (simp add: sys_step_def local_step_def timers_kept_def)

lemma local_step_inv:
  assumes "local_step v s s'" "guest_inv home s" shows "guest_inv home s'"
proof -
  have "guest_inv home (s'\<lparr>sstatus := sstatus s\<rparr>)"
    using guest_frame_inv [OF _ assms(2)] assms(1) by (simp add: local_step_def)
  from guest_sched.sched_inv_sstatus(1) [of home "s'\<lparr>sstatus := sstatus s\<rparr>" "sstatus s'"] this
  show ?thesis by (simp add: event_inv_def events_ok_def)
qed

lemma local_step_off: "local_step v s s' \<Longrightarrow> vm_off home N v P s \<Longrightarrow> vm_off home N v P s'"
  using sys_step_off [OF local_step_sys_step] local_step_inv vm_sys_inv by (metis vm_off_def)

lemma local_step_run:
  assumes "local_step v s s'" "vm_run home N v P s" shows "vm_run home N v P s'"
  using local_step_off [OF assms(1), of home N P] assms guest_frameD(7,14) [of s "s'\<lparr>sstatus := sstatus s\<rparr>"]
  by (simp add: vm_run_def vm_off_def local_step_def)

subsection \<open>Scheduler steps\<close>

lemma fw_step:
  fixes s s' :: "'a guest_state_scheme"
  assumes "policy_same s s'" "\<And>t. switch_in (threads s' t) = switch_in (threads s t)"
  shows "sys_step N v s s'"
proof -
  have "iorr_runqueue s' = iorr_runqueue s" "vtimer s' = vtimer s" "vcpus s' = vcpus s"
    using assms(1) by (cases s; cases s'; simp add: policy_same_def)+
  thus ?thesis using assms by (auto simp: sys_step_def others_def policy_same_timers_kept)
qed

lemma fw_steps [simp]:
  fixes s :: "'a guest_state_scheme"
  shows "sys_step N v s (upd_ctl c f s)" "sys_step N v s (set_thread_status t st s)"
    "sys_step N v s (set_be_blocking t b s)" "sys_step N v s (make_reschedule_request c s)"
    "sys_step N v s (release_schedule_lock c x s)"
  by (rule fw_step, simp, simp add: set_thread_status_def set_be_blocking_def)+

lemma obtain_lock_step:
  fixes s :: "'a guest_state_scheme"
  assumes "obtain_schedule_lock c s = Some (x, s')"
  shows "policy_same s s'" "threads s' = threads s" "sys_step N v s s'"
proof -
  show "policy_same s s'" "threads s' = threads s"
    using assms by (auto simp: obtain_schedule_lock_def local_irq_save_def local_irq_disable_def bind_eq_Some_conv
        policy_same_def upd_ctl_def)
  thus "sys_step N v s s'" by (intro fw_step) simp_all
qed

text \<open>Run queue operations change links of the hart's threads only.\<close>

lemma queue_step:
  fixes s s' :: "'a guest_state_scheme"
  assumes "\<And>a. a \<in> N \<Longrightarrow> lnext s' a = lnext s a \<and> lprev s' a = lprev s a" "s' = s\<lparr>lnext := lnext s', lprev := lprev s'\<rparr>"
  shows "sys_step N v s s'"
proof -
  have "timers s' = timers s" "timer_list s' = timer_list s" "mtime_at s' = mtime_at s" "cpu_khz s' = cpu_khz s"
    "pcpu_id s' = pcpu_id s" "mtime_reads s' = mtime_reads s" "iorr_runqueue s' = iorr_runqueue s"
    "vtimer s' = vtimer s" "vcpus s' = vcpus s" "threads s' = threads s"
    by (subst assms(2), simp)+
  thus ?thesis using assms(1) by (simp add: sys_step_def timers_kept_def others_def cong: if_cong)
qed

lemma list_op_links:
  fixes s :: "'a guest_state_scheme"
  shows "list_add e l s = s\<lparr>lnext := lnext (list_add e l s), lprev := lprev (list_add e l s)\<rparr>"
    "list_add_tail e l s = s\<lparr>lnext := lnext (list_add_tail e l s), lprev := lprev (list_add_tail e l s)\<rparr>"
    "list_del_init e s = s\<lparr>lnext := lnext (list_del_init e s), lprev := lprev (list_del_init e s)\<rparr>"
  by (simp_all add: list_add_def list_add_tail_def list_del_init_def heap_simps)

lemma queue_ops_step:
  fixes s :: "'a guest_state_scheme"
  assumes rel: "iorr_rel thr s Q" and t: "t \<in> thr c" and N: "\<And>d. N \<inter> thr d = {}" "\<And>d. iorr_runqueue s d \<notin> N"
  shows "sys_step N v s (runqueue_add_head t s)" "sys_step N v s (runqueue_add_tail t s)"
    "sys_step N v s (runqueue_remove t s)"
proof -
  have a: "a \<notin> set (t # iorr_runqueue s c # Q c)" if "a \<in> N" for a
    using that N [of c] t iorr_relD(2) [OF rel, of c] by auto
  note d = iorr_relD(1) [OF rel, of c] and ctl = iorr_relD(4) [OF rel t]
  show "sys_step N v s (runqueue_add_head t s)"
    using list_add_head_links [OF d] a ctl by (auto simp: runqueue_add_head_def intro: queue_step list_op_links)
  show "sys_step N v s (runqueue_add_tail t s)"
    using list_add_tail_links [OF d] a ctl by (auto simp: runqueue_add_tail_def intro: queue_step list_op_links)
  show "sys_step N v s (runqueue_remove t s)"
  proof (cases "t \<in> set (Q c)")
    case True
    thus ?thesis using list_del_init_links [OF d True] a
      by (auto simp: runqueue_remove_def intro: queue_step list_op_links)
  next
    case False
    hence "unlinked s t" using rel t by (auto simp: iorr_rel_def)
    thus ?thesis by (simp add: runqueue_remove_def list_del_init_unlinked)
  qed
qed

lemma data_steps [simp]:
  fixes s :: "'a guest_state_scheme"
  shows "sys_step N v s (upd_iorr_data t f s)" "sys_step N v s (snd (get_tick s))"
  by (simp_all add: sys_step_def timers_kept_def upd_iorr_data_def get_tick_def others_def cong: if_cong)

lemma wake_thread_step:
  fixes s :: "'a guest_state_scheme"
  assumes inv: "iorr_inv thr s" and t: "t \<in> thr c" and r: "wake_thread sched_iorr t s = Some s'"
    and N: "\<And>d. N \<inter> thr d = {}" "\<And>d. iorr_runqueue s d \<notin> N"
  shows "sys_step N v s s'"
proof -
  let ?d = "thr_pcpu_id (threads s t)"
  obtain x s1 where s1: "obtain_schedule_lock ?d s = Some (x, s1)"
    and rest: "s' = release_schedule_lock ?d x (if is_blocked s1 t \<or> be_blocking (threads s1 t)
      then set_be_blocking t False (if is_blocked (runqueue_add_head t s1) t
        then make_reschedule_request ?d (set_thread_status t THREAD_STS_RUNNABLE (runqueue_add_head t s1))
        else runqueue_add_head t s1) else s1)"
    using r by (simp add: wake_thread_def sched_iorr_def sched_iorr_wake_def bind_eq_Some_conv Let_def cong: if_cong)
      (auto split: if_splits)
  obtain Q where Q: "iorr_rel thr s Q" using inv by (auto simp: iorr_inv_def)
  have "iorr_rel thr s1 Q" by (rule iorr_rel_upd [OF Q obtain_lock_step(1) [OF s1]])
  moreover have "iorr_runqueue s1 d \<notin> N" for d using N(2) obtain_lock_step(1) [OF s1] policy_same_runqueue by metis
  ultimately have q: "sys_step N v s1 (runqueue_add_head t s1)" using queue_ops_step(1) t N(1) by blast
  show ?thesis unfolding rest
    by (intro sys_step_trans [OF obtain_lock_step(3) [OF s1]] sys_step_trans [OF _ fw_steps(5)])
      (auto intro: sys_step_trans [OF _ fw_steps(3)] sys_step_trans [OF _ fw_steps(4)] sys_step_trans [OF _ fw_steps(2)] q)
qed

lemma sleep_thread_step:
  fixes s :: "'a guest_state_scheme"
  assumes inv: "iorr_inv thr s" and t: "t \<in> thr c" and r: "sleep_thread sched_iorr t s = Some s'"
    and N: "\<And>d. N \<inter> thr d = {}" "\<And>d. iorr_runqueue s d \<notin> N"
  shows "sys_step N v s s'"
proof -
  let ?d = "thr_pcpu_id (threads s t)"
  obtain x s1 where s1: "obtain_schedule_lock ?d s = Some (x, s1)"
    and rest: "s' = release_schedule_lock ?d x (if is_running (runqueue_remove t s1) t
      then set_be_blocking t True (make_reschedule_request ?d (runqueue_remove t s1))
      else set_thread_status t THREAD_STS_BLOCKED (runqueue_remove t s1))"
    using r by (auto simp: sleep_thread_def sched_iorr_def sched_iorr_sleep_def bind_eq_Some_conv Let_def)
  obtain Q where Q: "iorr_rel thr s Q" using inv by (auto simp: iorr_inv_def)
  have "iorr_rel thr s1 Q" by (rule iorr_rel_upd [OF Q obtain_lock_step(1) [OF s1]])
  moreover have "iorr_runqueue s1 d \<notin> N" for d using N(2) obtain_lock_step(1) [OF s1] policy_same_runqueue by metis
  ultimately have q: "sys_step N v s1 (runqueue_remove t s1)" using queue_ops_step(3) t N(1) by blast
  show ?thesis unfolding rest
    by (intro sys_step_trans [OF obtain_lock_step(3) [OF s1]] sys_step_trans [OF _ fw_steps(5)])
      (auto intro: sys_step_trans [OF _ fw_steps(3)] sys_step_trans [OF _ fw_steps(4)] sys_step_trans [OF _ fw_steps(2)] q)
qed

lemma requeue_step:
  fixes s :: "'a guest_state_scheme"
  assumes rel: "iorr_rel thr s Q" and ap: "threads_apart thr" and N: "\<And>d. N \<inter> thr d = {}" "\<And>d. iorr_runqueue s d \<notin> N"
    and cur: "cur \<in> insert (idle s c) (thr c)" "thr_pcpu_id (threads s cur) = c"
  shows "sys_step N v s (iorr_requeue now cur s)"
proof (cases "\<not> is_idle_thread s cur \<and> is_inqueue s cur")
  case True
  hence t: "cur \<in> thr c" using cur by (auto simp: is_idle_thread_def)
  define u where "u = upd_iorr_data cur (\<lambda>d. d\<lparr>left_cycles := left_cycles d - (now - last_cycles d)\<rparr>) s"
  define w where "w = (if sint (left_cycles (iorr_data u cur)) \<le> 0
    then upd_iorr_data cur (\<lambda>d. d\<lparr>left_cycles := left_cycles d + slice_cycles d\<rparr>) u else u)"
  have rw: "iorr_rel thr w Q" by (rule iorr_rel_cong [OF rel]) (auto simp: w_def u_def)
  have Nw: "iorr_runqueue w d \<notin> N" for d using N(2) by (simp add: w_def u_def)
  have sw: "sys_step N v s w"
    using sys_step_trans [OF data_steps(1) data_steps(1)] by (auto simp: w_def u_def)
  have "sys_step N v w (runqueue_remove cur w)" by (rule queue_ops_step [OF rw t N(1) Nw])
  moreover have "iorr_runqueue (runqueue_remove cur w) d \<notin> N" for d using Nw by (simp add: runqueue_remove_def)
  hence "sys_step N v (runqueue_remove cur w) (runqueue_add_tail cur (runqueue_remove cur w))"
    by (rule queue_ops_step(2) [OF iorr_remove [OF rw t ap] t N(1)])
  moreover have "iorr_requeue now cur s = runqueue_add_tail cur (runqueue_remove cur w)"
    using True by (simp add: iorr_requeue_def w_def u_def Let_def)
  ultimately show ?thesis using sys_step_trans [OF sw] sys_step_trans by metis
qed (auto simp: iorr_requeue_def)

lemma pick_next_step:
  fixes s :: "'a guest_state_scheme"
  assumes rel: "iorr_rel thr s Q" and ap: "threads_apart thr" and N: "\<And>d. N \<inter> thr d = {}" "\<And>d. iorr_runqueue s d \<notin> N"
    and cur: "curr_obj (sched_ctl s c) \<in> insert (idle s c) (thr c)" "thr_pcpu_id (threads s (curr_obj (sched_ctl s c))) = c"
    and r: "sched_iorr_pick_next c s = Some (nxt, s')"
  shows "sys_step N v s s'"
proof -
  define t where "t = snd (get_tick s)"
  define q where "q = iorr_requeue (fst (get_tick s)) (curr_obj (sched_ctl s c)) t"
  have "iorr_rel thr t Q" by (rule iorr_rel_cong [OF rel]) (simp_all add: t_def)
  hence "sys_step N v t q" unfolding q_def
    by (rule requeue_step [OF _ ap N(1)]) (use N(2) cur in \<open>simp_all add: t_def\<close>)
  moreover have "sys_step N v q s'" using r
    by (auto simp: sched_iorr_pick_next_eq cpu_ticks_def t_def q_def Let_def split_beta bind_eq_Some_conv
        intro: sys_step_trans [OF data_steps(1) data_steps(1)] split: if_splits)
  ultimately show ?thesis using sys_step_trans data_steps(2) by (metis t_def)
qed

lemma switch_step:
  fixes s :: "'a guest_state_scheme"
  assumes "run_switch guest_switch g t s = Some s'" "t = v \<or> g \<noteq> Some CONTEXT_SWITCH_OUT"
  shows "sys_step N v s s'"
proof -
  have save: "sys_step N v s (save_vmcs v s)"
    by (simp add: sys_step_def timers_kept_def others_def cong: if_cong) (subst save_vmcs_eq(1), simp add: upd_vcpu_def)+
  have load: "sys_step N v s (load_vmcs t s)"
    by (simp add: sys_step_def timers_kept_def others_def cong: if_cong) (subst load_vmcs_eq(1), simp)+
  show ?thesis using assms save load
    by (auto simp: run_switch_def guest_switch_def context_switch_out_def context_switch_in_def split: option.splits if_splits)
qed

text \<open>The switch itself, after the next thread is picked.\<close>

lemma switch_to_step:
  fixes s :: "'a guest_state_scheme"
  assumes s4: "run_switch guest_switch (switch_out (threads s v)) v s = Some s4"
    and s5: "run_switch guest_switch (switch_in (threads (set_be_blocking v False (set_thread_status v st s4)) nxt)) nxt
      (set_be_blocking v False (set_thread_status v st s4)) = Some s5"
    and sw: "\<forall>t. switch_in (threads s t) \<noteq> Some CONTEXT_SWITCH_OUT"
  shows "sys_step N v s (upd_ctl c (\<lambda>k. k\<lparr>curr_obj := nxt\<rparr>) (set_thread_status nxt THREAD_STS_RUNNING s5))"
proof -
  let ?t = "set_be_blocking v False (set_thread_status v st s4)"
  have "sys_step N v s s4" by (rule switch_step [OF s4]) simp
  hence t: "sys_step N v s ?t"
    by (intro sys_step_trans [OF _ fw_steps(3)] sys_step_trans [OF _ fw_steps(2)])
  hence "switch_in (threads ?t nxt) \<noteq> Some CONTEXT_SWITCH_OUT" using sw by (simp add: sys_step_def)
  hence "sys_step N v ?t s5" by (intro switch_step [OF s5]) simp
  thus ?thesis by (intro sys_step_trans [OF _ fw_steps(1)] sys_step_trans [OF _ fw_steps(2)] sys_step_trans [OF t])
qed

lemma schedule_cases:
  fixes s :: "'a guest_state_scheme"
  defines "c \<equiv> pcpu_id s" and "v \<equiv> curr_obj (sched_ctl s (pcpu_id s))"
  assumes r: "schedule sched_iorr guest_switch s = Some s'" and "v \<noteq> 0"
  obtains x s1 nxt s2 where "obtain_schedule_lock c s = Some (x, s1)" "sched_iorr_pick_next c s1 = Some (nxt, s2)"
    "v = nxt \<Longrightarrow> s' = release_schedule_lock c x
      (upd_ctl c (\<lambda>k. k\<lparr>ctl_flags := bitmap_clear_lock NEED_RESCHEDULE (ctl_flags k)\<rparr>) s2)"
    "\<And>s3. s3 = upd_ctl c (\<lambda>k. k\<lparr>ctl_flags := bitmap_clear_lock NEED_RESCHEDULE (ctl_flags k)\<rparr>) s2 \<Longrightarrow> v \<noteq> nxt \<Longrightarrow>
      \<exists>st s4 s5. run_switch guest_switch (switch_out (threads s3 v)) v s3 = Some s4
      \<and> run_switch guest_switch (switch_in (threads (set_be_blocking v False (set_thread_status v st s4)) nxt)) nxt
          (set_be_blocking v False (set_thread_status v st s4)) = Some s5
      \<and> s' = release_schedule_lock c x (upd_ctl c (\<lambda>k. k\<lparr>curr_obj := nxt\<rparr>) (set_thread_status nxt THREAD_STS_RUNNING s5))"
proof -
  obtain x s1 where s1: "obtain_schedule_lock c s = Some (x, s1)"
    using r by (cases "obtain_schedule_lock c s") (auto simp: schedule_def get_pcpu_id_def c_def Let_def)
  obtain nxt s2 where s2: "sched_iorr_pick_next c s1 = Some (nxt, s2)"
    using r s1 by (cases "sched_iorr_pick_next c s1") (auto simp: schedule_def sched_iorr_def get_pcpu_id_def c_def Let_def)
  note r' = r [unfolded schedule_def sched_iorr_def get_pcpu_id_def Let_def, folded c_def v_def, simplified, unfolded s1, simplified,
    unfolded s2, simplified]
  show ?thesis
  proof (rule that [OF s1 s2])
    show "s' = release_schedule_lock c x
      (upd_ctl c (\<lambda>k. k\<lparr>ctl_flags := bitmap_clear_lock NEED_RESCHEDULE (ctl_flags k)\<rparr>) s2)" if "v = nxt"
      using r' that by (simp add: v_def c_def)
  next
    fix s3 assume s3: "s3 = upd_ctl c (\<lambda>k. k\<lparr>ctl_flags := bitmap_clear_lock NEED_RESCHEDULE (ctl_flags k)\<rparr>) s2" and ne: "v \<noteq> nxt"
    have "Option.bind (run_switch guest_switch (switch_out (threads s3 v)) v s3) (\<lambda>s4.
        Option.bind (Some (set_be_blocking v False (set_thread_status v
          (if be_blocking (threads s4 v) then THREAD_STS_BLOCKED else THREAD_STS_RUNNABLE) s4)))
        (\<lambda>t. Option.bind (run_switch guest_switch (switch_in (threads t nxt)) nxt t) (\<lambda>s5. Some
          (release_schedule_lock c x (upd_ctl c (\<lambda>k. k\<lparr>curr_obj := nxt\<rparr>) (set_thread_status nxt THREAD_STS_RUNNING s5))))))
      = Some s'"
      using r' ne assms(4) by (simp add: v_def c_def s3 del: upd_ctl_fields)
    thus "\<exists>st s4 s5. run_switch guest_switch (switch_out (threads s3 v)) v s3 = Some s4
      \<and> run_switch guest_switch (switch_in (threads (set_be_blocking v False (set_thread_status v st s4)) nxt)) nxt
          (set_be_blocking v False (set_thread_status v st s4)) = Some s5
      \<and> s' = release_schedule_lock c x (upd_ctl c (\<lambda>k. k\<lparr>curr_obj := nxt\<rparr>) (set_thread_status nxt THREAD_STS_RUNNING s5))"
      by (fastforce simp: bind_eq_Some_conv)
  qed
qed

lemma vm_sysD:
  assumes "vm_sys home N s"
  shows "sched_inv (iorr_inv (homed home)) (iorr_runq (homed home)) (homed home) s"
    "sched_core (iorr_runq (homed home)) (homed home) s" "iorr_inv (homed home) s"
    "N \<inter> homed home d = {}" "iorr_runqueue s d \<notin> N" "switch_in (threads s t) \<noteq> Some CONTEXT_SWITCH_OUT"
  using assms by (auto simp: vm_sys_def guest_timer_inv_def event_inv_def sched_inv_def)

lemma schedule_step:
  fixes s :: "'a guest_state_scheme"
  assumes inv: "vm_sys home N s" and cur: "curr_obj (sched_ctl s (pcpu_id s)) = v"
    and r: "schedule sched_iorr guest_switch s = Some s'"
  shows "sys_step N v s s'"
proof -
  let ?c = "pcpu_id s"
  note core = vm_sysD(2) [OF inv]
  obtain Q where Q: "iorr_rel (homed home) s Q" using vm_sysD(3) [OF inv] by (auto simp: iorr_inv_def)
  have v: "v \<in> insert (idle s ?c) (homed home ?c)" using sched_core_curr(1) [OF core] cur by metis
  have vnz: "v \<noteq> 0" using v sched_core_idle(1) [OF core, of ?c] by (auto simp: homed_def)
  show ?thesis
  proof (rule schedule_cases [OF r], unfold cur)
    show "v \<noteq> 0" by (rule vnz)
    fix x s1 nxt s2
    assume s1: "obtain_schedule_lock ?c s = Some (x, s1)" and s2: "sched_iorr_pick_next ?c s1 = Some (nxt, s2)"
    let ?s3 = "upd_ctl ?c (\<lambda>k. k\<lparr>ctl_flags := bitmap_clear_lock NEED_RESCHEDULE (ctl_flags k)\<rparr>) s2"
    assume stay: "v = nxt \<Longrightarrow> s' = release_schedule_lock ?c x ?s3"
      and go: "\<And>s3. s3 = ?s3 \<Longrightarrow> v \<noteq> nxt \<Longrightarrow>
        \<exists>st s4 s5. run_switch guest_switch (switch_out (threads s3 v)) v s3 = Some s4
        \<and> run_switch guest_switch (switch_in (threads (set_be_blocking v False (set_thread_status v st s4)) nxt)) nxt
            (set_be_blocking v False (set_thread_status v st s4)) = Some s5
        \<and> s' = release_schedule_lock ?c x (upd_ctl ?c (\<lambda>k. k\<lparr>curr_obj := nxt\<rparr>) (set_thread_status nxt THREAD_STS_RUNNING s5))"
    note l = obtain_lock_step(1) [OF s1]
    have lf: "threads s1 = threads s" "idle s1 = idle s" "iorr_runqueue s1 = iorr_runqueue s" "curr_obj (sched_ctl s1 ?c) = v"
      using obtain_lock_step(2) [OF s1] l policy_same_runqueue [OF l] s1 cur
      by (auto simp: policy_same_def obtain_schedule_lock_def bind_eq_Some_conv local_irq_save_def local_irq_disable_def)
    have "sys_step N v s1 s2"
      by (rule pick_next_step [OF iorr_rel_upd [OF Q l] homed_apart vm_sysD(4) [OF inv] _ _ _ s2])
        (use v sched_core_home [OF core v] in \<open>simp_all add: lf vm_sysD(5) [OF inv]\<close>)
    hence st3: "sys_step N v s ?s3"
      by (intro sys_step_trans [OF _ fw_steps(1)] sys_step_trans [OF obtain_lock_step(3) [OF s1]])
    show "sys_step N v s s'"
    proof (cases "v = nxt")
      case True
      show ?thesis unfolding stay [OF True] by (rule sys_step_trans [OF st3 fw_steps(5)])
    next
      case False
      have "\<forall>t. switch_in (threads ?s3 t) \<noteq> Some CONTEXT_SWITCH_OUT"
        using st3 vm_sysD(6) [OF inv] by (simp add: sys_step_def)
      thus ?thesis using go [OF refl False] switch_to_step [of ?s3 v _ _ nxt _ N ?c]
        by (auto intro!: sys_step_trans [OF _ fw_steps(5)] sys_step_trans [OF st3])
    qed
  qed
qed

subsection \<open>The scheduler keeps the invariant\<close>

text \<open>\<open>vm_run\<close> without the invariant of scheduler and events.\<close>

definition vm_rest ::
  "(addr \<Rightarrow> nat option) \<Rightarrow> addr set \<Rightarrow> addr \<Rightarrow> ((addr \<Rightarrow> nat \<Rightarrow> u64) \<Rightarrow> bool) \<Rightarrow> 'a guest_state_scheme \<Rightarrow> bool" where
  "vm_rest home N v P s \<longleftrightarrow> (\<forall>d. N \<inter> homed home d = {} \<and> iorr_runqueue s d \<notin> N) \<and> links_closed N s \<and>
    (\<forall>c. timer_list s c \<in> N) \<and> (\<forall>m. \<forall>i < NR_VTIMERS. vtimer s m i \<in> N) \<and>
    (\<forall>t. switch_in (threads s t) \<noteq> Some CONTEXT_SWITCH_OUT) \<and> P (others v s) \<and> v \<in> homed home (pcpu_id s) \<and>
    curr_obj (sched_ctl s (pcpu_id s)) = v"

lemma vm_run_iff: "vm_run home N v P s \<longleftrightarrow> guest_inv home s \<and> vm_rest home N v P s"
  by (auto simp: vm_run_def vm_sys_def guest_timer_inv_def vm_rest_def)

lemma vm_rest_step:
  assumes "sys_step N v s s'" "vm_rest home N v P s" "curr_obj (sched_ctl s' (pcpu_id s)) = curr_obj (sched_ctl s (pcpu_id s))"
  shows "vm_rest home N v P s'"
  using assms by (auto simp: vm_rest_def sys_step_def timers_kept_def links_closed_def)

lemma vm_run_off: "vm_run home N v P s \<Longrightarrow> vm_off home N v P s"
  by (simp add: vm_run_def vm_off_def)

lemma schedule_off:
  assumes s: "vm_run home N v P s" and r: "schedule sched_iorr guest_switch s = Some s'"
  shows "vm_off home N v P s'"
proof -
  have inv: "guest_inv home s" and sys: "vm_sys home N s" "curr_obj (sched_ctl s (pcpu_id s)) = v"
    using s vm_sys_inv by (auto simp: vm_run_def)
  have "sched_inv (iorr_inv (homed home)) (iorr_runq (homed home)) (homed home) s'"
    using guest_sched.schedule_ok [of home s] inv r by (auto simp: event_inv_def)
  hence "guest_inv home s'" using inv schedule_events [OF guest_sched.framed r] by (simp add: event_inv_def events_ok_def)
  thus ?thesis using sys_step_off [OF schedule_step [OF sys r]] vm_run_off [OF s] by blast
qed

lemma wake_sleep_curr:
  "wake_thread sched_iorr t s = Some s' \<Longrightarrow> curr_obj (sched_ctl s' c) = curr_obj (sched_ctl s c)"
  "sleep_thread sched_iorr t s = Some s' \<Longrightarrow> curr_obj (sched_ctl s' c) = curr_obj (sched_ctl s c)"
  by (auto simp: wake_thread_def sleep_thread_def sched_iorr_def sched_iorr_wake_def sched_iorr_sleep_def bind_eq_Some_conv
      Let_def obtain_schedule_lock_def local_irq_save_def local_irq_disable_def set_be_blocking_def set_thread_status_def
      runqueue_add_head_def runqueue_remove_def list_add_def list_del_init_def heap_simps split: if_splits)

text \<open>\<open>vm_held\<close>: the invariant inside the critical section of an event.\<close>

definition vm_held ::
  "(addr \<Rightarrow> nat option) \<Rightarrow> addr set \<Rightarrow> addr \<Rightarrow> ((addr \<Rightarrow> nat \<Rightarrow> u64) \<Rightarrow> bool) \<Rightarrow> addr \<Rightarrow> 'a guest_state_scheme \<Rightarrow> bool" where
  "vm_held home N v P ev s \<longleftrightarrow>
    event_held (iorr_inv (homed home)) (iorr_runq (homed home)) (homed home) ev s \<and> vm_rest home N v P s"

lemma vm_heldD:
  assumes "vm_held home N v P ev s"
  shows "sched_inv (iorr_inv (homed home)) (iorr_runq (homed home)) (homed home) s" "iorr_inv (homed home) s"
    "N \<inter> homed home d = {}" "iorr_runqueue s d \<notin> N"
  using assms by (auto simp: vm_held_def event_held_def sched_inv_def vm_rest_def)

lemma vm_held_step:
  assumes "vm_held home N v P ev s" "sys_step N v s s'" "\<And>c. curr_obj (sched_ctl s' c) = curr_obj (sched_ctl s c)"
    "sched_inv (iorr_inv (homed home)) (iorr_runq (homed home)) (homed home) s'" "sched_events s' = sched_events s"
  shows "vm_held home N v P ev s'"
  using assms guest_sched.held_frame [of home ev s s'] vm_rest_step [OF assms(2), of home P] by (simp add: vm_held_def)

lemma wake_held:
  assumes s: "vm_held home N v P ev s" and t: "t \<in> homed home c" and r: "wake_thread sched_iorr t s = Some s'"
  shows "vm_held home N v P ev s'"
proof (rule vm_held_step [OF s])
  show "sys_step N v s s'" by (rule wake_thread_step [where thr = "homed home", OF vm_heldD(2) [OF s] t r])
      (use vm_heldD [OF s] in auto)
  show "sched_inv (iorr_inv (homed home)) (iorr_runq (homed home)) (homed home) s'"
    using guest_sched.wake_thread_ok [OF vm_heldD(1) [OF s] t] r by auto
qed (use wake_sleep_curr(1) [OF r] wake_thread_events [OF guest_sched.framed r] in auto)

lemma sleep_held:
  assumes s: "vm_held home N v P ev s" and t: "t \<in> homed home c" and r: "sleep_thread sched_iorr t s = Some s'"
  shows "vm_held home N v P ev s'"
proof (rule vm_held_step [OF s])
  show "sys_step N v s s'" by (rule sleep_thread_step [where thr = "homed home", OF vm_heldD(2) [OF s] t r])
      (use vm_heldD [OF s] in auto)
  show "sched_inv (iorr_inv (homed home)) (iorr_runq (homed home)) (homed home) s'"
    using guest_sched.sleep_thread_ok [OF vm_heldD(1) [OF s] t] r by auto
qed (use wake_sleep_curr(2) [OF r] sleep_thread_events [OF guest_sched.framed r] in auto)

text \<open>Taking and releasing the lock of an event, and updates in between.\<close>

lemma event_ops_step [simp]:
  fixes s :: "'a guest_state_scheme"
  shows "sys_step N v s (upd_event ev f s)" "sys_step N v s (s\<lparr>sstatus := x\<rparr>)" "sys_step N v s (event_release ev x s)"
  by (simp_all add: sys_step_def timers_kept_def upd_event_def event_release_def local_irq_restore_def others_def cong: if_cong)

lemma obtain_held:
  assumes s: "vm_run home N v P s" and r: "event_obtain ev s = Some (x, s')"
  shows "vm_held home N v P ev s'"
proof -
  have "event_held (iorr_inv (homed home)) (iorr_runq (homed home)) (homed home) ev s'"
    using guest_sched.event_obtain_held [of home s ev] s r by (auto simp: vm_run_iff)
  moreover have "\<exists>lk. s' = upd_event ev (\<lambda>e. e\<lparr>ev_lock := lk\<rparr>) (s\<lparr>sstatus := sstatus s'\<rparr>)"
    using r by (auto simp: event_obtain_def local_irq_save_def local_irq_disable_def bind_eq_Some_conv upd_event_def)
  then obtain lk where s': "s' = upd_event ev (\<lambda>e. e\<lparr>ev_lock := lk\<rparr>) (s\<lparr>sstatus := sstatus s'\<rparr>)" by blast
  have "sys_step N v s s'" by (subst s') (rule sys_step_trans [OF event_ops_step(2) event_ops_step(1)])
  moreover have "sched_ctl s' = sched_ctl s" by (subst s') (simp add: upd_event_def)
  ultimately show ?thesis using vm_rest_step [of N v s s' home P] s by (auto simp: vm_held_def vm_run_iff)
qed

lemma release_run: "vm_held home N v P ev s \<Longrightarrow> vm_run home N v P (event_release ev x s)"
  using guest_sched.event_release_held(1,4) [of home ev s x] vm_rest_step [of N v s "event_release ev x s" home P]
  by (auto simp: vm_held_def vm_run_iff)

lemma upd_held:
  assumes "vm_held home N v P ev s" "\<And>e. ev_lock (f e) = ev_lock e"
    "waiting_thread (f (sched_events s ev)) \<in> {0, v, waiting_thread (sched_events s ev)}"
  shows "vm_held home N v P ev (upd_event ev f s)"
proof -
  have "\<exists>c. w \<in> homed home c" if "w \<noteq> 0" "w = waiting_thread (f (sched_events s ev))" for w
    using that assms(1,3) guest_sched.held_waiter [of home ev s] by (auto simp: vm_held_def vm_rest_def)
  hence "event_held (iorr_inv (homed home)) (iorr_runq (homed home)) (homed home) ev (upd_event ev f s)"
    using guest_sched.held_upd [of home ev s f] assms(1,2) by (auto simp: vm_held_def)
  moreover have "sched_ctl (upd_event ev f s) = sched_ctl s" by (simp add: upd_event_def)
  ultimately show ?thesis using assms(1) vm_rest_step [of N v s "upd_event ev f s" home P] by (auto simp: vm_held_def)
qed

lemma reset_event_run:
  assumes "vm_run home N v P s" "reset_event ev s = Some s'" shows "vm_run home N v P s'"
  using assms by (auto simp: reset_event_def bind_eq_Some_conv intro!: release_run upd_held dest: obtain_held)

lemma signal_event_run:
  assumes s: "vm_run home N v P s" and r: "signal_event sched_iorr ev s = Some s'"
  shows "vm_run home N v P s'"
proof -
  obtain x s1 s2 where s1: "event_obtain ev s = Some (x, s1)" and s': "s' = event_release ev x s2"
    and s2: "(if waiting_thread (sched_events s1 ev) \<noteq> 0
      then wake_thread sched_iorr (waiting_thread (sched_events s1 ev)) (upd_event ev (\<lambda>e. e\<lparr>ev_set := True\<rparr>) s1)
      else Some (upd_event ev (\<lambda>e. e\<lparr>ev_set := True\<rparr>) s1)) = Some s2"
    using r by (auto simp: signal_event_def bind_eq_Some_conv upd_event_def Let_def cong: if_cong)
  have h: "vm_held home N v P ev s1" by (rule obtain_held [OF s s1])
  hence h': "vm_held home N v P ev (upd_event ev (\<lambda>e. e\<lparr>ev_set := True\<rparr>) s1)" by (rule upd_held) simp_all
  have "vm_held home N v P ev s2"
  proof (cases "waiting_thread (sched_events s1 ev) = 0")
    case False
    then obtain c where "waiting_thread (sched_events s1 ev) \<in> homed home c"
      using h guest_sched.held_waiter [of home ev s1] by (auto simp: vm_held_def)
    thus ?thesis using wake_held [OF h'] s2 False by simp
  qed (use s2 h' in simp)
  thus ?thesis unfolding s' by (rule release_run)
qed

text \<open>Waiting; what runs meanwhile gives the hart back to \<open>v\<close>.\<close>

definition away_ok ::
  "(addr \<Rightarrow> nat option) \<Rightarrow> addr set \<Rightarrow> addr \<Rightarrow> ((addr \<Rightarrow> nat \<Rightarrow> u64) \<Rightarrow> bool) \<Rightarrow>
    ('a guest_state_scheme \<Rightarrow> 'a guest_state_scheme option) \<Rightarrow> bool" where
  "away_ok home N v P away \<longleftrightarrow>
    (\<forall>s s'. away s = Some s' \<longrightarrow> vm_off home N v P s \<longrightarrow> vm_run home N v P s')"

lemma away_okD: "away_ok home N v P away \<Longrightarrow> away s = Some s' \<Longrightarrow> vm_off home N v P s \<Longrightarrow> vm_run home N v P s'"
  unfolding away_ok_def by blast

lemma wait_event_loop_held:
  fixes s :: "'a guest_state_scheme"
  assumes away: "away_ok home N v P away"
    and r: "wait_event_loop sched_iorr guest_switch away ev x s = Some r" and h: "vm_held home N v P ev s"
  shows "vm_held home N v P ev (snd r)"
proof -
  let ?Q = "\<lambda>(sc :: 'a guest_state_scheme acrn_scheduler) (sw :: 'a guest_state_scheme thread_fn) aw e (x :: u64)
    s (r :: u64 \<times> 'a guest_state_scheme). sc = sched_iorr \<longrightarrow> sw = guest_switch \<longrightarrow> aw = away \<longrightarrow> e = ev \<longrightarrow>
    vm_held home N v P ev s \<longrightarrow> vm_held home N v P ev (snd r)"
  have "?Q sched_iorr guest_switch away ev x s r"
  proof (rule wait_event_loop.raw_induct [where P = ?Q, OF _ r], intro impI)
    fix f sc sw aw e x s r
    assume IH: "\<And>sc sw aw e x s r. f sc sw aw e x s = Some r \<Longrightarrow> ?Q sc sw aw e x s r"
      and body: "(if \<not> ev_set (sched_events s e) \<and> waiting_thread (sched_events s e) \<noteq> 0
        then sleep_thread sc (waiting_thread (sched_events s e)) s \<bind> (\<lambda>s. schedule sc sw (event_release e x s) \<bind>
          (\<lambda>s. aw s \<bind> (\<lambda>s. event_obtain e s \<bind> (\<lambda>(x, s). f sc sw aw e x s)))) else Some (x, s)) = Some r"
      and eq: "sc = sched_iorr" "sw = guest_switch" "aw = away" "e = ev" and h: "vm_held home N v P ev s"
    let ?w = "waiting_thread (sched_events s ev)"
    show "vm_held home N v P ev (snd r)"
    proof (cases "\<not> ev_set (sched_events s ev) \<and> ?w \<noteq> 0")
      case True
      obtain s1 s2 s3 x' s4 where st: "sleep_thread sched_iorr ?w s = Some s1"
        "schedule sched_iorr guest_switch (event_release ev x s1) = Some s2" "away s2 = Some s3"
        "event_obtain ev s3 = Some (x', s4)" "f sched_iorr guest_switch away ev x' s4 = Some r"
        using body True eq by (auto simp: bind_eq_Some_conv)
      obtain c where "?w \<in> homed home c" using h True guest_sched.held_waiter [of home ev s] by (auto simp: vm_held_def)
      hence "vm_held home N v P ev s1" using sleep_held [OF h _ st(1)] by blast
      hence "vm_run home N v P s3" using away_okD [OF away st(3)] schedule_off [OF release_run st(2)] by blast
      hence "vm_held home N v P ev s4" using obtain_held st(4) by blast
      thus ?thesis using IH [OF st(5)] by simp
    qed (use body eq h in auto)
  qed
  thus ?thesis using h by simp
qed

lemma wait_event_run:
  assumes away: "away_ok home N v P away"
    and r: "wait_event sched_iorr guest_switch away ev s = Some s'" and s: "vm_run home N v P s"
  shows "vm_run home N v P s'"
proof -
  let ?w = "\<lambda>s. upd_event ev (\<lambda>e. e\<lparr>waiting_thread := sched_get_current s (get_pcpu_id s)\<rparr>) s"
  obtain x s1 y s2 where s1: "event_obtain ev s = Some (x, s1)"
    and s2: "wait_event_loop sched_iorr guest_switch away ev x (?w s1) = Some (y, s2)"
    and s': "s' = event_release ev y (upd_event ev (\<lambda>e. e\<lparr>ev_set := False, waiting_thread := 0\<rparr>) s2)"
    using r by (auto simp: wait_event_def bind_eq_Some_conv Let_def)
  have h: "vm_held home N v P ev s1" by (rule obtain_held [OF s s1])
  have "sched_get_current s1 (get_pcpu_id s1) = v"
    using h by (simp add: vm_held_def vm_rest_def sched_get_current_def get_pcpu_id_def)
  hence "vm_held home N v P ev (?w s1)" by (intro upd_held [OF h]) simp_all
  from wait_event_loop_held [OF away s2 this] have "vm_held home N v P ev s2" by simp
  thus ?thesis unfolding s' by (intro release_run upd_held) simp_all
qed

subsection \<open>Timers\<close>

text \<open>Timer operations touch timers only.\<close>

definition timer_step :: "addr set \<Rightarrow> 'a timer_state_scheme \<Rightarrow> 'a timer_state_scheme \<Rightarrow> bool" where
  "timer_step N s s' \<longleftrightarrow> (links_closed N s \<and> (\<forall>c. timer_list s c \<in> N) \<longrightarrow> timer_frame N s s' \<and> links_closed N s')"

lemma timer_step_trans: "timer_step N s s' \<Longrightarrow> timer_step N s' s'' \<Longrightarrow> timer_step N s s''"
  by (auto simp: timer_step_def timer_frame_def)

lemma timer_step_run:
  assumes "timer_step N s s'" "vm_run home N v P s" shows "vm_run home N v P s'"
proof -
  have f: "timer_frame N s s'" "links_closed N s'" using assms by (auto simp: timer_step_def vm_run_def vm_sys_def)
  have i: "guest_timer_inv home N s'" using timer_frame_guest [OF _ f(1)] assms(2) by (simp add: vm_run_def vm_sys_def)
  have "sched_ctl s' = sched_ctl s" "threads s' = threads s" "vtimer s' = vtimer s" "vcpus s' = vcpus s"
    "timer_list s' = timer_list s" "pcpu_id s' = pcpu_id s"
    using f(1) by (cases s; cases s'; simp add: timer_frame_def)+
  thus ?thesis using assms(2) f i by (simp add: vm_run_def vm_sys_def others_def cong: if_cong)
qed

lemma del_timer_step: "t \<in> N \<Longrightarrow> timer_step N s (del_timer t s)"
  unfolding del_timer_eq timer_step_def using timer_frame_list_del_init [of t N s]
  by (auto simp: links_closed_def list_del_init_def)

lemma upd_timer_step: "t \<in> N \<Longrightarrow> timer_step N s (upd_timer t f s)"
  using timer_frame_upd_timer [of t N s] by (simp add: timer_step_def links_closed_def)

lemma local_add_timer_pos_closed:
  assumes "local_add_timer_pos s l tick prev pos = Some p" "links_closed N s" "prev \<in> N" "pos \<in> N"
  shows "p \<in> N"
proof -
  let ?Q = "\<lambda>s l tick prev pos p. links_closed N s \<longrightarrow> prev \<in> N \<longrightarrow> pos \<in> N \<longrightarrow> p \<in> N"
  have "?Q s l tick prev pos p"
    by (rule local_add_timer_pos.raw_induct [where P = ?Q, OF _ assms(1)])
      (auto simp: links_closed_def split: if_splits)
  thus ?thesis using assms by blast
qed

lemma add_timer_step:
  assumes r: "add_timer t s = Some (x, s')" and t: "t \<in> N" shows "timer_step N s s'"
proof (cases "t \<noteq> 0 \<and> timer_armed s t")
  case False
  thus ?thesis using r add_timer_rejects [of t s] by (auto simp: timer_step_def)
next
  case True
  let ?l = "timer_list s (pcpu_id s)" and ?c = "local_irq_disable (clamp_period t s)"
  obtain h s1 where s1: "local_add_timer ?l t ?c = Some (h, s1)"
    and s': "s' = local_irq_restore (sstatus s) (if h then update_physical_timer ?l s1 else s1)"
    using r True by (auto simp: add_timer_eq bind_eq_Some_conv)
  obtain p where p: "local_add_timer_pos ?c ?l (timeout (timers ?c t)) ?l (lnext ?c ?l) = Some p" "s1 = list_add t p ?c"
    using s1 by (auto simp: local_add_timer_def bind_eq_Some_conv)
  have links: "lnext (local_irq_disable (clamp_period x s)) = lnext s" "lprev (local_irq_disable (clamp_period x s)) = lprev s" for x
    by (simp_all add: local_irq_disable_def clamp_period_def)
  show ?thesis unfolding timer_step_def
  proof (intro impI conjI; elim conjE)
    assume cl: "links_closed N s" and l: "\<forall>c. timer_list s c \<in> N"
    have pN: "p \<in> N" by (rule local_add_timer_pos_closed [OF p(1)]) (use cl l in \<open>simp_all add: links_closed_def links\<close>)
    have lc: "links_closed N s1" using cl pN t by (auto simp: p(2) links_closed_def links list_add_def)
    thus "links_closed N s'" by (auto simp: s' links_closed_def local_irq_restore_def update_physical_timer_def)
    have c: "timer_frame N (s\<lparr>sstatus := sstatus ?c\<rparr>) ?c"
      using t by (auto simp: local_irq_disable_def clamp_period_def timer_frame_def upd_timer_def)
    have "timer_frame N ?c s1" unfolding p(2) by (rule timer_frame_list_add) (use pN cl t in \<open>auto simp: links links_closed_def\<close>)
    hence "timer_frame N (s\<lparr>sstatus := sstatus ?c\<rparr>) (if h then update_physical_timer ?l s1 else s1)"
      by (auto intro: timer_frame_trans [OF c] timer_frame_trans [OF _ timer_frame_update_physical_timer])
    thus "timer_frame N s s'" unfolding s' by (simp add: timer_frame_def local_irq_restore_def)
  qed
qed

end
