(* ===== verification/Hv_Main.thy ===== *)
theory Hv_Main
  imports Vmexit Guest_Inv
begin

text \<open>
  The threads of the hypervisor, \<open>common/hv_main.c\<close>: the loop of a vCPU thread, which
  enters the guest and handles its exits, and the idle thread.  \<open>vmrun\<close> is the
  assembly that enters the guest.  The lemmas show that a vCPU thread keeps the
  invariant of the system whatever its guest does.
\<close>

subsection \<open>The threads\<close>

text \<open>One round of the loop of \<open>vcpu_thread\<close>; \<open>continue\<close> ends it.\<close>

definition vcpu_round ::
  "'a guest_state_scheme exit_env \<Rightarrow> (addr \<Rightarrow> 'a guest_state_scheme \<Rightarrow> (int \<times> 'a guest_state_scheme) option) \<Rightarrow>
    addr \<Rightarrow> 'a guest_state_scheme \<Rightarrow> 'a guest_state_scheme option" where
  "vcpu_round env vmrun v s = do {
     s \<leftarrow> (if need_reschedule s (pcpuid_from_vcpu s v)
           then Option.bind (schedule sched_iorr guest_switch s) (env_away env) else Some s);
     (ret, s) \<leftarrow> acrn_handle_pending_request (env_away env) v s;
     if ret < 0 then zombie_vcpu v VCPU_ZOMBIE s
     else do {
       s \<leftarrow> reset_event (vcpu_event s v VCPU_EVENT_VIRTUAL_INTERRUPT) s;
       (ret, s) \<leftarrow> run_vcpu vmrun v s;
       if ret \<noteq> 0 then zombie_vcpu v VCPU_ZOMBIE s
       else do {
         (ret, s) \<leftarrow> vmexit_handler env v s;
         Some (if ret < 0 then vcpu_inject_gp v 0 s else s)
       }
     }
   }"

text \<open>The thread never returns; \<open>n\<close> rounds of it.\<close>

primrec vcpu_thread ::
  "'a guest_state_scheme exit_env \<Rightarrow> (addr \<Rightarrow> 'a guest_state_scheme \<Rightarrow> (int \<times> 'a guest_state_scheme) option) \<Rightarrow>
    nat \<Rightarrow> addr \<Rightarrow> 'a guest_state_scheme \<Rightarrow> 'a guest_state_scheme option" where
  "vcpu_thread env vmrun 0 v s = Some s"
| "vcpu_thread env vmrun (Suc n) v s = Option.bind (vcpu_round env vmrun v s) (vcpu_thread env vmrun n v)"

text \<open>The function pointer \<open>default_idle\<close>, and the priority of the idle thread.\<close>

definition DEFAULT_IDLE :: nat where "DEFAULT_IDLE = 7"
definition PRIO_IDLE :: u32 where "PRIO_IDLE = 0"

definition run_idle_thread :: "'a guest_state_scheme thread_fn \<Rightarrow> 'a guest_state_scheme \<Rightarrow> 'a guest_state_scheme option" where
  "run_idle_thread sw s =
    (let cpu = get_pcpu_id s; t = idle s cpu;
         s = upd_thread t (\<lambda>x. x\<lparr>thr_pcpu_id := cpu, thread_entry := Some DEFAULT_IDLE, switch_out := None, switch_in := None\<rparr>) s
     in do {
       s \<leftarrow> init_thread_data sched_iorr t
         \<lparr>prio = PRIO_IDLE, bvt_weight = 0, bvt_warp_value = 0, bvt_warp_limit = 0, bvt_unwarp_period = 0\<rparr> s;
       run_thread sw t s
     })"

definition need_offline :: "nat \<Rightarrow> bool" where "need_offline cpu = False"

definition need_shutdown_vm :: "nat \<Rightarrow> bool" where "need_shutdown_vm cpu = False"

text \<open>
  One round of \<open>default_idle\<close>; \<open>dead\<close> is \<open>cpu_dead\<close> and \<open>wfi\<close> is \<open>cpu_do_idle\<close>, the wait
  for an interrupt.
\<close>

definition idle_round ::
  "('a guest_state_scheme \<Rightarrow> 'a guest_state_scheme option) \<Rightarrow> ('a guest_state_scheme \<Rightarrow> 'a guest_state_scheme option) \<Rightarrow>
    'a guest_state_scheme \<Rightarrow> 'a guest_state_scheme option" where
  "idle_round dead wfi s =
    (let cpu = get_pcpu_id s
     in if need_reschedule s cpu then schedule sched_iorr guest_switch s
        else if need_offline cpu then dead s
        else if need_shutdown_vm cpu then Some s
        else wfi s)"

subsection \<open>Local steps\<close>

named_theorems local_steps \<open>operations of a vCPU on its own part of the state\<close>

lemma local_stepI:
  assumes "guest_frame s s'" "vtimer s' = vtimer s" "\<And>w. w \<noteq> v \<Longrightarrow> contexts (vcpus s' w) = contexts (vcpus s w)"
  shows "local_step v s s'"
proof -
  have "guest_frame s (s'\<lparr>sstatus := sstatus s\<rparr>)"
    using assms(1) guest_frameD(15) [OF assms(1)] by (simp add: guest_frame_def iorr_state.truncate_def)
  thus ?thesis using assms by (auto simp: local_step_def others_def)
qed

lemma local_base_steps [local_steps]:
  "local_step v s (upd_vcpu v f s)" "local_step v s (upd_vm m g s)" "local_step v s (cpu_csr_write r x s)"
  "local_step v s (cpu_csr_set r x s)" "local_step v s (s\<lparr>sbufs := b, gmem := mm\<rparr>)"
  by (rule local_stepI; simp add: upd_vcpu_def upd_vm_def cpu_csr_write_def cpu_csr_set_def guest_frame_def iorr_state.truncate_def)+

lemma local_sstatus [local_steps]: "local_step v s (s\<lparr>sstatus := x\<rparr>)"
  by (simp add: local_step_def guest_frame_def iorr_state.truncate_def others_def cong: if_cong)

lemma local_request [local_steps]: "local_step v s (vcpu_make_request w e s)"
  by (rule local_stepI) (auto simp: vcpu_make_request_def kick_vcpu_def send_single_swi_def upd_vcpu_def
      guest_frame_def iorr_state.truncate_def Let_def)

lemma local_gpreg [local_steps]: "local_step v s (vcpu_set_gpreg v r x s)"
  by (simp add: vcpu_set_gpreg_def local_steps)

lemma local_status [local_steps]: "local_step v s (vcpu_set_status v x s)"
  by (simp add: vcpu_set_status_def local_steps)

lemma local_retain_ip [local_steps]: "local_step v s (vcpu_retain_ip v s)"
  by (simp add: vcpu_retain_ip_def local_steps)

lemma local_upd_req [local_steps]: "local_step v s (upd_req v f s)"
  by (simp add: upd_req_def local_steps)

lemma local_upd_slot [local_steps]: "local_step v s (upd_slot m i f s)" "local_step v s (set_io_req_state m i st s)"
  by (simp_all add: upd_slot_def set_io_req_state_def local_steps)

lemma local_emulate [local_steps]: "local_step v s (snd (emulate_instruction v s))"
  by (simp add: emulate_instruction_def local_steps)

lemma local_queue_exception [local_steps]: "local_step v s (snd (vcpu_queue_exception v vec err s))"
  by (auto simp: vcpu_queue_exception_def Let_def split_beta intro: local_steps local_step_trans)

lemma local_inject [local_steps]:
  "local_step v s (vcpu_inject_gp v err s)" "local_step v s (vcpu_inject_ud v s)"
  by (simp_all add: vcpu_inject_gp_def vcpu_inject_ud_def local_steps)

lemma local_take_request [local_steps]: "local_step v s (snd (take_request nr v s))"
  by (simp add: take_request_def split_beta local_steps)

lemma local_load_save [local_steps]: "local_step v s (load_vmcs w s)" "local_step v s (save_vmcs v s)"
proof -
  show "local_step v s (load_vmcs w s)"
    by (subst load_vmcs_eq(1), rule local_stepI) (simp_all add: guest_frame_def iorr_state.truncate_def)
  show "local_step v s (save_vmcs v s)" by (subst save_vmcs_eq(1)) (rule local_steps)
qed

lemma local_locks [local_steps]:
  "local_step v s (asyncio_release m s)" "local_step v s (mmio_release m s)"
  by (simp_all add: asyncio_release_def mmio_release_def local_steps)

lemma local_obtain:
  "asyncio_obtain m s = Some s' \<Longrightarrow> local_step v s s'" "mmio_obtain m s = Some s' \<Longrightarrow> local_step v s s'"
  by (auto simp: asyncio_obtain_def mmio_obtain_def bind_eq_Some_conv local_steps)

lemma local_init_vmcs [local_steps]: "local_step v s (init_vmcs v s)"
proof -
  have w: "local_step v s (cpu_csr_write r x t)" if "local_step v s t" for r x t
    using that local_step_trans local_steps(3) by blast
  have run: "local_step v s (t\<lparr>vcpu_run := (vcpu_run t)(c := v)\<rparr>)" if "local_step v s t" for c t
    using that local_step_trans [OF that, of "t\<lparr>vcpu_run := (vcpu_run t)(c := v)\<rparr>"]
    by (simp add: local_stepI guest_frame_def iorr_state.truncate_def)
  have u: "local_step v s (upd_vcpu v f t)" if "local_step v s t" for f t
    using that local_step_trans local_steps(1) by blast
  have st: "local_step v s (t\<lparr>sstatus := x\<rparr>)" if "local_step v s t" for x t
    using that local_step_trans local_sstatus by blast
  show ?thesis unfolding init_vmcs_def init_host_state_def init_guest_state_def vcpu_set_gpreg_def Let_def
    by (intro run w u st local_steps)
qed

subsection \<open>The environment of a vCPU thread\<close>

text \<open>
  What the thread relies on: whatever runs while it waits keeps the invariant and
  gives the hart back; interrupt service, MMIO handlers and the guest itself keep
  the invariant.
\<close>

definition handler_ok ::
  "(addr \<Rightarrow> nat option) \<Rightarrow> addr set \<Rightarrow> addr \<Rightarrow> ((addr \<Rightarrow> nat \<Rightarrow> u64) \<Rightarrow> bool) \<Rightarrow> 'a mmio_fn \<Rightarrow> bool" where
  "handler_ok home N v P handler \<longleftrightarrow>
    (\<forall>f d r s st r' s'. handler f d r s = Some (st, r', s') \<longrightarrow> vm_run home N v P s \<longrightarrow> vm_run home N v P s')"

definition env_ok ::
  "(addr \<Rightarrow> nat option) \<Rightarrow> addr set \<Rightarrow> addr \<Rightarrow> ((addr \<Rightarrow> nat \<Rightarrow> u64) \<Rightarrow> bool) \<Rightarrow> 'a guest_state_scheme exit_env \<Rightarrow> bool" where
  "env_ok home N v P env \<longleftrightarrow>
    away_ok home N v P (env_away env) \<and> handler_ok home N v P (env_handler env) \<and>
    (\<forall>s s'. env_dispatch env s = Some s' \<longrightarrow> vm_run home N v P s \<longrightarrow> vm_run home N v P s')"

definition enter_ok ::
  "(addr \<Rightarrow> nat option) \<Rightarrow> addr set \<Rightarrow> addr \<Rightarrow> ((addr \<Rightarrow> nat \<Rightarrow> u64) \<Rightarrow> bool) \<Rightarrow>
    (addr \<Rightarrow> 'a guest_state_scheme \<Rightarrow> (int \<times> 'a guest_state_scheme) option) \<Rightarrow> bool" where
  "enter_ok home N v P vmrun \<longleftrightarrow>
    (\<forall>s st s'. vmrun v s = Some (st, s') \<longrightarrow> vm_run home N v P s \<longrightarrow> vm_run home N v P s')"

lemma env_okD:
  assumes "env_ok home N v P env"
  shows "away_ok home N v P (env_away env)" "handler_ok home N v P (env_handler env)"
    "env_dispatch env s = Some s' \<Longrightarrow> vm_run home N v P s \<Longrightarrow> vm_run home N v P s'"
  using assms unfolding env_ok_def by blast+

subsection \<open>The virtual CLINT keeps the invariant\<close>

lemma local_run: "vm_run home N v P s \<Longrightarrow> local_step v s s' \<Longrightarrow> vm_run home N v P s'"
  by (rule local_step_run)

lemma set_intr_run: "vclint_set_intr w s = Some s' \<Longrightarrow> vm_run home N v P s \<Longrightarrow> vm_run home N v P s'"
  by (auto simp: vclint_set_intr_def bind_eq_Some_conv intro: local_run local_steps signal_event_run)

lemma vtimer_in: "vm_run home N v P s \<Longrightarrow> i < NR_VTIMERS \<Longrightarrow> vtimer s m i \<in> N"
  by (simp add: vm_run_def vm_sys_def)

lemma del_timer_run: "vm_run home N v P s \<Longrightarrow> t \<in> N \<Longrightarrow> vm_run home N v P (del_timer t s)"
  by (rule timer_step_run [OF del_timer_step])

lemma set_timer_run:
  assumes "map_option snd (add_timer t (upd_timer t f (del_timer t s))) = Some s'" "vm_run home N v P s" "t \<in> N"
  shows "vm_run home N v P s'"
  using assms by (auto intro: timer_step_run [OF add_timer_step] timer_step_run [OF upd_timer_step] del_timer_run)

lemma del_vtimers_run:
  assumes "vm_run home N v P s" shows "vm_run home N v P (del_vtimers m s)"
proof -
  have "vm_run home N v P (fold (\<lambda>i s. del_timer (vtimer s m i) s) xs s)" if "set xs \<subseteq> {..<NR_VTIMERS}" for xs
    using that assms by (induction xs arbitrary: s) (auto intro: del_timer_run vtimer_in)
  thus ?thesis by (simp add: del_vtimers_def atLeast0LessThan)
qed

lemma vclint_write_run:
  assumes "vclint_write m off x s = Some (r, s')" "vm_run home N v P s" shows "vm_run home N v P s'"
proof -
  define o' where "o' = off - ucast (clint_base (vms s m))"
  have idx: "unat (drop_bit 3 (o' - CLINT_OFFSET_TIMER0)) < NR_VTIMERS" if "o' \<in> set timer_offsets"
    using that by (auto simp: timer_offsets_def CLINT_OFFSET_TIMER0_def NR_VTIMERS_def drop_bit_eq_div)
  have t: "vm_run home N v P u" if "o' \<in> set timer_offsets"
    "vclint_write_tmr m (unat (drop_bit 3 (o' - CLINT_OFFSET_TIMER0))) x s = Some u" for u
    using that assms(2) set_timer_run [OF _ assms(2) vtimer_in [OF assms(2) idx]] by (auto simp: vclint_write_tmr_def Let_def)
  have i: "vm_run home N v P u" if "vclint_write_msip m k y s = Some u" for k y u
    by (rule set_intr_run [OF that [unfolded vclint_write_msip_def] local_run [OF assms(2) local_base_steps(2)]])
  have d: "vm_run home N v P (del_vtimers m (upd_vm m f s))" for f
    by (rule del_vtimers_run [OF local_run [OF assms(2) local_base_steps(2)]])
  show ?thesis using assms t i d
    by (auto simp: vclint_write_def Let_def o'_def [symmetric] split: if_splits)
qed

lemma clint_access_run:
  assumes "clint_access_vmexit_handler v s = Some (r, s')" "vm_run home N v P s" shows "vm_run home N v P s'"
proof -
  have e: "vm_run home N v P (snd (emulate_instruction v u))" if "vm_run home N v P u" for u
    using that local_run local_emulate by blast
  have q: "vm_run home N v P (upd_req v f s)" for f by (rule local_run [OF assms(2) local_upd_req])
  show ?thesis using assms e [OF assms(2)] e [OF q] vclint_write_run
    by (fastforce simp: clint_access_vmexit_handler_def decode_instruction_def emulate_instruction_def Let_def split: if_splits)
qed

subsection \<open>Pending requests keep the invariant\<close>

lemma local_inject_exception [local_steps]: "local_step v s (snd (vcpu_inject_exception v s))"
  unfolding vcpu_inject_exception_def Let_def split_beta
  by (auto intro!: local_steps local_step_refl intro: local_step_trans [OF _ local_status] local_step_trans [OF _ local_retain_ip]
      local_step_trans [OF _ local_base_steps(1)])

lemma local_inject_intr [local_steps]: "local_step v s (vcpu_inject_intr v en ij s)"
  by (simp add: vcpu_inject_intr_def vclint_find_deliverable_intr_def Let_def)

lemma local_pending_extint [local_steps]: "local_step v s (snd (vcpu_do_pending_extint v s))"
  by (simp add: vcpu_do_pending_extint_def local_steps)

lemma local_inject_pending [local_steps]: "local_step v s (acrn_inject_pending_intr v ij s)"
proof -
  have t: "local_step v s (snd (take_request nr v u))" if "local_step v s u" for nr u
    using that local_step_trans local_take_request by blast
  have e: "local_step v s (snd (vcpu_do_pending_extint v u))" if "local_step v s u" for u
    using that local_step_trans local_pending_extint by blast
  have i: "local_step v s (vcpu_inject_intr v en b u)" if "local_step v s u" for en b u
    using that local_step_trans local_inject_intr by blast
  show ?thesis
    by (auto simp: acrn_inject_pending_intr_def is_guest_irq_enabled_def Let_def split_beta intro!: i t e)
qed

lemma handle_pending_run:
  fixes s :: "'a guest_state_scheme"
  assumes away: "away_ok home N v P away"
    and r: "acrn_handle_pending_request away v s = Some (st, s')" and s: "vm_run home N v P s"
  shows "vm_run home N v P s'"
proof -
  define a where "a = (if fst (take_request ACRN_REQUEST_INIT_VMCS v s) then init_vmcs v (snd (take_request ACRN_REQUEST_INIT_VMCS v s))
    else snd (take_request ACRN_REQUEST_INIT_VMCS v s))"
  define b where "b = snd (take_request ACRN_REQUEST_TRP_FAULT v a)"
  define c where "c = snd (take_request ACRN_REQUEST_WAIT_WBINVD v b)"
  have t: "vm_run home N v P (snd (take_request nr v u))" if "vm_run home N v P u" for nr u
    using that local_run local_take_request by blast
  have "vm_run home N v P a" using t [OF s] local_run [OF t [OF s] local_init_vmcs] by (simp add: a_def)
  hence bc: "vm_run home N v P b" "vm_run home N v P c" unfolding b_def c_def by (blast intro: t)+
  show ?thesis
  proof (cases "fst (take_request ACRN_REQUEST_TRP_FAULT v a)")
    case True
    thus ?thesis using r bc by (auto simp: acrn_handle_pending_request_def a_def b_def Let_def split_beta)
  next
    case False
    define g where "g = (\<lambda>d :: 'a guest_state_scheme. snd (take_request ACRN_REQUEST_EOI_EXIT_BITMAP_UPDATE v (snd (take_request ACRN_REQUEST_VPID_FLUSH v
      (snd (take_request ACRN_REQUEST_EPT_FLUSH v d))))))"
    obtain d where d: "(if fst (take_request ACRN_REQUEST_WAIT_WBINVD v b)
        then wait_event sched_iorr guest_switch away (vcpu_event c v VCPU_EVENT_SYNC_WBINVD) c else Some c) = Some d"
      and s': "s' = acrn_inject_pending_intr v (fst (vcpu_inject_exception v (g d))) (snd (vcpu_inject_exception v (g d)))"
      using r False by (auto simp: acrn_handle_pending_request_def a_def b_def c_def g_def Let_def split_beta bind_eq_Some_conv cong: if_cong)
    have "vm_run home N v P d" using d bc(2) wait_event_run [OF away] by (auto split: if_splits)
    hence "vm_run home N v P (g d)" unfolding g_def by (intro t)
    thus ?thesis unfolding s' using local_run local_inject_exception local_inject_pending by blast
  qed
qed

subsection \<open>I/O emulation keeps the invariant\<close>

lemma resched_off: "resched_if_needed v s = Some s' \<Longrightarrow> vm_run home N v P s \<Longrightarrow> vm_off home N v P s'"
  by (auto simp: resched_if_needed_def intro: schedule_off vm_run_off split: if_splits)

lemma poll_complete_run:
  fixes s :: "'a guest_state_scheme"
  assumes away: "away_ok home N v P away"
    and r: "poll_complete away v s = Some s'" and s: "vm_run home N v P s"
  shows "vm_run home N v P s'"
proof -
  let ?Q = "\<lambda>aw w (s :: 'a guest_state_scheme) s'. aw = away \<longrightarrow> w = v \<longrightarrow> vm_run home N v P s \<longrightarrow> vm_run home N v P s'"
  have "?Q away v s s'"
  proof (rule poll_complete.raw_induct [where P = ?Q, OF _ r], intro impI)
    fix f aw w and s s' :: "'a guest_state_scheme"
    assume IH: "\<And>aw w s s'. f aw w s = Some s' \<Longrightarrow> ?Q aw w s s'"
      and body: "(if has_complete_ioreq s w then Some s else resched_if_needed w s \<bind> (\<lambda>s. aw s \<bind> f aw w)) = Some s'"
      and eq: "aw = away" "w = v" and s: "vm_run home N v P s"
    show "vm_run home N v P s'"
    proof (cases "has_complete_ioreq s v")
      case False
      then obtain u u' where "resched_if_needed v s = Some u" "away u = Some u'" "f away v u' = Some s'"
        using body eq by (auto simp: bind_eq_Some_conv)
      thus ?thesis using IH [of away v u' s'] away_okD [OF away] resched_off [OF _ s] by blast
    qed (use body eq s in auto)
  qed
  thus ?thesis using s by blast
qed

lemma asyncio_loop_run:
  fixes s :: "'a guest_state_scheme"
  assumes away: "away_ok home N v P away"
    and r: "insert_asyncio_loop away v m sb fd s = Some s'" and s: "vm_run home N v P s"
  shows "vm_run home N v P s'"
proof -
  let ?Q = "\<lambda>aw w (m :: nat) (sb :: addr) (fd :: u64) (s :: 'a guest_state_scheme) s'. aw = away \<longrightarrow> w = v \<longrightarrow>
    vm_run home N v P s \<longrightarrow> vm_run home N v P s'"
  have put: "vm_run home N v P u'" if "asyncio_put sb fd u = (x, u')" "vm_run home N v P u" for sb fd x and u u' :: "'a guest_state_scheme"
    using that local_run [OF that(2) local_base_steps(5)] by (auto simp: asyncio_put_def Let_def split_beta)
  have rel: "vm_run home N v P (asyncio_release m u)" if "vm_run home N v P u" for m and u :: "'a guest_state_scheme"
    by (rule local_run [OF that local_locks(1)])
  have "?Q away v m sb fd s s'"
  proof (rule insert_asyncio_loop.raw_induct [where P = ?Q, OF _ r], intro impI)
    fix f aw w m sb fd and s s' :: "'a guest_state_scheme"
    assume IH: "\<And>aw w m sb fd s s'. f aw w m sb fd s = Some s' \<Longrightarrow> ?Q aw w m sb fd s s'"
      and body: "(let (r, s) = asyncio_put sb fd s
        in if r = 0 then resched_if_needed w (asyncio_release m s) \<bind> (\<lambda>s. aw s \<bind> (\<lambda>s. asyncio_obtain m s \<bind> f aw w m sb fd))
          else Some s) = Some s'"
      and eq: "aw = away" "w = v" and s: "vm_run home N v P s"
    obtain x u where u: "asyncio_put sb fd s = (x, u)" by fastforce
    show "vm_run home N v P s'"
    proof (cases "x = 0")
      case True
      then obtain u1 u2 u3 where st: "resched_if_needed v (asyncio_release m u) = Some u1" "away u1 = Some u2"
        "asyncio_obtain m u2 = Some u3" "f away v m sb fd u3 = Some s'"
        using body eq u by (auto simp: bind_eq_Some_conv)
      have "vm_run home N v P u2" using away_okD [OF away st(2)] resched_off [OF st(1) rel [OF put [OF u s]]] by blast
      hence "vm_run home N v P u3" using local_run local_obtain(1) [OF st(3)] by blast
      thus ?thesis using IH [OF st(4)] by blast
    qed (use body u put [OF u s] in auto)
  qed
  thus ?thesis using s by blast
qed

lemma insert_asyncio_run:
  assumes away: "away_ok home N v P away"
    and r: "acrn_insert_asyncio away v fd s = Some (x, s')" and s: "vm_run home N v P s"
  shows "vm_run home N v P s'"
proof (cases "asyncio_sbuf (vms s (vcpu_vm (vcpus s v))) = 0")
  case False
  let ?m = "vcpu_vm (vcpus s v)"
  obtain s1 s2 where st: "asyncio_obtain ?m s = Some s1"
    "insert_asyncio_loop away v ?m (asyncio_sbuf (vms s ?m)) fd s1 = Some s2" "arch_fire_hsm_interrupt (asyncio_release ?m s2) = Some s'"
    using r False by (auto simp: acrn_insert_asyncio_def Let_def bind_eq_Some_conv)
  have "vm_run home N v P s2" by (rule asyncio_loop_run [OF away st(2) local_run [OF s local_obtain(1) [OF st(1)]]])
  thus ?thesis using set_intr_run [OF st(3) [unfolded arch_fire_hsm_interrupt_def]] local_run [OF _ local_locks(1)] by blast
qed (use r s in \<open>auto simp: acrn_insert_asyncio_def Let_def\<close>)

lemma insert_request_run:
  assumes away: "away_ok home N v P away"
    and r: "acrn_insert_request away v s = Some (x, s')" and s: "vm_run home N v P s"
  shows "vm_run home N v P s'"
proof (cases "io_shared_page (vms s (vcpu_vm (vcpus s v))) \<noteq> None \<and>
    get_io_req_state s (vcpu_vm (vcpus s v)) (vcpu_id (vcpus s v)) = ACRN_IOREQ_STATE_FREE")
  case True
  let ?m = "vcpu_vm (vcpus s v)" and ?i = "vcpu_id (vcpus s v)"
  define a where "a = upd_slot ?m ?i (\<lambda>q. q\<lparr>ioreq_type := io_type (req (vcpus s v)), ioreq_reqs := reqs (req (vcpus s v))\<rparr>) s"
  define b where "b = (if is_polling_ioreq (vms a ?m) then upd_slot ?m ?i (\<lambda>q. q\<lparr>completion_polling := 1\<rparr>) a else a)"
  obtain c where c: "arch_fire_hsm_interrupt (set_io_req_state ?m ?i ACRN_IOREQ_STATE_PENDING b) = Some c"
    and w: "(if is_polling_ioreq (vms a ?m) then poll_complete away v c
      else wait_event sched_iorr guest_switch away (vcpu_event c v VCPU_EVENT_IOREQ) c) = Some s'"
    using r True by (auto simp: acrn_insert_request_def Let_def bind_eq_Some_conv a_def b_def cong: if_cong)
  have "vm_run home N v P a" unfolding a_def by (rule local_run [OF s local_upd_slot(1)])
  hence "vm_run home N v P b" unfolding b_def by (auto intro: local_run [OF _ local_upd_slot(1)])
  hence "vm_run home N v P c"
    using set_intr_run [OF c [unfolded arch_fire_hsm_interrupt_def]] local_run [OF _ local_upd_slot(2)] by blast
  thus ?thesis using w poll_complete_run [OF away] wait_event_run [OF away] by (auto split: if_splits)
qed (use r s in \<open>auto simp: acrn_insert_request_def Let_def\<close>)

lemma complete_ioreq_run:
  assumes "complete_ioreq v use s = Some s'" "vm_run home N v P s" shows "vm_run home N v P s'"
proof -
  have "vm_run home N v P (set_io_req_state m i st (upd_req v f s))" "vm_run home N v P (set_io_req_state m i st s)" for m i st f
    using assms(2) by (auto intro: local_run [OF _ local_upd_slot(2)] local_run [OF _ local_upd_req])
  thus ?thesis using assms(1) by (auto simp: complete_ioreq_def Let_def split: option.splits if_splits)
qed

lemma emulate_mmio_complete_run: "vm_run home N v P s \<Longrightarrow> vm_run home N v P (emulate_mmio_complete v s)"
  by (simp add: emulate_mmio_complete_def local_run [OF _ local_emulate])

lemma io_complete_run:
  "dm_emulate_io_complete v s = Some s' \<Longrightarrow> vm_run home N v P s \<Longrightarrow> vm_run home N v P s'"
  by (auto simp: dm_emulate_io_complete_def dm_emulate_mmio_complete_def dm_emulate_pio_complete_def emulate_pio_complete_def Let_def
      intro: complete_ioreq_run emulate_mmio_complete_run split: if_splits)

lemma mmio_call_run:
  assumes h: "handler_ok home N v P handler"
    and "mmio_call handler f data v s = Some (st, s')" "vm_run home N v P s"
  shows "vm_run home N v P s'"
  using assms(2,3) by (auto simp: mmio_call_def Let_def split_beta bind_eq_Some_conv intro!: local_run [OF _ local_upd_req] split: if_splits)
    (use h in \<open>auto simp: handler_ok_def\<close>)

lemma emulate_mmio_run:
  assumes h: "handler_ok home N v P handler"
    and r: "hv_emulate_mmio handler v s = Some (st, s')" and s: "vm_run home N v P s"
  shows "vm_run home N v P s'"
proof -
  let ?m = "vcpu_vm (vcpus s v)"
  obtain s1 where s1: "mmio_obtain ?m s = Some s1" using r by (auto simp: hv_emulate_mmio_def Let_def bind_eq_Some_conv)
  have i: "vm_run home N v P s1" by (rule local_run [OF s local_obtain(2) [OF s1]])
  have rel: "vm_run home N v P (mmio_release ?m u)" if "vm_run home N v P u" for u by (rule local_run [OF that local_locks(2)])
  have call: "vm_run home N v P u'" if "mmio_call handler f d v u = Some (x, u')" "vm_run home N v P u" for f d x u u'
    by (rule mmio_call_run [OF h that])
  have get: "vm_run home N v P u'" if "mmio_obtain ?m u = Some u'" "vm_run home N v P u" for u u'
    by (rule local_run [OF that(2) local_obtain(2) [OF that(1)]])
  show ?thesis using r i s1
    by (auto simp: hv_emulate_mmio_def Let_def split_beta bind_eq_Some_conv split: if_splits option.splits
        intro!: rel intro: get call)
qed

lemma get_asyncio_desc_run:
  assumes "get_asyncio_desc v s = Some (i, s')" "vm_run home N v P s" shows "vm_run home N v P s'"
  using assms by (auto simp: get_asyncio_desc_def Let_def bind_eq_Some_conv split: if_splits
      intro!: local_run [OF _ local_locks(1)] intro: local_run [OF _ local_obtain(1)])

text \<open>The part of \<open>emulate_io\<close> that asks the service VM.\<close>

lemma dm_emulate_run:
  assumes away: "away_ok home N v P away"
    and r: "get_asyncio_desc v u \<bind> (\<lambda>(desc, s). case desc of
          Some i \<Rightarrow> acrn_insert_asyncio away v (aio_fd (aio_desc (vms s (vcpu_vm (vcpus s v))) i)) s
        | None \<Rightarrow> acrn_insert_request away v s \<bind> (\<lambda>(status, s). if status = 0 then map_option (Pair status) (dm_emulate_io_complete v s)
            else Some (status, s))) = Some (st, s')"
    and u: "vm_run home N v P u"
  shows "vm_run home N v P s'"
proof -
  obtain desc t where d: "get_asyncio_desc v u = Some (desc, t)" using r by (cases "get_asyncio_desc v u") auto
  have t: "vm_run home N v P t" by (rule get_asyncio_desc_run [OF d u])
  show ?thesis
  proof (cases desc)
    case None
    then obtain x w where w: "acrn_insert_request away v t = Some (x, w)"
      using r d by (cases "acrn_insert_request away v t") auto
    have "vm_run home N v P w" by (rule insert_request_run [OF away w t])
    thus ?thesis using r d None w by (auto split: if_splits intro: io_complete_run)
  next
    case (Some i)
    thus ?thesis using r d insert_asyncio_run [OF away _ t] by auto
  qed
qed

lemma emulate_io_run:
  assumes away: "away_ok home N v P away"
    and h: "handler_ok home N v P handler"
    and r: "emulate_io handler away v s = Some (st, s')" and s: "vm_run home N v P s"
  shows "vm_run home N v P s'"
proof -
  let ?t = "io_type (req (vcpus s v))"
  define first where "first = (if ?t = ACRN_IOREQ_TYPE_PORTIO
        then Some (hv_emulate_pio, if hv_emulate_pio = 0 then emulate_pio_complete v s else s)
        else if ?t = ACRN_IOREQ_TYPE_MMIO \<or> ?t = ACRN_IOREQ_TYPE_WP
        then hv_emulate_mmio handler v s \<bind> (\<lambda>(status, s). Some (status, if status = 0 then emulate_mmio_complete v s else s))
        else Some (- EINVAL, s))"
  note r' = r [unfolded emulate_io_def Let_def, folded first_def]
  obtain x u where u: "first = Some (x, u)" using r' by (cases first) auto
  have iu: "vm_run home N v P u"
  proof (cases "?t \<noteq> ACRN_IOREQ_TYPE_PORTIO \<and> (?t = ACRN_IOREQ_TYPE_MMIO \<or> ?t = ACRN_IOREQ_TYPE_WP)")
    case True
    then obtain y w where w: "hv_emulate_mmio handler v s = Some (y, w)" "u = (if y = 0 then emulate_mmio_complete v w else w)"
      using u by (cases "hv_emulate_mmio handler v s") (auto simp: first_def)
    thus ?thesis using emulate_mmio_run [OF h w(1) s] emulate_mmio_complete_run by auto
  next
    case False
    thus ?thesis using u s by (auto simp: first_def hv_emulate_pio_def split: if_splits)
  qed
  show ?thesis using r' u iu dm_emulate_run [OF away _ iu] by (simp split: if_splits)
qed

subsection \<open>Exit handlers keep the invariant\<close>

lemma s2pt_violation_run:
  assumes away: "away_ok home N v P away"
    and h: "handler_ok home N v P handler"
    and r: "s2pt_violation_vmexit_handler handler away v s = Some (st, s')" and s: "vm_run home N v P s"
  shows "vm_run home N v P s'"
proof -
  let ?q = "exit_qualification (vcpus s v)" and ?gpa = "ctx_word (vcpus s v) REG_TVAL"
  define a where "a = upd_vcpu v (\<lambda>c. c\<lparr>req := (req c)\<lparr>io_type := ACRN_IOREQ_TYPE_MMIO\<rparr>\<rparr>) s"
  define b where "b = (if ?q = of_nat HX_EXIT_PF_GUEST_STORE
      then upd_req v (\<lambda>r. r\<lparr>direction := ACRN_IOREQ_DIR_WRITE, req_value := 0\<rparr>) a
      else upd_req v (\<lambda>r. r\<lparr>direction := ACRN_IOREQ_DIR_READ\<rparr>) a)"
  define c where "c = upd_req v (\<lambda>r. r\<lparr>req_size := 8\<rparr>) (upd_req v (\<lambda>r. r\<lparr>req_address := ?gpa\<rparr>) b)"
  have q: "vm_run home N v P (upd_req v f u)" if "vm_run home N v P u" for f u by (rule local_run [OF that local_upd_req])
  have ia: "vm_run home N v P a" unfolding a_def by (rule local_run [OF s local_base_steps(1)])
  have ic: "vm_run home N v P c" unfolding c_def b_def using q ia by (auto intro!: q)
  have ie: "vm_run home N v P (snd (emulate_instruction v c))" by (rule local_run [OF ic local_emulate])
  note r' = r [unfolded s2pt_violation_vmexit_handler_def Let_def, folded a_def, folded b_def, unfolded decode_instruction_def, simplified]
  show ?thesis
  proof (cases "?q \<noteq> of_nat HX_EXIT_PF_GUEST_STORE \<and> ?q \<noteq> of_nat HX_EXIT_PF_GUEST_LOAD")
    case True
    thus ?thesis using r' ia by simp
  next
    case False
    show ?thesis
    proof (cases "?gpa > CLINT_MEM_ADDR \<and> ?gpa + 8 < CLINT_MEM_REGION")
      case True
      thus ?thesis using r' False clint_access_run [OF _ ic] by (auto simp: c_def)
    next
      case F: False
      have "fst (emulate_instruction v c) = 0" by (simp add: emulate_instruction_def)
      thus ?thesis using r' False F emulate_io_run [OF away h _ ic] emulate_io_run [OF away h _ ie]
        by (auto simp: c_def split_beta split: if_splits)
    qed
  qed
qed

lemma dispatch_sos_hypercall_run:
  "vm_run home N v P s \<Longrightarrow> vm_run home N v P (snd (dispatch_sos_hypercall v i s))"
  by (simp add: dispatch_sos_hypercall_def Let_def local_run [OF _ local_base_steps(2)])

lemma vmcall_run:
  assumes "vm_run home N v P s" shows "vm_run home N v P (snd (vmcall_vmexit_handler v s))"
proof -
  have g: "vm_run home N v P (vcpu_set_gpreg v k x u)" if "vm_run home N v P u" for k x u
    by (rule local_run [OF that local_gpreg])
  have "vm_run home N v P (vcpu_inject_ud v s)" by (rule local_run [OF assms local_inject(2)])
  thus ?thesis using dispatch_sos_hypercall_run [OF assms] assms
    by (auto simp: vmcall_vmexit_handler_def ecall_vmexit_handler_def Let_def split_beta intro!: g)
qed

lemma exit_fn_run:
  assumes env: "env_ok home N v P env" and r: "call_exit_fn env f v s = Some (st, s')" and s: "vm_run home N v P s"
  shows "vm_run home N v P s'"
proof (cases f)
  case External_interrupt_exit
  thus ?thesis using r s env_okD(3) [OF env]
    by (auto simp: external_interrupt_vmexit_handler_def Let_def bind_eq_Some_conv split: if_splits
        intro!: local_run [OF _ local_retain_ip])
next
  case Exception_exit
  have "vm_run home N v P (vcpu_retain_ip v s)" by (rule local_run [OF s local_retain_ip])
  hence "vm_run home N v P (snd (exception_vmexit_handler v s))"
    unfolding exception_vmexit_handler_def by (rule local_run [OF _ local_queue_exception])
  thus ?thesis using r Exception_exit by simp
next
  case S2pt_violation_exit
  show ?thesis by (rule s2pt_violation_run [OF env_okD(1,2) [OF env] _ s])
      (use r S2pt_violation_exit in simp_all)
next
  case Hlt_exit
  thus ?thesis using r s wait_event_run [OF env_okD(1) [OF env]]
    by (auto simp: hlt_vmexit_handler_def split: if_splits)
qed (use r s vmcall_run [OF s] local_run [OF s local_inject(2)] in
    \<open>auto simp: undefined_vmexit_handler_def unhandled_vmexit_handler_def pf_vmexit_handler_def\<close>)

lemma vmexit_handler_run:
  assumes env: "env_ok home N v P env" and r: "vmexit_handler env v s = Some (st, s')" and s: "vm_run home N v P s"
  shows "vm_run home N v P s'"
  using r s by (auto simp: vmexit_handler_def Let_def bind_eq_Some_conv split: if_splits
      intro: exit_fn_run [OF env] local_run [OF _ local_base_steps(1)])

subsection \<open>Rounds of the thread keep the invariant\<close>

lemma sleep_run:
  assumes s: "vm_run home N v P s" and t: "t \<in> homed home c" and r: "sleep_thread sched_iorr t s = Some s'"
  shows "vm_run home N v P s'"
proof -
  have sys: "vm_sys home N s" using s by (simp add: vm_run_def)
  have "sys_step N v s s'" by (rule sleep_thread_step [where thr = "homed home", OF vm_sysD(3) [OF sys] t r])
      (use vm_sysD(4,5) [OF sys] in auto)
  hence "vm_rest home N v P s'" using vm_rest_step [of N v s s' home P] s wake_sleep_curr(2) [OF r] by (simp add: vm_run_iff)
  moreover have "sched_inv (iorr_inv (homed home)) (iorr_runq (homed home)) (homed home) s'"
    using guest_sched.sleep_thread_ok [OF vm_sysD(1) [OF sys] t] r by auto
  ultimately show ?thesis using s sleep_thread_events [OF guest_sched.framed r]
    by (simp add: vm_run_iff event_inv_def events_ok_def)
qed

lemma zombie_run:
  assumes r: "zombie_vcpu v st s = Some s'" and s: "vm_run home N v P s"
  shows "vm_run home N v P s'"
proof -
  have i: "vm_run home N v P (vcpu_set_state v st s)"
    unfolding vcpu_set_state_def by (rule local_run [OF s local_base_steps(1)])
  have "v \<in> homed home (pcpu_id s)" using s by (simp add: vm_run_def)
  thus ?thesis using r s i sleep_run [OF i]
    by (auto simp: zombie_vcpu_def sleep_thread_sync_def Let_def bind_eq_Some_conv split: if_splits)
qed

lemma run_vcpu_run:
  assumes vm: "enter_ok home N v P vmrun" and r: "run_vcpu vmrun v s = Some (st, s')" and s: "vm_run home N v P s"
  shows "vm_run home N v P s'"
proof -
  define a where "a = load_vmcs v (if \<not> launched (vcpus s v) then upd_vcpu v (\<lambda>c. c\<lparr>launched := True\<rparr>) s else s)"
  obtain b where b: "vmrun v a = Some (st, b)"
    and s': "s' = upd_vcpu v (\<lambda>c. c\<lparr>reg_cached := 0, inst_len := 64, exit_reason := ctx_word c REG_CAUSE\<rparr>) (save_vmcs v b)"
    using r by (auto simp: run_vcpu_def a_def bind_eq_Some_conv Let_def cong: if_cong)
  have "vm_run home N v P a" unfolding a_def
    by (rule local_run [OF _ local_load_save(1)]) (use local_run [OF s local_base_steps(1)] s in auto)
  hence "vm_run home N v P b" using vm b unfolding enter_ok_def by blast
  thus ?thesis unfolding s' by (rule local_run [OF local_run [OF _ local_load_save(2)] local_base_steps(1)])
qed

lemma vcpu_round_run:
  assumes env: "env_ok home N v P env" and vm: "enter_ok home N v P vmrun"
    and r: "vcpu_round env vmrun v s = Some s'" and s: "vm_run home N v P s"
  shows "vm_run home N v P s'"
proof -
  define first where "first = (if need_reschedule s (pcpuid_from_vcpu s v)
           then Option.bind (schedule sched_iorr guest_switch s) (env_away env) else Some s)"
  note r' = r [unfolded vcpu_round_def, folded first_def]
  obtain s1 where s1: "first = Some s1" using r' by (cases first) auto
  have i1: "vm_run home N v P s1" using s1 s schedule_off [OF s] away_okD [OF env_okD(1) [OF env]]
    by (auto simp: first_def bind_eq_Some_conv split: if_splits)
  obtain x s2 where s2: "acrn_handle_pending_request (env_away env) v s1 = Some (x, s2)"
    using r' s1 by (cases "acrn_handle_pending_request (env_away env) v s1") auto
  have i2: "vm_run home N v P s2" by (rule handle_pending_run [OF env_okD(1) [OF env] s2 i1])
  show ?thesis
  proof (cases "x < 0")
    case True
    thus ?thesis using r' s1 s2 zombie_run [OF _ i2] by simp
  next
    case False
    obtain s3 where s3: "reset_event (vcpu_event s2 v VCPU_EVENT_VIRTUAL_INTERRUPT) s2 = Some s3"
      using r' s1 s2 False by (cases "reset_event (vcpu_event s2 v VCPU_EVENT_VIRTUAL_INTERRUPT) s2") auto
    obtain y s4 where s4: "run_vcpu vmrun v s3 = Some (y, s4)"
      using r' s1 s2 s3 False by (cases "run_vcpu vmrun v s3") auto
    have i4: "vm_run home N v P s4" by (rule run_vcpu_run [OF vm s4 reset_event_run [OF i2 s3]])
    show ?thesis
    proof (cases "y = 0")
      case True
      obtain z s5 where s5: "vmexit_handler env v s4 = Some (z, s5)"
        using r' s1 s2 s3 s4 False True by (cases "vmexit_handler env v s4") auto
      have "vm_run home N v P s5" by (rule vmexit_handler_run [OF env s5 i4])
      moreover from this have "vm_run home N v P (vcpu_inject_gp v 0 s5)" by (rule local_run [OF _ local_inject(1)])
      ultimately show ?thesis using r' s1 s2 s3 s4 s5 False True by (auto split: if_splits)
    qed (use r' s1 s2 s3 s4 False zombie_run [OF _ i4] in simp)
  qed
qed

lemma vcpu_thread_run:
  assumes "env_ok home N v P env" "enter_ok home N v P vmrun" "vcpu_thread env vmrun n v s = Some s'" "vm_run home N v P s"
  shows "vm_run home N v P s'"
  using assms(3,4) by (induction n arbitrary: s) (auto simp: bind_eq_Some_conv intro: vcpu_round_run [OF assms(1,2)])

end
