(* ===== verification/Hv_Live.thy ===== *)
theory Hv_Live
  imports Hv_Main
begin

text \<open>
  What the hypervisor threads promise to finish: a round of a vCPU thread returns
  unless the guest waits, a machine that is started has its vCPUs in the run
  queues, a halted vCPU continues when its timer expires, and an I/O request to
  the service VM is answered.
\<close>

subsection \<open>A round of a vCPU thread returns\<close>

lemma init_vmcs_pending [simp]: "pending_req (vcpus (init_vmcs v s) w) = pending_req (vcpus s w)"
  by (simp add: init_vmcs_def init_guest_state_def init_host_state_def vcpu_set_gpreg_def upd_vcpu_def cpu_csr_write_def
      cpu_csr_set_def set_ctx_word_def Let_def)

lemma handle_pending_returns:
  assumes "\<not> bit (pending_req (vcpus s v)) ACRN_REQUEST_WAIT_WBINVD"
  shows "\<exists>ret s'. acrn_handle_pending_request away v s = Some (ret, s')"
  using assms
  by (simp add: acrn_handle_pending_request_def take_request_eq request_ids bit_bitmap_clear_lock split_beta Let_def)

lemma run_home: "vm_run home N v P s \<Longrightarrow> pcpuid_from_vcpu s v = pcpu_id s"
  by (auto simp: vm_run_def vm_sys_def guest_timer_inv_def event_inv_def sched_inv_def sched_core_def
      pcpuid_from_vcpu_def sched_get_pcpuid_def)

lemma zombie_returns:
  assumes "vm_run home N v P s" shows "\<exists>s'. zombie_vcpu v st s = Some s'"
proof -
  have u: "vm_run home N v P (vcpu_set_state v st s)"
    unfolding vcpu_set_state_def by (rule local_run [OF assms local_base_steps(1)])
  hence "\<exists>s'. sleep_thread sched_iorr v (vcpu_set_state v st s) = Some s'"
    using guest_sched.sleep_thread_ok [where home = home and s = "vcpu_set_state v st s" and t = v and c = "pcpu_id (vcpu_set_state v st s)"]
    by (auto simp: vm_run_def vm_sys_def guest_timer_inv_def event_inv_def)
  thus ?thesis using run_home [OF u] run_home [OF assms]
    by (auto simp: zombie_vcpu_def Let_def pcpuid_from_vcpu_def vcpu_set_state_def get_pcpu_id_def)
qed

lemma reset_event_returns:
  assumes "vm_run home N v P s" shows "\<exists>s'. reset_event e s = Some s'"
proof -
  have "lock_free (ev_lock (sched_events s e))"
    using assms by (simp add: vm_run_def vm_sys_def guest_timer_inv_def event_inv_def events_ok_def)
  thus ?thesis by (simp add: reset_event_def event_obtain_def local_irq_save_def local_irq_disable_def split_beta Let_def spinlock_obtain_free)
qed

text \<open>Exceptions that neither wait nor reach a device.\<close>

lemma quick_exit_returns:
  assumes "vm_run home N v P s" "exit_reason (vcpus s v) < 16" "exit_reason (vcpus s v) \<noteq> 5"
  shows "\<exists>ret s'. vmexit_handler env v s = Some (ret, s')"
proof -
  obtain n where n: "exit_reason (vcpus s v) = of_nat n" "n < 16" "n \<noteq> 5"
    using assms(2,3) that [of "unat (exit_reason (vcpus s v))"] by (auto simp: word_less_nat_alt word_unat_eq_iff)
  have "n \<in> {0,1,2,3,4,6,7,8,9,10,11,12,13,14,15}" using n by (simp; presburger)
  hence "\<exists>f \<in> {Exception_exit, Unhandled_exit, Vmcall_exit, Pf_exit}. exception_dispatch_table n = Some f"
    by (auto simp: exception_dispatch_table_def)
  moreover have "unat (ucast (of_nat n AND 0xFFFFFFFF :: u64) :: u16) = n" "of_nat n AND 0x8000000000000000 = (0 :: u64)"
    using \<open>n \<in> _\<close> by auto
  ultimately show ?thesis using run_home [OF assms(1)] n
    by (auto simp: vmexit_handler_def NR_HX_EXIT_REASONS_def Let_def)
qed

text \<open>
  A round returns when no reschedule and no cache synchronisation is asked for, the
  entry code returns, and the guest leaves with such an exception.
\<close>

definition quick_entry :: "(addr \<Rightarrow> 'a guest_state_scheme \<Rightarrow> (int \<times> 'a guest_state_scheme) option) \<Rightarrow> addr \<Rightarrow> bool" where
  "quick_entry vmrun v \<longleftrightarrow> (\<forall>s. \<exists>st s'. vmrun v s = Some (st, s') \<and> ctx_word (vcpus s' v) REG_CAUSE < 16 \<and> ctx_word (vcpus s' v) REG_CAUSE \<noteq> 5)"

lemma run_vcpu_quick:
  assumes "quick_entry vmrun v"
  shows "\<exists>st s'. run_vcpu vmrun v s = Some (st, s') \<and> exit_reason (vcpus s' v) < 16 \<and> exit_reason (vcpus s' v) \<noteq> 5"
proof -
  let ?a = "load_vmcs v (if \<not> launched (vcpus s v) then upd_vcpu v (\<lambda>c. c\<lparr>launched := True\<rparr>) s else s)"
  obtain st u where u: "vmrun v ?a = Some (st, u)" "ctx_word (vcpus u v) REG_CAUSE < 16" "ctx_word (vcpus u v) REG_CAUSE \<noteq> 5"
    using assms unfolding quick_entry_def by blast
  have "ctx_word (vcpus (save_vmcs v u) v) REG_CAUSE = ctx_word (vcpus u v) REG_CAUSE"
    by (simp add: save_vmcs_def save_guest_state_def upd_vcpu_def ctx_word_def set_ctx_word_def ctx_index_def REG_CAUSE_def ctx_indices Let_def)
  thus ?thesis using u by (auto simp: run_vcpu_def Let_def upd_vcpu_def)
qed

lemma vcpu_round_returns:
  assumes env: "env_ok home N v P env" and vm: "enter_ok home N v P vmrun" "quick_entry vmrun v"
    and s: "vm_run home N v P s" "\<not> need_reschedule s (pcpu_id s)"
      "\<not> bit (pending_req (vcpus s v)) ACRN_REQUEST_WAIT_WBINVD"
  shows "\<exists>s'. vcpu_round env vmrun v s = Some s'"
proof -
  obtain ret a where a: "acrn_handle_pending_request (env_away env) v s = Some (ret, a)"
    using handle_pending_returns [OF s(3)] by blast
  have ra: "vm_run home N v P a" using handle_pending_run [OF env_okD(1) [OF env] a s(1)] .
  obtain b where b: "reset_event (vcpu_event a v VCPU_EVENT_VIRTUAL_INTERRUPT) a = Some b" using reset_event_returns [OF ra] by blast
  have rb: "vm_run home N v P b" using reset_event_run [OF ra b] .
  obtain st c where c: "run_vcpu vmrun v b = Some (st, c)" "exit_reason (vcpus c v) < 16" "exit_reason (vcpus c v) \<noteq> 5"
    using run_vcpu_quick [OF vm(2)] by blast
  have rc: "vm_run home N v P c" using run_vcpu_run [OF vm(1) c(1) rb] .
  obtain x d where "vmexit_handler env v c = Some (x, d)" using quick_exit_returns [OF rc c(2,3)] by blast
  thus ?thesis using s run_home [OF s(1)] a b c(1) zombie_returns [OF ra, of VCPU_ZOMBIE] zombie_returns [OF rc, of VCPU_ZOMBIE]
    by (simp add: vcpu_round_def)
qed

subsection \<open>Starting a machine\<close>

lemma wake_thread_frame:
  fixes s :: "'a guest_state_scheme"
  assumes "wake_thread sched_iorr t s = Some s'"
  shows "vms s' = vms s" "vcpus s' = vcpus s" "hw_vcpu s' = hw_vcpu s" "vcpu_event s' = vcpu_event s"
    "pcpu_id s' = pcpu_id s" "u \<noteq> t \<Longrightarrow> threads s' u = threads s u"
proof -
  obtain s1 s2 where "policy_same s s1" "s2 = s1 \<or> s2 = runqueue_add_head t s1" "policy_same s2 s'"
    using wake_thread_steps [OF assms] by blast
  hence m: "sched_state.more s' = sched_state.more s" "pcpu_id s' = pcpu_id s"
    by (auto simp: policy_same_def runqueue_add_head_def list_add_def heap_simps)
  thus "vms s' = vms s" "vcpus s' = vcpus s" "hw_vcpu s' = hw_vcpu s" "vcpu_event s' = vcpu_event s" "pcpu_id s' = pcpu_id s"
    by (cases s; cases s'; simp)+
  have q: "threads (runqueue_add_head t b) = threads b" for b :: "'a guest_state_scheme"
    by (simp add: runqueue_add_head_def list_add_def heap_simps)
  have "threads s' u = threads s u" if "u \<noteq> t"
    using that assms q by (auto simp: wake_thread_def sched_iorr_def sched_iorr_wake_def bind_eq_Some_conv Let_def
        set_be_blocking_def set_thread_status_def dest: obtain_lock_step(2) split: if_splits)
  thus "u \<noteq> t \<Longrightarrow> threads s' u = threads s u" .
qed

lemma homed_unique: "v \<in> homed home c \<Longrightarrow> v \<in> homed home d \<Longrightarrow> c = d"
  by (simp add: homed_def)

lemma guest_runq:
  "guest_inv home s \<Longrightarrow> t \<in> homed home c \<Longrightarrow>
    t \<in> iorr_runq (homed home) c s \<longleftrightarrow> \<not> is_blocked s t \<and> \<not> be_blocking (threads s t)"
  by (simp add: event_inv_def sched_inv_def sched_core_def)

lemma launch_vcpu_runq:
  assumes "guest_inv home s" "v \<in> homed home c"
  shows "\<exists>s'. launch_vcpu v s = Some s' \<and> guest_inv home s' \<and> v \<in> iorr_runq (homed home) c s'
    \<and> (\<forall>d. iorr_runq (homed home) d s \<subseteq> iorr_runq (homed home) d s') \<and> vms s' = vms s
    \<and> vstate (vcpus s' v) = VCPU_RUNNING"
proof -
  let ?u = "vcpu_set_gpreg v CPU_REG_A0 (of_nat (vcpu_pcpu_id (vcpus s v))) (vcpu_set_state v VCPU_RUNNING s)"
  obtain s' where s': "launch_vcpu v s = Some s'" "guest_inv home s'" "v \<in> iorr_runq (homed home) c s'"
    using launch_vcpu_ok [OF assms] by blast
  have w: "wake_thread sched_iorr v ?u = Some s'" using s'(1) by (simp add: launch_vcpu_def Let_def)
  have "t \<in> iorr_runq (homed home) d s'" if t: "t \<in> iorr_runq (homed home) d s" for t d
  proof (cases "t = v")
    case True
    thus ?thesis using t s'(3) homed_unique [OF assms(2)] by (auto simp: iorr_runq_def)
  next
    case False
    have h: "t \<in> homed home d" using t by (simp add: iorr_runq_def)
    have "threads s' t = threads s t" using wake_thread_frame(6) [OF w False]
      by (simp add: vcpu_set_gpreg_def vcpu_set_state_def upd_vcpu_def)
    thus ?thesis using t guest_runq [OF assms(1) h] guest_runq [OF s'(2) h] by (simp add: is_blocked_def)
  qed
  thus ?thesis using s' wake_thread_frame(1,2) [OF w]
    by (auto simp: vcpu_set_gpreg_def vcpu_set_state_def upd_vcpu_def set_ctx_word_def)
qed

lemma launch_vcpus_runq:
  assumes "guest_inv home s" "\<forall>v \<in> set vs. v \<in> homed home (the (home v))"
  shows "\<exists>s'. launch_vcpus vs s = Some s' \<and> guest_inv home s' \<and> (\<forall>v \<in> set vs. v \<in> iorr_runq (homed home) (the (home v)) s')
    \<and> (\<forall>d. iorr_runq (homed home) d s \<subseteq> iorr_runq (homed home) d s') \<and> vms s' = vms s"
  using assms
proof (induction vs arbitrary: s)
  case (Cons v vs)
  obtain a where a: "launch_vcpu v s = Some a" "guest_inv home a" "v \<in> iorr_runq (homed home) (the (home v)) a"
    "\<forall>d. iorr_runq (homed home) d s \<subseteq> iorr_runq (homed home) d a" "vms a = vms s"
    using launch_vcpu_runq [OF Cons.prems(1), of v "the (home v)"] Cons.prems(2) by auto
  obtain b where b: "launch_vcpus vs a = Some b" "guest_inv home b" "\<forall>v \<in> set vs. v \<in> iorr_runq (homed home) (the (home v)) b"
    "\<forall>d. iorr_runq (homed home) d a \<subseteq> iorr_runq (homed home) d b" "vms b = vms a"
    using Cons.IH [OF a(2)] Cons.prems(2) by auto
  show ?case using a b by (intro exI [of _ b]) (auto, blast)
qed simp

subsection \<open>What the scheduler leaves of a guest\<close>

text \<open>
  The machines, and the vCPUs up to their saved registers.
\<close>

definition guest_obs ::
  "'a guest_state_scheme \<Rightarrow> (nat \<Rightarrow> acrn_vm) \<times> (nat \<Rightarrow> nat \<Rightarrow> addr) \<times> (addr \<Rightarrow> nat \<Rightarrow> addr) \<times> (addr \<Rightarrow> acrn_vcpu)" where
  "guest_obs s = (vms s, hw_vcpu s, vcpu_event s, \<lambda>w. (vcpus s w)\<lparr>contexts := \<lambda>_. 0\<rparr>)"

lemma guest_obsD:
  assumes "guest_obs s' = guest_obs s"
  shows "vms s' = vms s" "hw_vcpu s' = hw_vcpu s" "vcpu_event s' = vcpu_event s" "vcpu_vm (vcpus s' w) = vcpu_vm (vcpus s w)"
    "vcpu_id (vcpus s' w) = vcpu_id (vcpus s w)" "req (vcpus s' w) = req (vcpus s w)"
    "pending_req (vcpus s' w) = pending_req (vcpus s w)" "vstate (vcpus s' w) = vstate (vcpus s w)"
proof -
  have "(vcpus s' w)\<lparr>contexts := \<lambda>_. 0\<rparr> = (vcpus s w)\<lparr>contexts := \<lambda>_. 0\<rparr>"
    using assms by (simp add: guest_obs_def fun_eq_iff)
  thus "vcpu_vm (vcpus s' w) = vcpu_vm (vcpus s w)" "vcpu_id (vcpus s' w) = vcpu_id (vcpus s w)" "req (vcpus s' w) = req (vcpus s w)"
    "pending_req (vcpus s' w) = pending_req (vcpus s w)" "vstate (vcpus s' w) = vstate (vcpus s w)"
    by (cases "vcpus s w"; cases "vcpus s' w"; simp)+
qed (use assms in \<open>simp_all add: guest_obs_def\<close>)

lemma obs_upds [simp]:
  fixes s :: "'a guest_state_scheme"
  shows "guest_obs (upd_thread t f s) = guest_obs s" "guest_obs (upd_ctl c g s) = guest_obs s"
  "guest_obs (set_thread_status t st s) = guest_obs s" "guest_obs (set_be_blocking t b s) = guest_obs s"
  "guest_obs (make_reschedule_request c s) = guest_obs s"
  "guest_obs (release_schedule_lock c x s) = guest_obs s" "guest_obs (s\<lparr>sstatus := y\<rparr>) = guest_obs s"
  "guest_obs (upd_event e h s) = guest_obs s"
  by (simp_all add: upd_thread_def upd_ctl_def set_thread_status_def set_be_blocking_def make_reschedule_request_def
      kick_pcpu_def do_swi_def release_schedule_lock_def local_irq_restore_def upd_event_def guest_obs_def Let_def)

lemma obs_iorr_ops [simp]:
  fixes s :: "'a guest_state_scheme"
  shows "guest_obs (upd_iorr_data t f s) = guest_obs s" "guest_obs (runqueue_add_head t s) = guest_obs s"
    "guest_obs (runqueue_add_tail t s) = guest_obs s" "guest_obs (runqueue_remove t s) = guest_obs s"
    "guest_obs (snd (cpu_ticks s)) = guest_obs s"
  by (simp_all add: upd_iorr_data_def runqueue_add_head_def runqueue_add_tail_def runqueue_remove_def list_add_def
      list_add_tail_def list_del_init_def heap_simps cpu_ticks_def get_tick_def guest_obs_def)

lemma obs_obtain: "obtain_schedule_lock c s = Some (x, s') \<Longrightarrow> guest_obs s' = guest_obs s"
  by (auto simp: obtain_schedule_lock_def local_irq_save_def local_irq_disable_def bind_eq_Some_conv)

lemma obs_pick_next: "sched_iorr_pick_next c s = Some (t, s') \<Longrightarrow> guest_obs s' = guest_obs s"
  by (auto simp: sched_iorr_pick_next_def Let_def bind_eq_Some_conv prod.case_eq_if split: if_splits)

lemma obs_switch: "run_switch guest_switch g t s = Some s' \<Longrightarrow> guest_obs s' = guest_obs s"
proof -
  have "guest_obs (save_vmcs t s) = guest_obs s"
    by (simp add: save_vmcs_def save_guest_state_def guest_obs_def upd_vcpu_def set_ctx_word_def cpu_csr_read_def Let_def fun_eq_iff)
  moreover have "guest_obs (load_vmcs t s) = guest_obs s" by (subst load_vmcs_eq(1)) (simp add: guest_obs_def)
  ultimately show "run_switch guest_switch g t s = Some s' \<Longrightarrow> guest_obs s' = guest_obs s"
    by (auto simp: run_switch_def guest_switch_def context_switch_out_def context_switch_in_def split: option.splits)
qed

lemma obs_sched:
  fixes s :: "'a guest_state_scheme"
  shows "sleep_thread sched_iorr t s = Some s' \<Longrightarrow> guest_obs s' = guest_obs s"
    "wake_thread sched_iorr t s = Some s' \<Longrightarrow> guest_obs s' = guest_obs s"
    "schedule sched_iorr guest_switch s = Some s' \<Longrightarrow> guest_obs s' = guest_obs s"
    "signal_event sched_iorr ev s = Some s' \<Longrightarrow> guest_obs s' = guest_obs s"
proof -
  show "sleep_thread sched_iorr t s = Some s' \<Longrightarrow> guest_obs s' = guest_obs s"
    by (auto simp: sleep_thread_def sched_iorr_def sched_iorr_sleep_def bind_eq_Some_conv Let_def dest!: obs_obtain split: if_splits)
  show wake: "guest_obs s' = guest_obs s" if "wake_thread sched_iorr t s = Some s'" for t and s s' :: "'a guest_state_scheme"
    using that by (auto simp: wake_thread_def sched_iorr_def sched_iorr_wake_def bind_eq_Some_conv Let_def dest!: obs_obtain split: if_splits)
  show "schedule sched_iorr guest_switch s = Some s' \<Longrightarrow> guest_obs s' = guest_obs s"
    by (auto simp: schedule_def sched_iorr_def bind_eq_Some_conv Let_def dest!: obs_obtain obs_pick_next obs_switch split: if_splits)
  show "signal_event sched_iorr ev s = Some s' \<Longrightarrow> guest_obs s' = guest_obs s"
    by (auto simp: signal_event_def event_obtain_def event_release_def local_irq_save_def local_irq_disable_def
        local_irq_restore_def bind_eq_Some_conv Let_def dest!: wake split: if_splits)
qed

subsection \<open>A halted vCPU continues when its timer expires\<close>

lemma schedule_guest:
  assumes "guest_inv home s"
  shows "\<exists>s'. schedule sched_iorr guest_switch s = Some s' \<and> guest_inv home s' \<and> sched_events s' = sched_events s
    \<and> (\<forall>d. iorr_runq (homed home) d s' = iorr_runq (homed home) d s) \<and> guest_obs s' = guest_obs s"
proof -
  obtain s' where s': "schedule sched_iorr guest_switch s = Some s'"
    "sched_inv (iorr_inv (homed home)) (iorr_runq (homed home)) (homed home) s'"
    "\<forall>d. iorr_runq (homed home) d s' = iorr_runq (homed home) d s"
    using guest_sched.schedule_ok [where home = home and s = s] assms by (auto simp: event_inv_def)
  have "sched_events s' = sched_events s" using schedule_events [OF guest_sched.framed s'(1)] .
  thus ?thesis using s' assms obs_sched(3) [OF s'(1)] by (simp add: event_inv_def events_ok_def)
qed

lemma guest_frame_runq: "guest_frame s s' \<Longrightarrow> iorr_runq thr c s' = iorr_runq thr c s"
  by (simp add: iorr_runq_def is_inqueue_def list_empty_def guest_frameD)

lemma timer_expired_wakes:
  assumes u: "guest_inv home u" and v: "v \<in> homed home c" "vcpu_id (vcpus u v) < 31"
    "waiting_thread (sched_events u (vcpu_event u v VCPU_EVENT_VIRTUAL_INTERRUPT)) = v"
  shows "\<exists>u'. vclint_timer_expired v u = Some u' \<and> guest_inv home u' \<and> v \<in> iorr_runq (homed home) c u'
    \<and> ev_set (sched_events u' (vcpu_event u v VCPU_EVENT_VIRTUAL_INTERRUPT))
    \<and> bit (pending_req (vcpus u' v)) ACRN_REQUEST_EVENT \<and> bit (mtip (vms u' (vcpu_vm (vcpus u' v)))) (vcpu_id (vcpus u' v))"
proof -
  let ?e = "vcpu_event u v VCPU_EVENT_VIRTUAL_INTERRUPT"
  let ?a = "upd_vm (vcpu_vclint u v) (\<lambda>m. m\<lparr>mtip := set_bit_u64 (vcpu_id (vcpus u v)) (mtip m)\<rparr>) u"
  have fa: "guest_frame u ?a" by simp
  note a = guest_frame_inv [OF fa u] guest_frameD(8) [OF fa]
  obtain b where b: "signal_event sched_iorr ?e ?a = Some b" "guest_inv home b" "ev_set (sched_events b ?e)"
    "v \<in> iorr_runq (homed home) c b"
    using guest_sched.signal_event_ok [OF a(1), of ?e] v(1,3) a(2) by auto
  note o = guest_obsD [OF obs_sched(4) [OF b(1)]]
  let ?c = "vcpu_make_request v ACRN_REQUEST_EVENT b"
  have fc: "guest_frame b ?c" by simp
  have "vms ?c = vms b" by (simp add: vcpu_make_request_def kick_vcpu_def send_single_swi_def upd_vcpu_def Let_def)
  moreover have "bit (mtip (vms b (vcpu_vm (vcpus u v)))) (vcpu_id (vcpus u v))"
    using v(2) by (simp add: o upd_vm_def vcpu_vclint_def set_bit_u64_lock bit_bitmap_set_lock)
  ultimately have "bit (pending_req (vcpus ?c v)) ACRN_REQUEST_EVENT \<and> bit (mtip (vms ?c (vcpu_vm (vcpus ?c v)))) (vcpu_id (vcpus ?c v))"
    by (simp add: o upd_vm_def request_ids bit_bitmap_set_lock)
  thus ?thesis using b guest_frame_inv [OF fc b(2)] guest_frameD(8) [OF fc] guest_frame_runq [OF fc, of "homed home" c]
    by (auto simp: vclint_timer_expired_def vclint_set_intr_def upd_vm_def)
qed

lemma halted_vcpu_wakes:
  assumes s: "guest_inv home s" "v \<in> homed home (pcpu_id s)" "curr_obj (sched_ctl s (pcpu_id s)) = v"
    and idle: "pending_req (vcpus s v) = 0" "\<not> vclint_has_pending_intr s v"
      "\<not> ev_set (sched_events s (vcpu_event s v VCPU_EVENT_VIRTUAL_INTERRUPT))" and i: "vcpu_id (vcpus s v) < 31"
  shows "\<exists>s'. hlt_vmexit_handler (\<lambda>u. Option.bind (vclint_timer_expired v u) (schedule sched_iorr guest_switch)) v s = Some (0, s')
    \<and> guest_inv home s' \<and> v \<in> iorr_runq (homed home) (pcpu_id s) s'
    \<and> bit (pending_req (vcpus s' v)) ACRN_REQUEST_EVENT \<and> bit (mtip (vms s' (vcpu_vm (vcpus s' v)))) (vcpu_id (vcpus s' v))"
proof -
  let ?e = "vcpu_event s v VCPU_EVENT_VIRTUAL_INTERRUPT" and ?away = "\<lambda>u. Option.bind (vclint_timer_expired v u) (schedule sched_iorr guest_switch)"
  define R :: "(nat \<Rightarrow> acrn_vm) \<times> (nat \<Rightarrow> nat \<Rightarrow> addr) \<times> (addr \<Rightarrow> nat \<Rightarrow> addr) \<times> (addr \<Rightarrow> acrn_vcpu) \<Rightarrow> bool" where
    "R = (\<lambda>(ms, h, e, cs). bit (pending_req (cs v)) ACRN_REQUEST_EVENT \<and> bit (mtip (ms (vcpu_vm (cs v)))) (vcpu_id (cs v)))"
  have "\<exists>u'. ?away u = Some u' \<and> guest_inv home u' \<and> ev_set (sched_events u' ?e)
      \<and> v \<in> iorr_runq (homed home) (pcpu_id s) u' \<and> R (guest_obs u')"
    if u: "guest_inv home u" "waiting_thread (sched_events u ?e) = v" "guest_obs u = guest_obs s" for u
  proof -
    note o = guest_obsD [OF u(3)]
    obtain a where a: "vclint_timer_expired v u = Some a" "guest_inv home a" "v \<in> iorr_runq (homed home) (pcpu_id s) a"
      "ev_set (sched_events a ?e)" "R (guest_obs a)"
      using timer_expired_wakes [OF u(1) s(2)] u(2) i by (auto simp: o R_def guest_obs_def)
    show ?thesis using schedule_guest [OF a(2)] a by auto
  qed
  hence "\<exists>s'. wait_event sched_iorr guest_switch ?away ?e s = Some s' \<and> guest_inv home s' \<and> v \<in> iorr_runq (homed home) (pcpu_id s) s'
      \<and> \<not> ev_set (sched_events s' ?e) \<and> waiting_thread (sched_events s' ?e) = 0 \<and> R (guest_obs s')"
    by (intro guest_sched.wait_event_observes [where k = guest_obs and R = R and t = v, OF s(1) idle(3) s(2) refl s(3)])
      (simp_all add: obs_sched)
  thus ?thesis using idle(1,2) by (auto simp: hlt_vmexit_handler_def R_def guest_obs_def)
qed

subsection \<open>A polled request is answered\<close>

text \<open>The service VM answers a request: it writes the value and the state of the slot.\<close>

definition answer_request :: "nat \<Rightarrow> nat \<Rightarrow> u64 \<Rightarrow> 'a guest_state_scheme \<Rightarrow> 'a guest_state_scheme option" where
  "answer_request m i x s =
    Some (upd_slot m i (\<lambda>q. q\<lparr>ioreq_reqs := (ioreq_reqs q)\<lparr>req_value := x\<rparr>, processed := ACRN_IOREQ_STATE_COMPLETE\<rparr>) s)"

lemma set_intr_returns:
  assumes "guest_inv home s"
  shows "\<exists>s'. vclint_set_intr w s = Some s' \<and> guest_inv home s' \<and> vms s' = vms s
    \<and> (\<forall>v. vcpu_vm (vcpus s' v) = vcpu_vm (vcpus s v) \<and> vcpu_id (vcpus s' v) = vcpu_id (vcpus s v)
        \<and> req (vcpus s' v) = req (vcpus s v) \<and> vstate (vcpus s' v) = vstate (vcpus s v))"
proof -
  let ?e = "vcpu_event s w VCPU_EVENT_VIRTUAL_INTERRUPT"
  obtain b where b: "signal_event sched_iorr ?e s = Some b" "guest_inv home b"
    using guest_sched.signal_event_ok [OF assms, of ?e] by blast
  note o = guest_obsD [OF obs_sched(4) [OF b(1)]]
  let ?c = "vcpu_make_request w ACRN_REQUEST_EVENT b"
  have fc: "guest_frame b ?c" by simp
  have "vms ?c = vms b" by (simp add: vcpu_make_request_def kick_vcpu_def send_single_swi_def upd_vcpu_def Let_def)
  thus ?thesis using b guest_frame_inv [OF fc b(2)] by (auto simp: vclint_set_intr_def o)
qed

lemma resched_returns:
  assumes "guest_inv home s"
  shows "\<exists>s'. resched_if_needed v s = Some s' \<and> guest_inv home s' \<and> guest_obs s' = guest_obs s"
  using schedule_guest [OF assms] assms by (auto simp: resched_if_needed_def)

lemma upd_slot_frame [simp]: "guest_frame s (upd_slot m i f s)"
  by (simp add: upd_slot_def)

lemma upd_slot_vcpus [simp]: "vcpus (upd_slot m i f s) = vcpus s"
  by (simp add: upd_slot_def upd_vm_def)

lemma upd_slot_page [simp]:
  "io_shared_page (vms (upd_slot m i f s) m) = map_option (\<lambda>p. p(i := f (p i))) (io_shared_page (vms s m))"
  "is_polling_ioreq (vms (upd_slot m i f s) k) = is_polling_ioreq (vms s k)"
  by (simp_all add: upd_slot_def upd_vm_def)

lemma poll_complete_answered:
  assumes s: "guest_inv home s" and m: "m = vcpu_vm (vcpus s v)" "i = vcpu_id (vcpus s v)" "io_shared_page (vms s m) = Some p"
    "processed (p i) = ACRN_IOREQ_STATE_PENDING"
  shows "\<exists>s'. poll_complete (answer_request m i x) v s = Some s' \<and> guest_inv home s'
    \<and> io_shared_page (vms s' m) = Some (p(i := (p i)\<lparr>ioreq_reqs := (ioreq_reqs (p i))\<lparr>req_value := x\<rparr>, processed := ACRN_IOREQ_STATE_COMPLETE\<rparr>))
    \<and> vcpu_vm (vcpus s' v) = m \<and> vcpu_id (vcpus s' v) = i \<and> req (vcpus s' v) = req (vcpus s v) \<and> vstate (vcpus s' v) = vstate (vcpus s v)"
proof -
  obtain a where a: "resched_if_needed v s = Some a" "guest_inv home a" "guest_obs a = guest_obs s" using resched_returns [OF s] by blast
  note o = guest_obsD [OF a(3)]
  let ?f = "\<lambda>q. q\<lparr>ioreq_reqs := (ioreq_reqs q)\<lparr>req_value := x\<rparr>, processed := ACRN_IOREQ_STATE_COMPLETE\<rparr>"
  let ?b = "upd_slot m i ?f a"
  have n: "\<not> has_complete_ioreq s v"
    using m by (simp add: has_complete_ioreq_def get_io_req_state_def ACRN_IOREQ_STATE_PENDING_def ACRN_IOREQ_STATE_COMPLETE_def)
  have y: "has_complete_ioreq ?b v" using m by (simp add: has_complete_ioreq_def get_io_req_state_def o)
  have "poll_complete (answer_request m i x) v ?b = Some ?b" using y by (subst poll_complete.simps) simp
  hence "poll_complete (answer_request m i x) v s = Some ?b"
    using n a(1) by (subst poll_complete.simps) (simp add: answer_request_def)
  thus ?thesis using guest_frame_inv [OF upd_slot_frame a(2)] m by (simp add: o)
qed

lemma polled_request_answered:
  assumes s: "guest_inv home s" and m: "m = vcpu_vm (vcpus s v)" "i = vcpu_id (vcpus s v)" "io_shared_page (vms s m) = Some p"
    "processed (p i) = ACRN_IOREQ_STATE_FREE" "is_polling_ioreq (vms s m)"
    and v: "io_type (req (vcpus s v)) = ACRN_IOREQ_TYPE_MMIO" "vstate (vcpus s v) \<noteq> VCPU_ZOMBIE"
  shows "\<exists>s1 s2. acrn_insert_request (answer_request m i x) v s = Some (0, s1) \<and> dm_emulate_io_complete v s1 = Some s2
    \<and> guest_inv home s2 \<and> req_value (reqs (req (vcpus s2 v))) = x \<and> get_io_req_state s2 m i = ACRN_IOREQ_STATE_FREE"
proof -
  let ?q = "(p i)\<lparr>ioreq_type := io_type (req (vcpus s v)), ioreq_reqs := reqs (req (vcpus s v)), completion_polling := 1,
    processed := ACRN_IOREQ_STATE_PENDING\<rparr>"
  define a where "a = set_io_req_state m i ACRN_IOREQ_STATE_PENDING (upd_slot m i (\<lambda>q. q\<lparr>completion_polling := 1\<rparr>)
    (upd_slot m i (\<lambda>q. q\<lparr>ioreq_type := io_type (req (vcpus s v)), ioreq_reqs := reqs (req (vcpus s v))\<rparr>) s))"
  have "guest_frame s a" unfolding a_def set_io_req_state_def by (intro guest_frame_trans [OF _ upd_slot_frame] upd_slot_frame)
  hence ia: "guest_inv home a" by (rule guest_frame_inv [OF _ s])
  have pa: "io_shared_page (vms a m) = Some (p(i := ?q))" "vcpus a = vcpus s"
    using m(3) by (simp_all add: a_def set_io_req_state_def)
  obtain b where b: "vclint_set_intr (vcpu_from_vid a SOS_VM_INDEX BSP_CPU_ID) a = Some b" "guest_inv home b" "vms b = vms a"
    "vcpu_vm (vcpus b v) = m" "vcpu_id (vcpus b v) = i" "req (vcpus b v) = req (vcpus s v)" "vstate (vcpus b v) = vstate (vcpus s v)"
    using set_intr_returns [OF ia, of "vcpu_from_vid a SOS_VM_INDEX BSP_CPU_ID"] m pa(2) by auto
  obtain c p' where c: "poll_complete (answer_request m i x) v b = Some c" "guest_inv home c" "io_shared_page (vms c m) = Some p'"
    "processed (p' i) = ACRN_IOREQ_STATE_COMPLETE" "req_value (ioreq_reqs (p' i)) = x"
    "vcpu_vm (vcpus c v) = m" "vcpu_id (vcpus c v) = i" "req (vcpus c v) = req (vcpus s v)" "vstate (vcpus c v) = vstate (vcpus s v)"
    using poll_complete_answered [OF b(2), where v = v and m = m and i = i and x = x] b pa by (auto simp: fun_upd_def)
  have "acrn_insert_request (answer_request m i x) v s = Some (0, c)"
    using m b(1) [unfolded a_def] c(1) by (simp add: acrn_insert_request_def get_io_req_state_def arch_fire_hsm_interrupt_def Let_def)
  moreover define d where "d = emulate_mmio_complete v (set_io_req_state m i ACRN_IOREQ_STATE_FREE (upd_req v (\<lambda>r. r\<lparr>req_value := x\<rparr>) c))"
  have "dm_emulate_io_complete v c = Some d"
    using c v by (simp add: dm_emulate_io_complete_def dm_emulate_mmio_complete_def complete_ioreq_def get_io_req_state_def Let_def
        ACRN_IOREQ_TYPE_MMIO_def ACRN_IOREQ_TYPE_PORTIO_def d_def)
  moreover have "guest_frame c d"
    unfolding d_def emulate_mmio_complete_def emulate_instruction_def vcpu_set_gpreg_def set_io_req_state_def upd_req_def
    by (auto simp: Let_def intro!: guest_frame_trans [OF _ upd_vcpu_frame] guest_frame_trans [OF _ upd_slot_frame] upd_vcpu_frame)
  moreover have "req_value (reqs (req (vcpus d v))) = x" "get_io_req_state d m i = ACRN_IOREQ_STATE_FREE"
    using c(3) by (simp_all add: d_def emulate_mmio_complete_def emulate_instruction_def vcpu_set_gpreg_def upd_req_def
        set_io_req_state_def set_ctx_word_def get_io_req_state_def upd_vcpu_def upd_slot_def upd_vm_def Let_def)
  ultimately show ?thesis using guest_frame_inv [OF _ c(2)] by blast
qed

text \<open>The whole way: no handler of the hypervisor covers the access, so the service VM answers it.\<close>

lemma mmio_not_found:
  assumes "lock_free (emul_mmio_lock (vms s m))" "m = vcpu_vm (vcpus s v)" "r = reqs (req (vcpus s v))"
    "\<not> is_service_vm m" "\<not> is_prelaunched_vm s m"
    "\<forall>j \<le> nr_emul_mmio_regions (vms s m). \<not> mmio_overlaps (emul_mmio (vms s m) j) (req_address r) (req_size r)"
  shows "\<exists>lock. hv_emulate_mmio handler v s = Some (- ENODEV, upd_vm m (\<lambda>r. r\<lparr>emul_mmio_lock := lock\<rparr>) s)"
proof -
  have "find (\<lambda>i. mmio_overlaps (emul_mmio (vms s m) i) (req_address r) (req_size r)) [0..<nr_emul_mmio_regions (vms s m) + 1] = None"
    using assms(6) by (auto simp: find_None_iff)
  thus ?thesis using assms(1-5)
    by (auto simp: hv_emulate_mmio_def mmio_obtain_def mmio_release_def upd_vm_def spinlock_obtain_free fun_upd_upd Let_def)
qed

lemma emulate_io_answered:
  assumes s: "guest_inv home s" and m: "m = vcpu_vm (vcpus s v)" "i = vcpu_id (vcpus s v)" "io_shared_page (vms s m) = Some p"
    "processed (p i) = ACRN_IOREQ_STATE_FREE" "is_polling_ioreq (vms s m)" "asyncio_sbuf (vms s m) = 0"
    and v: "io_type (req (vcpus s v)) = ACRN_IOREQ_TYPE_MMIO" "vstate (vcpus s v) \<noteq> VCPU_ZOMBIE"
    and h: "lock_free (emul_mmio_lock (vms s m))" "\<not> is_service_vm m" "load_order (vm_configs s) = POST_LAUNCHED_VM"
      "\<forall>j \<le> nr_emul_mmio_regions (vms s m). \<not> mmio_overlaps (emul_mmio (vms s m) j)
        (req_address (reqs (req (vcpus s v)))) (req_size (reqs (req (vcpus s v))))"
  shows "\<exists>s'. emulate_io handler (answer_request m i x) v s = Some (0, s') \<and> guest_inv home s'
    \<and> req_value (reqs (req (vcpus s' v))) = x \<and> get_io_req_state s' m i = ACRN_IOREQ_STATE_FREE"
proof -
  have "\<not> is_prelaunched_vm s m" using h(3) by (simp add: is_prelaunched_vm_def get_vm_config_def)
  then obtain lock where u: "hv_emulate_mmio handler v s = Some (- ENODEV, upd_vm m (\<lambda>r. r\<lparr>emul_mmio_lock := lock\<rparr>) s)"
    using mmio_not_found [OF h(1) m(1) refl h(2) _ h(4)] by blast
  let ?u = "upd_vm m (\<lambda>r. r\<lparr>emul_mmio_lock := lock\<rparr>) s"
  have iu: "guest_inv home ?u" by (rule guest_frame_inv [OF upd_vm_frame s])
  have "get_asyncio_desc v ?u = Some (None, ?u)" using m v(1) by (simp add: get_asyncio_desc_def upd_vm_def Let_def split_beta)
  moreover obtain s1 s2 where "acrn_insert_request (answer_request m i x) v ?u = Some (0, s1)" "dm_emulate_io_complete v s1 = Some s2"
    "guest_inv home s2" "req_value (reqs (req (vcpus s2 v))) = x" "get_io_req_state s2 m i = ACRN_IOREQ_STATE_FREE"
    using polled_request_answered [OF iu, where v = v and m = m and i = i and p = p and x = x] m v by (auto simp: upd_vm_def)
  ultimately show ?thesis using u v(1) h(3)
    by (simp add: emulate_io_def get_vm_config_def ACRN_IOREQ_TYPE_MMIO_def ACRN_IOREQ_TYPE_PORTIO_def ENODEV_def)
qed

subsection \<open>A triple fault stops the vCPU\<close>

lemma zombie_stops:
  assumes "vm_run home N v P s" "vstate (vcpus s v) = VCPU_RUNNING"
  shows "\<exists>s'. zombie_vcpu v VCPU_ZOMBIE s = Some s' \<and> vstate (vcpus s' v) = VCPU_ZOMBIE
    \<and> v \<notin> iorr_runq (homed home) (pcpu_id s) s'"
proof -
  let ?u = "vcpu_set_state v VCPU_ZOMBIE s"
  have u: "vm_run home N v P ?u" unfolding vcpu_set_state_def by (rule local_run [OF assms(1) local_base_steps(1)])
  have p: "pcpu_id ?u = pcpu_id s" by (simp add: vcpu_set_state_def upd_vcpu_def)
  obtain s' where s': "sleep_thread sched_iorr v ?u = Some s'"
    "iorr_runq (homed home) (pcpu_id s) s' = iorr_runq (homed home) (pcpu_id s) ?u - {v}"
    using guest_sched.sleep_thread_ok [where home = home and s = ?u and t = v and c = "pcpu_id ?u"] u p
    by (auto simp: vm_run_def vm_sys_def guest_timer_inv_def event_inv_def)
  have "zombie_vcpu v VCPU_ZOMBIE s = Some s'"
    using s'(1) run_home [OF assms(1)] assms(2) by (simp add: zombie_vcpu_def get_pcpu_id_def p Let_def)
  moreover have "vstate (vcpus s' v) = VCPU_ZOMBIE"
    using guest_obsD(8) [OF obs_sched(1) [OF s'(1)]] by (simp add: vcpu_set_state_def upd_vcpu_def)
  ultimately show ?thesis using s'(2) by simp
qed

lemma init_vmcs_vstate [simp]: "vstate (vcpus (init_vmcs v s) w) = vstate (vcpus s w)" "pcpu_id (init_vmcs v s) = pcpu_id s"
  by (simp_all add: init_vmcs_def init_guest_state_def init_host_state_def vcpu_set_gpreg_def upd_vcpu_def cpu_csr_write_def
      cpu_csr_set_def set_ctx_word_def Let_def)

lemma fault_round_stops:
  assumes env: "env_ok home N v P env" and s: "vm_run home N v P s" "\<not> need_reschedule s (pcpu_id s)"
    and v: "bit (pending_req (vcpus s v)) ACRN_REQUEST_TRP_FAULT" "vstate (vcpus s v) = VCPU_RUNNING"
  shows "\<exists>s'. vcpu_round env vmrun v s = Some s' \<and> vstate (vcpus s' v) = VCPU_ZOMBIE
    \<and> v \<notin> iorr_runq (homed home) (pcpu_id s) s'"
proof -
  let ?a = "take_request ACRN_REQUEST_INIT_VMCS v s"
  define b where "b = (if fst ?a then init_vmcs v (snd ?a) else snd ?a)"
  define u where "u = snd (take_request ACRN_REQUEST_TRP_FAULT v b)"
  have b: "bit (pending_req (vcpus b v)) ACRN_REQUEST_TRP_FAULT" "vstate (vcpus b v) = VCPU_RUNNING" "pcpu_id b = pcpu_id s"
    using v by (simp_all add: b_def take_request_eq request_ids bit_bitmap_clear_lock upd_vcpu_def)
  hence "fst (take_request ACRN_REQUEST_TRP_FAULT v b)" by (simp add: take_request_eq request_ids)
  hence u: "acrn_handle_pending_request (env_away env) v s = Some (- EFAULT, u)"
    unfolding acrn_handle_pending_request_def Let_def split_beta b_def [symmetric] u_def by (rule if_P)
  have u': "vstate (vcpus u v) = VCPU_RUNNING" "pcpu_id u = pcpu_id s"
    using b(2,3) by (simp_all add: u_def take_request_eq request_ids upd_vcpu_def)
  have "vm_run home N v P u" using handle_pending_run [OF env_okD(1) [OF env] u s(1)] .
  thus ?thesis using zombie_stops [of home N v P u] u u' s run_home [OF s(1)] by (simp add: vcpu_round_def EFAULT_def)
qed

end
