(* ===== verification/Guest_Memory.thy ===== *)
theory Guest_Memory
  imports S2vm Memory
begin

text \<open>
  Access to the memory of a guest: \<open>arch/riscv/guest/guest_memory.c\<close>.

  The stage-2 tables are in the table store, data and the page tables of the
  guest in byte memory.  \<open>gva2gpa\<close> leaves some fields of its walk record
  uninitialised; the parameter \<open>stack\<close> has what is found there.  Log messages
  are not modelled.  The last part shows which bytes a copy from a guest reads,
  over as many pages as the region has.
\<close>

subsection \<open>Addresses of a guest\<close>

definition gpa2hva :: "pt_env \<Rightarrow> s2_vm \<Rightarrow> u64 \<Rightarrow> pmem \<Rightarrow> addr" where
  "gpa2hva env vm x m = (let hpa = gpa2hpa env vm x m in if hpa = INVALID_HPA then 0 else unat (hpa2hva env hpa))"

record page_walk_info =
  top_entry :: u64
  pw_level :: u32
  pw_width :: u32
  is_user_mode_access :: bool
  is_write_access :: bool
  is_inst_fetch :: bool
  pse :: bool
  wp :: bool
  nxe :: bool
  is_smap_on :: bool
  is_smep_on :: bool

datatype vm_paging_mode = PAGING_MODE_0_LEVEL | PAGING_MODE_2_LEVEL | PAGING_MODE_3_LEVEL | PAGING_MODE_4_LEVEL

primrec paging_levels :: "vm_paging_mode \<Rightarrow> u32" where
  "paging_levels PAGING_MODE_0_LEVEL = 0"
| "paging_levels PAGING_MODE_2_LEVEL = 2"
| "paging_levels PAGING_MODE_3_LEVEL = 3"
| "paging_levels PAGING_MODE_4_LEVEL = 4"

text \<open>The three predicates do not depend on the vCPU.\<close>

definition is_long_mode :: bool where "is_long_mode = True"
definition is_paging_enabled :: bool where "is_paging_enabled = True"
definition is_pae :: bool where "is_pae = False"

definition get_vcpu_paging_mode :: vm_paging_mode where
  "get_vcpu_paging_mode =
    (if is_paging_enabled
     then if is_pae
          then if is_long_mode then PAGING_MODE_4_LEVEL else PAGING_MODE_3_LEVEL
          else PAGING_MODE_2_LEVEL
     else PAGING_MODE_0_LEVEL)"

abbreviation PAGE_RW_RW :: u64 where "PAGE_RW_RW \<equiv> 0x17"
abbreviation PAGE_FAULT_P_FLAG :: u32 where "PAGE_FAULT_P_FLAG \<equiv> 1"
abbreviation PAGE_FAULT_WR_FLAG :: u32 where "PAGE_FAULT_WR_FLAG \<equiv> 2"
abbreviation PAGE_FAULT_US_FLAG :: u32 where "PAGE_FAULT_US_FLAG \<equiv> 4"
abbreviation PAGE_FAULT_ID_FLAG :: u32 where "PAGE_FAULT_ID_FLAG \<equiv> 0x10"

text \<open>Little-endian words in byte memory.\<close>

fun load_word :: "nat \<Rightarrow> addr \<Rightarrow> mem \<Rightarrow> u64" where
  "load_word 0 a m = 0"
| "load_word (Suc n) a m = ucast (m a) OR push_bit 8 (load_word n (a + 1) m)"

text \<open>
  The loop over the levels, from \<open>i\<close> down; \<open>None\<close> is a fault.  The result is the
  last entry, its shift, and whether all levels were user pages.
\<close>

fun gva2gpa_walk ::
  "pt_env \<Rightarrow> s2_vm \<Rightarrow> pmem \<Rightarrow> mem \<Rightarrow> page_walk_info \<Rightarrow> u64 \<Rightarrow> nat \<Rightarrow> u64 \<times> nat \<times> bool \<Rightarrow> (u64 \<times> nat \<times> bool) option" where
  "gva2gpa_walk env vm pm mm pw gva 0 (addr, sh, user) = Some (addr, sh, user)"
| "gva2gpa_walk env vm pm mm pw gva (Suc i) (addr, _, user) =
    (let base = gpa2hva env vm addr pm
     in if base = 0 then None
        else
          let sh = i * unat (pw_width pw) + 12;
              index = unat (drop_bit sh gva AND (push_bit (unat (pw_width pw)) 1 - 1));
              entry = (if pw_width pw = 10 then load_word 4 (base + 4 * index) mm else load_word 8 (base + 8 * index) mm)
          in if entry AND PAGE_V = 0 then None
             else if entry AND PAGE_RW_RW = 0 \<and> is_write_access pw \<and> (is_user_mode_access pw \<or> wp pw) then None
             else if entry AND PAGE_U = 0 \<and> is_user_mode_access pw then None
             else gva2gpa_walk env vm pm mm pw gva i (entry, sh, user \<and> entry AND PAGE_U \<noteq> 0))"

definition local_gva2gpa_common ::
  "pt_env \<Rightarrow> s2_vm \<Rightarrow> pmem \<Rightarrow> mem \<Rightarrow> page_walk_info \<Rightarrow> u64 \<Rightarrow> u64 \<Rightarrow> u32 \<Rightarrow> int \<times> u64 \<times> u32" where
  "local_gva2gpa_common env vm pm mm pw gva gpa err_code =
    (if pw_level pw < 1 then (- EINVAL, gpa, err_code)
     else case gva2gpa_walk env vm pm mm pw gva (unat (pw_level pw)) (top_entry pw, 0, True) of
         None \<Rightarrow> (- EFAULT, gpa, err_code OR PAGE_FAULT_P_FLAG)
       | Some (entry, sh, user) \<Rightarrow>
           (if is_smep_on pw \<and> \<not> is_user_mode_access pw \<and> user \<and> is_inst_fetch pw
            then (- EFAULT, gpa, err_code OR PAGE_FAULT_P_FLAG)
            else (0, drop_bit 12 (push_bit (sh + 12) (drop_bit sh entry)) OR (gva AND (push_bit sh 1 - 1)), err_code)))"

definition get_pae_pdpt_addr :: "u64 \<Rightarrow> u64" where
  "get_pae_pdpt_addr cr3 = cr3 AND 0xFFFFFFE0"

definition local_gva2gpa_pae ::
  "pt_env \<Rightarrow> s2_vm \<Rightarrow> pmem \<Rightarrow> mem \<Rightarrow> page_walk_info \<Rightarrow> u64 \<Rightarrow> u64 \<Rightarrow> u32 \<Rightarrow> int \<times> u64 \<times> u32" where
  "local_gva2gpa_pae env vm pm mm pw gva gpa err_code =
    (let base = gpa2hva env vm (get_pae_pdpt_addr (top_entry pw)) pm;
         entry = load_word 8 (base + 8 * unat (drop_bit 30 gva AND 3)) mm
     in if base \<noteq> 0 \<and> entry AND PAGE_V \<noteq> 0
        then local_gva2gpa_common env vm pm mm (pw\<lparr>pw_level := 2, top_entry := entry\<rparr>) gva gpa err_code
        else (- EFAULT, gpa, err_code))"

text \<open>The pointers to the results are not null; \<open>vsatp\<close> is the register of the hart.\<close>

definition gva2gpa ::
  "page_walk_info \<Rightarrow> pt_env \<Rightarrow> s2_vm \<Rightarrow> u64 \<Rightarrow> pmem \<Rightarrow> mem \<Rightarrow> u64 \<Rightarrow> u32 \<Rightarrow> int \<times> u64 \<times> u32" where
  "gva2gpa stack env vm vsatp pm mm gva err_code =
    (let mode = get_vcpu_paging_mode; gpa = 0;
         pw = stack\<lparr>top_entry := vsatp, pw_level := paging_levels mode,
                is_write_access := (err_code AND PAGE_FAULT_WR_FLAG \<noteq> 0),
                is_inst_fetch := (err_code AND PAGE_FAULT_ID_FLAG \<noteq> 0), is_user_mode_access := True, pse := True\<rparr>;
         err_code = err_code AND NOT PAGE_FAULT_P_FLAG;
         (ret, gpa, err_code) =
           (case mode of
              PAGING_MODE_4_LEVEL \<Rightarrow> local_gva2gpa_common env vm pm mm (pw\<lparr>pw_width := 9\<rparr>) gva gpa err_code
            | PAGING_MODE_3_LEVEL \<Rightarrow> local_gva2gpa_pae env vm pm mm (pw\<lparr>pw_width := 9\<rparr>) gva gpa err_code
            | PAGING_MODE_2_LEVEL \<Rightarrow> local_gva2gpa_common env vm pm mm (pw\<lparr>pw_width := 10, nxe := False\<rparr>) gva gpa err_code
            | PAGING_MODE_0_LEVEL \<Rightarrow> (0, gva, err_code))
     in (ret, gpa, if ret = - EFAULT then err_code OR PAGE_FAULT_US_FLAG else err_code))"

subsection \<open>Copies\<close>

definition local_copy_gpa ::
  "pt_env \<Rightarrow> s2_vm \<Rightarrow> pmem \<Rightarrow> addr \<Rightarrow> u64 \<Rightarrow> u32 \<Rightarrow> u32 \<Rightarrow> bool \<Rightarrow> mem \<Rightarrow> u32 \<times> mem" where
  "local_copy_gpa env vm pm h_ptr gpa sz fix_pg_size cp_from_vm mm =
    (case local_gpa2hpa env vm gpa pm of
       (hpa, None) \<Rightarrow> (0, mm)
     | (hpa, Some pg_size) \<Rightarrow>
         (let pg_size = (if fix_pg_size \<noteq> 0 then fix_pg_size else pg_size);
              offset_in_pg = ucast gpa AND (pg_size - 1);
              len = (if sz > pg_size - offset_in_pg then pg_size - offset_in_pg else sz);
              g_ptr = unat (hpa2hva env hpa)
          in (len, snd (if cp_from_vm then memcpy_s h_ptr (unat len) g_ptr (unat len) mm
                        else memcpy_s g_ptr (unat len) h_ptr (unat len) mm))))"

lemma local_copy_gpa_len: "fst (local_copy_gpa env vm pm h gpa sz fx fr mm) \<le> sz"
  by (auto simp: local_copy_gpa_def Let_def split: prod.splits option.splits)

lemma copy_len_decreases:
  assumes "(len, mm') = local_copy_gpa env vm pm h gpa sz fx fr mm" "len \<noteq> 0"
  shows "unat (sz - len) < unat sz"
proof -
  have "len \<le> sz" using local_copy_gpa_len [of env vm pm h gpa sz fx fr mm] assms(1) by (metis fst_conv)
  moreover have "unat len \<noteq> 0" using assms(2) by (simp add: unat_eq_zero)
  ultimately show ?thesis by (simp add: unat_sub word_le_nat_alt)
qed

function copy_gpa ::
  "pt_env \<Rightarrow> s2_vm \<Rightarrow> pmem \<Rightarrow> addr \<Rightarrow> u64 \<Rightarrow> u32 \<Rightarrow> bool \<Rightarrow> mem \<Rightarrow> int \<times> mem" where
  "copy_gpa env vm pm h_ptr gpa sz cp_from_vm mm =
    (if sz = 0 then (0, mm)
     else
       let (len, mm) = local_copy_gpa env vm pm h_ptr gpa sz 0 cp_from_vm mm
       in if len = 0 then (- EINVAL, mm)
          else copy_gpa env vm pm (h_ptr + unat len) (gpa + ucast len) (sz - len) cp_from_vm mm)"
  by pat_completeness auto
termination
  by (relation "measure (\<lambda>(env, vm, pm, h, gpa, sz, fr, mm). unat sz)") (auto dest: copy_len_decreases)

declare copy_gpa.simps [simp del]

definition copy_from_gpa :: "pt_env \<Rightarrow> s2_vm \<Rightarrow> pmem \<Rightarrow> addr \<Rightarrow> u64 \<Rightarrow> u32 \<Rightarrow> mem \<Rightarrow> int \<times> mem" where
  "copy_from_gpa env vm pm h_ptr gpa sz mm = copy_gpa env vm pm h_ptr gpa sz True mm"

definition copy_to_gpa :: "pt_env \<Rightarrow> s2_vm \<Rightarrow> pmem \<Rightarrow> addr \<Rightarrow> u64 \<Rightarrow> u32 \<Rightarrow> mem \<Rightarrow> int \<times> mem" where
  "copy_to_gpa env vm pm h_ptr gpa sz mm = copy_gpa env vm pm h_ptr gpa sz False mm"

function copy_gva ::
  "page_walk_info \<Rightarrow> pt_env \<Rightarrow> s2_vm \<Rightarrow> u64 \<Rightarrow> pmem \<Rightarrow> addr \<Rightarrow> u64 \<Rightarrow> u32 \<Rightarrow> u32 \<Rightarrow> u64 \<Rightarrow> bool \<Rightarrow> mem \<Rightarrow>
    int \<times> u32 \<times> u64 \<times> mem" where
  "copy_gva stack env vm vsatp pm h_ptr gva sz err_code fault_addr cp_from_vm mm =
    (if sz = 0 then (0, err_code, fault_addr, mm)
     else
       let (ret, gpa, err_code) = gva2gpa stack env vm vsatp pm mm gva err_code
       in if ret \<ge> 0
          then let (len, mm) = local_copy_gpa env vm pm h_ptr gpa sz 0x1000 cp_from_vm mm
               in if len \<noteq> 0
                  then if ret = 0
                       then copy_gva stack env vm vsatp pm (h_ptr + unat len) (gva + ucast len) (sz - len) err_code fault_addr cp_from_vm mm
                       else (ret, err_code, fault_addr, mm)
                  else (- EINVAL, err_code, fault_addr, mm)
          else (ret, err_code, gva, mm))"
  by pat_completeness auto
termination
  by (relation "measure (\<lambda>(stack, env, vm, satp, pm, h, gva, sz, e, f, fr, mm). unat sz)")
    (auto dest: copy_len_decreases)

declare copy_gva.simps [simp del]

definition copy_from_gva ::
  "page_walk_info \<Rightarrow> pt_env \<Rightarrow> s2_vm \<Rightarrow> u64 \<Rightarrow> pmem \<Rightarrow> addr \<Rightarrow> u64 \<Rightarrow> u32 \<Rightarrow> u32 \<Rightarrow> u64 \<Rightarrow> mem \<Rightarrow> int \<times> u32 \<times> u64 \<times> mem" where
  "copy_from_gva stack env vm vsatp pm h_ptr gva sz err_code fault_addr mm =
    copy_gva stack env vm vsatp pm h_ptr gva sz err_code fault_addr True mm"

subsection \<open>What a copy from a guest reads\<close>

lemma same_page_lookup:
  assumes "drop_bit 12 a = drop_bit 12 b"
  shows "lookup_address env ops root a m = lookup_address env ops root b m"
proof -
  have "drop_bit (k + 12) a = drop_bit (k + 12) b" for k by (metis assms drop_bit_drop_bit)
  from this [of 27] this [of 18] this [of 9] assms show ?thesis
    by (simp add: lookup_leaf_at vpn3_index_def vpn2_index_def vpn1_index_def pte_index_def)
qed

lemma in_page:
  fixes gpa :: u64
  assumes "unat gpa mod 4096 + i < 4096"
  shows "unat (gpa + of_nat i) = unat gpa + i" "drop_bit 12 (gpa + of_nat i) = drop_bit 12 gpa"
proof -
  have "unat gpa < 18446744073709551616" using unsigned_less [of gpa] by simp
  hence "unat gpa div 4096 < 4503599627370496" by (rule less_mult_imp_div_less [OF order.strict_trans2]) simp
  moreover have "unat gpa = unat gpa div 4096 * 4096 + unat gpa mod 4096" by (rule div_mult_mod_eq [symmetric])
  ultimately have w: "unat gpa + i < 18446744073709551616" using assms by linarith
  hence i: "unat (of_nat i :: u64) = i" by (simp add: unat_of_nat)
  show u: "unat (gpa + of_nat i) = unat gpa + i"
    using w by (subst unat_add_no_wrap) (simp_all add: i)
  have "(unat gpa + i) div 4096 = unat gpa div 4096" using assms by (subst div_add1_eq) simp
  thus "drop_bit 12 (gpa + of_nat i) = drop_bit 12 gpa"
    by (simp add: word_unat_eq_iff unat_drop_bit u)
qed

lemma gpa2hpa_in_page:
  assumes "lookup_address env (s2pt_mem_ops vm) (s2ptp vm) gpa m = Some (p, PTE_SIZE)" "unat gpa mod 4096 + i < 4096"
  shows "unat (gpa2hpa env vm (gpa + of_nat i) m) = unat (gpa2hpa env vm gpa m) + i"
proof -
  have l: "lookup_address env (s2pt_mem_ops vm) (s2ptp vm) (gpa + of_nat i) m = Some (p, PTE_SIZE)"
    using same_page_lookup [OF in_page(2) [OF assms(2)]] assms(1) by simp
  have "(unat gpa + i) mod 4096 = unat gpa mod 4096 + i" using assms(2) by (metis mod_add_left_eq mod_less)
  thus ?thesis using gpa2hpa_page [OF assms(1)] gpa2hpa_page [OF l] in_page(1) [OF assms(2)] by simp
qed

text \<open>
  \<open>copy_ok\<close>: every byte of the region is on a mapped 4K page outside the kernel
  image, above the buffer at \<open>h\<close>.
\<close>

definition copy_ok :: "pt_env \<Rightarrow> s2_vm \<Rightarrow> pmem \<Rightarrow> addr \<Rightarrow> u64 \<Rightarrow> nat \<Rightarrow> bool" where
  "copy_ok env vm pm h gpa n \<longleftrightarrow> h \<noteq> 0 \<and> (\<forall>i < n. let a = gpa + of_nat i; hpa = gpa2hpa env vm a pm in
     (\<exists>p. lookup_address env (s2pt_mem_ops vm) (s2ptp vm) a pm = Some (p, PTE_SIZE)) \<and> hpa \<noteq> INVALID_HPA \<and>
     \<not> is_kernel env (hpa - phys_offset env) \<and> h + n < unat hpa)"

lemma copy_chunk:
  assumes ok: "copy_ok env vm pm h gpa (unat sz)" and sz: "sz \<noteq> 0"
  defines "len \<equiv> min (unat sz) (4096 - unat gpa mod 4096)"
  obtains l where "unat l = len" "local_copy_gpa env vm pm h gpa sz 0 True mm = (l, memcpy h (unat (gpa2hpa env vm gpa pm)) len mm)"
proof -
  have n: "0 < unat sz" using sz by (simp add: unat_gt_0)
  obtain p where p: "lookup_address env (s2pt_mem_ops vm) (s2ptp vm) gpa pm = Some (p, PTE_SIZE)" "gpa2hpa env vm gpa pm \<noteq> INVALID_HPA"
    "\<not> is_kernel env (gpa2hpa env vm gpa pm - phys_offset env)" "h + unat sz < unat (gpa2hpa env vm gpa pm)" "h \<noteq> 0"
    using ok n by (force simp: copy_ok_def Let_def)
  have g: "local_gpa2hpa env vm gpa pm = (gpa2hpa env vm gpa pm, Some 4096)"
    using p(1,2) by (auto simp: gpa2hpa_def local_gpa2hpa_def get_s2pt_entry_def PTE_SIZE_def Let_def)
  define off where "off = ucast gpa AND (0xFFF :: u32)"
  have off: "unat off = unat gpa mod 4096"
  proof -
    have "off = take_bit 12 (ucast gpa)" by (simp add: off_def take_bit_eq_mask mask_eq_exp_minus_1)
    hence "unat off = take_bit 12 (unat (ucast gpa :: u32))" by (simp only: unsigned_take_bit_eq)
    hence "unat off = unat (ucast gpa :: u32) mod 2 ^ 12" by (simp only: take_bit_eq_mod)
    moreover have "unat (ucast gpa :: u32) = unat gpa mod 2 ^ 32" by (simp add: unsigned_ucast_eq take_bit_eq_mod)
    ultimately show ?thesis by (simp add: mod_mod_cancel)
  qed
  define l where "l = (if sz > 4096 - off then 4096 - off else sz)"
  have o: "unat (4096 - off) = 4096 - unat gpa mod 4096"
    using off by (simp add: unat_sub word_le_nat_alt)
  have l: "unat l = len" using o by (auto simp: l_def len_def word_less_nat_alt)
  have "local_copy_gpa env vm pm h gpa sz 0 True mm = (l, snd (memcpy_s h len (unat (gpa2hpa env vm gpa pm)) len mm))"
    using p(3) l unfolding l_def by (auto simp: local_copy_gpa_def g hpa2hva_def off_def [symmetric] Let_def)
  moreover have "len \<noteq> 0" "len \<le> unat sz" using n by (simp_all add: len_def)
  ultimately show ?thesis using that [OF l] p(4,5) by (simp add: memcpy_s_def)
qed

lemma copy_ok_rest:
  assumes "copy_ok env vm pm h gpa n" "k \<le> n"
  shows "copy_ok env vm pm (h + k) (gpa + of_nat k) (n - k)"
  unfolding copy_ok_def
proof (intro conjI allI impI)
  show "h + k \<noteq> 0" using assms(1) by (simp add: copy_ok_def)
  fix i assume "i < n - k"
  hence "k + i < n" by simp
  hence "let a = gpa + of_nat (k + i); hpa = gpa2hpa env vm a pm in
     (\<exists>p. lookup_address env (s2pt_mem_ops vm) (s2ptp vm) a pm = Some (p, PTE_SIZE)) \<and> hpa \<noteq> INVALID_HPA \<and>
     \<not> is_kernel env (hpa - phys_offset env) \<and> h + n < unat hpa"
    using assms(1) unfolding copy_ok_def by blast
  thus "let a = gpa + of_nat k + of_nat i; hpa = gpa2hpa env vm a pm in
     (\<exists>p. lookup_address env (s2pt_mem_ops vm) (s2ptp vm) a pm = Some (p, PTE_SIZE)) \<and> hpa \<noteq> INVALID_HPA \<and>
     \<not> is_kernel env (hpa - phys_offset env) \<and> h + k + (n - k) < unat hpa"
    using assms(2) by (simp add: Let_def add.assoc)
qed

lemma copy_gpa_0 [simp]: "copy_gpa env vm pm h gpa 0 fr mm = (0, mm)"
  by (subst copy_gpa.simps) simp

lemma copy_from_guest:
  assumes "copy_ok env vm pm h gpa (unat sz)"
  shows "\<exists>mm'. copy_gpa env vm pm h gpa sz True mm = (0, mm') \<and>
    (\<forall>i < unat sz. mm' (h + i) = mm (unat (gpa2hpa env vm (gpa + of_nat i) pm))) \<and>
    (\<forall>a. a < h \<or> h + unat sz \<le> a \<longrightarrow> mm' a = mm a)"
  using assms
proof (induction "unat sz" arbitrary: sz h gpa mm rule: less_induct)
  case less
  show ?case
  proof (cases "sz = 0")
    case True
    show ?thesis unfolding True by (rule exI [of _ mm]) simp
  next
    case False
    have n: "0 < unat sz" using False by (simp add: unat_gt_0)
    define g where "g = unat (gpa2hpa env vm gpa pm)"
    obtain l where l: "unat l = min (unat sz) (4096 - unat gpa mod 4096)"
      "local_copy_gpa env vm pm h gpa sz 0 True mm = (l, memcpy h g (unat l) mm)"
      using copy_chunk [OF less.prems False, of mm] unfolding g_def by metis
    have nz: "l \<noteq> 0" "unat l \<le> unat sz" "unat gpa mod 4096 + unat l \<le> 4096" using l(1) n by (auto simp: min_def split: if_splits)
    have sub: "unat (sz - l) = unat sz - unat l" using nz(2) by (simp add: unat_sub word_le_nat_alt)
    have lt: "unat (sz - l) < unat sz" 
    proof -
      have "unat l \<noteq> 0" using nz(1) by (simp add: unat_eq_zero)
      thus ?thesis using sub nz(2) by linarith
    qed
    have gpa': "gpa + ucast l = gpa + of_nat (unat l)" by simp
    let ?mm = "memcpy h g (unat l) mm"
    have hg: "h + unat sz < g" using less.prems n unfolding copy_ok_def g_def Let_def by (auto dest!: spec [of _ 0])
    have m: "?mm a = (if h \<le> a \<and> a < h + unat l then mm (g + (a - h)) else mm a)" for a
      by (rule memcpy_apply) (use hg in simp)
    have last: "h + unat l + unat (sz - l) = h + unat sz" using sub nz(2) by simp
    have "copy_ok env vm pm (h + unat l) (gpa + of_nat (unat l)) (unat (sz - l))"
      using copy_ok_rest [OF less.prems nz(2)] by (simp only: sub)
    from less.hyps [OF lt this, of ?mm, unfolded last, unfolded sub]
    obtain mm' where mm': "copy_gpa env vm pm (h + unat l) (gpa + of_nat (unat l)) (sz - l) True ?mm = (0, mm')"
      "\<forall>i < unat sz - unat l. mm' (h + unat l + i) = ?mm (unat (gpa2hpa env vm (gpa + of_nat (unat l) + of_nat i) pm))"
      "\<forall>a. a < h + unat l \<or> h + unat sz \<le> a \<longrightarrow> mm' a = ?mm a" by (elim exE conjE) (rule that)
    have "copy_gpa env vm pm h gpa sz True mm = (0, mm')"
      by (simp only: copy_gpa.simps [of env vm pm h gpa sz] l(2) Let_def prod.case False nz(1) if_False gpa' mm'(1))
    moreover have "mm' (h + i) = mm (unat (gpa2hpa env vm (gpa + of_nat i) pm))" if i: "i < unat sz" for i
    proof (cases "i < unat l")
      case True
      obtain p where p: "lookup_address env (s2pt_mem_ops vm) (s2ptp vm) gpa pm = Some (p, PTE_SIZE)"
        using less.prems n unfolding copy_ok_def Let_def by (auto dest!: spec [of _ 0])
      have "unat (gpa2hpa env vm (gpa + of_nat i) pm) = g + i"
        unfolding g_def by (rule gpa2hpa_in_page [OF p]) (use True nz(3) in simp)
      thus ?thesis using mm'(3) m True by simp
    next
      case False
      have "h + unat sz < unat (gpa2hpa env vm (gpa + of_nat i) pm)" using less.prems i by (auto simp: copy_ok_def Let_def)
      thus ?thesis using mm'(2) [rule_format, of "i - unat l"] m False i nz(2) by (auto simp: add.assoc)
    qed
    ultimately show ?thesis using mm'(3) m nz(2) by auto
  qed
qed

end
