(* ===== verification/Guest_Examples.thy ===== *)
theory Guest_Examples
  imports Hv_Live Irq
begin

text \<open>
  A concrete system that meets the hypotheses of the theorems on guests: hart 0
  runs the vCPU of virtual machine 2, the vCPU of the service VM is blocked on
  hart 1, and all other harts are idle.  Addresses are chosen by residue modulo
  4: idle threads 1, vCPUs 2, timers and timer lists 3, run queues 0.
\<close>

definition demo_v :: addr where "demo_v = 2"
definition demo_w :: addr where "demo_w = 6"

definition demo_home :: "addr \<Rightarrow> nat option" where
  "demo_home t = (if t = demo_v then Some 0 else if t = demo_w then Some 1 else None)"

definition demo_nodes :: "addr set" where "demo_nodes = {n. n mod 4 = 3}"

definition demo_thread :: thread_object where
  "demo_thread = \<lparr>thr_pcpu_id = 0, thr_sched_ctl = 0, thread_entry = Some VCPU_THREAD, thr_status = THREAD_STS_RUNNING,
     be_blocking = False, host_sp = 0, switch_out = Some CONTEXT_SWITCH_OUT, switch_in = Some CONTEXT_SWITCH_IN\<rparr>"

definition demo_idle :: "nat \<Rightarrow> thread_object" where
  "demo_idle c = demo_thread\<lparr>thr_pcpu_id := c, thr_sched_ctl := c, thread_entry := Some DEFAULT_IDLE,
     thr_status := (if c = 0 then THREAD_STS_RUNNABLE else THREAD_STS_RUNNING), switch_out := None, switch_in := None\<rparr>"

definition demo_slot :: acrn_io_request where
  "demo_slot = \<lparr>ioreq_type = 0, completion_polling = 0,
     ioreq_reqs = \<lparr>direction = 0, req_address = 0, req_size = 0, req_value = 0\<rparr>, processed = ACRN_IOREQ_STATE_FREE\<rparr>"

definition demo_machine :: "nat \<Rightarrow> acrn_vm" where
  "demo_machine m = \<lparr>vmid = m, vm_st = VM_RUNNING, created_vcpus = 1, clint_page = zero_clint, mtip = 0,
     clint_base = DEFAULT_CLINT_BASE, kernel_entry = 0, io_shared_page = Some (\<lambda>_. demo_slot), is_polling_ioreq = False,
     asyncio_sbuf = 0, aio_desc = (\<lambda>_. \<lparr>aio_type = 0, aio_addr = 0, aio_fd = 0\<rparr>), asyncio_lock = spinlock_init,
     emul_mmio_lock = spinlock_init, nr_emul_mmio_regions = 0, emul_mmio = (\<lambda>_. zero_mmio_node),
     emul_pio = (\<lambda>_. \<lparr>port_start = 0, port_end = 0, io_read = None, io_write = None\<rparr>)\<rparr>"

definition demo_guest :: guest_state where
  "demo_guest = \<lparr>lnext = (\<lambda>a. if a = 100 then 2 else if a = 2 then 100 else a),
     lprev = (\<lambda>a. if a = 100 then 2 else if a = 2 then 100 else a),
     sstatus = 0, pcpu_id = 0,
     timers = \<lambda>_. \<lparr>timer_mode = TICK_MODE_ONESHOT, timeout = 0, period_in_cycle = 0, timer_func = Some VCLINT_TIMER_EXPIRED, priv_data = demo_v\<rparr>,
     timer_list = \<lambda>c. 4 * c + 3, mtimecmp = \<lambda>_. 0, mtime_at = \<lambda>n. 1000 + of_nat n, mtime_reads = 0, cpu_khz = 16777, boot_count = 0,
     threads = (\<lambda>t. if t = demo_v then demo_thread
       else if t = demo_w then demo_thread\<lparr>thr_pcpu_id := 1, thr_sched_ctl := 1, thr_status := THREAD_STS_BLOCKED\<rparr>
       else demo_idle (t div 4)),
     sched_ctl = (\<lambda>c. \<lparr>ctl_pcpu_id = c, ctl_flags = 0, curr_obj = (if c = 0 then demo_v else 4 * c + 1), scheduler_lock = spinlock_init\<rparr>),
     idle = \<lambda>c. 4 * c + 1, mode_to_idle = \<lambda>_. IDLE_MODE_HLT, mode_to_kick_pcpu = \<lambda>_. DEL_MODE_IPI, prepare_cpu = \<lambda>_. True, msip = \<lambda>_. 0,
     iorr_data = \<lambda>_. \<lparr>slice_cycles = 100, last_cycles = 0, left_cycles = 100\<rparr>, iorr_runqueue = \<lambda>c. 4 * c + 100,
     iorr_tick_timer = \<lambda>c. 4 * c + 1003,
     sched_events = \<lambda>_. \<lparr>ev_lock = spinlock_init, ev_set = False, waiting_thread = 0\<rparr>,
     vcpus = (\<lambda>v. if v = demo_v then zero_vcpu\<lparr>vcpu_vm := 2, vstate := VCPU_RUNNING\<rparr>
       else zero_vcpu\<lparr>vcpu_pcpu_id := 1, vstate := VCPU_INIT\<rparr>),
     vms = demo_machine,
     vm_configs = \<lparr>load_order = POST_LAUNCHED_VM, guest_flags = 0,
       cfg_sched_params = \<lparr>prio = 1, bvt_weight = 0, bvt_warp_value = 0, bvt_warp_limit = 0, bvt_unwarp_period = 0\<rparr>\<rparr>,
     hw_vcpu = \<lambda>m i. if m = 0 then demo_w else demo_v, vtimer = \<lambda>m i. 40 * m + 4 * i + 10003,
     vcpu_event = \<lambda>v k. 3 * v + k, aio_node = \<lambda>m i. 0, aiodesc_queue = \<lambda>m. 0, stack_top = \<lambda>_. 0x1000, csr = \<lambda>_. 0,
     vcpu_run = \<lambda>_. 0, ever_run_vcpu = \<lambda>_. 0, vcpu_array = \<lambda>_ _. 0, swi_type = \<lambda>_. 0, swi_param = \<lambda>_. 0,
     sbufs = \<lambda>_. \<lparr>magic = 0, ele_num = 0, ele_size = 0, head = 0, tail = 0, sflags = 0, overrun_cnt = 0, sbsize = 0\<rparr>,
     gmem = \<lambda>_. 0, asyncio_fd_var = 0, acrn_hsm_notification_vector = 0\<rparr>"

lemma demo_homed: "homed demo_home c = (if c = 0 then {2} else if c = 1 then {6} else {})"
  by (auto simp: homed_def demo_home_def demo_v_def demo_w_def)

lemma demo_iorr: "iorr_rel (homed demo_home) demo_guest (\<lambda>c. if c = 0 then [2] else [])"
  by (auto simp: iorr_rel_def demo_homed demo_guest_def dll_def inj_def demo_thread_def demo_v_def demo_w_def)

lemma demo_iorr_runq: "iorr_runq (homed demo_home) c demo_guest = (if c = 0 then {2} else {})"
  using iorr_runq_eq [OF demo_iorr, of c] by simp

lemma demo_sched: "sched_inv (iorr_inv (homed demo_home)) (iorr_runq (homed demo_home)) (homed demo_home) demo_guest"
proof -
  have "iorr_inv (homed demo_home) demo_guest" using demo_iorr by (auto simp: iorr_inv_def)
  moreover have "sched_core (iorr_runq (homed demo_home)) (homed demo_home) demo_guest"
    unfolding sched_core_def demo_iorr_runq demo_homed
    by (auto simp: demo_guest_def demo_idle_def demo_thread_def demo_v_def demo_w_def is_running_def is_blocked_def; presburger)
  ultimately show ?thesis by (simp add: sched_inv_def demo_guest_def lock_free_def spinlock_init_def)
qed

lemma demo_guest_inv: "guest_inv demo_home demo_guest"
  using demo_sched by (simp add: event_inv_def events_ok_def demo_guest_def lock_free_def spinlock_init_def)

lemma demo_vm_run: "P (others demo_v demo_guest) \<Longrightarrow> vm_run demo_home demo_nodes demo_v P demo_guest"
proof -
  have "guest_timer_inv demo_home demo_nodes demo_guest"
    using demo_guest_inv by (auto simp: guest_timer_inv_def demo_homed demo_nodes_def demo_guest_def; presburger)
  moreover have "links_closed demo_nodes demo_guest" by (auto simp: links_closed_def demo_nodes_def demo_guest_def)
  moreover have "timer_list demo_guest c \<in> demo_nodes" "vtimer demo_guest m i \<in> demo_nodes" for c m i
    by (simp_all add: demo_guest_def demo_nodes_def; presburger)+
  moreover have "switch_in (threads demo_guest t) \<noteq> Some CONTEXT_SWITCH_OUT" for t
    by (simp add: demo_guest_def demo_thread_def demo_idle_def CONTEXT_SWITCH_OUT_def CONTEXT_SWITCH_IN_def)
  ultimately show "P (others demo_v demo_guest) \<Longrightarrow> vm_run demo_home demo_nodes demo_v P demo_guest"
    by (simp add: vm_run_def vm_sys_def demo_homed) (simp add: demo_guest_def demo_v_def)
qed

subsection \<open>Its environment\<close>

text \<open>
  While the vCPU waits nothing runs; the guest leaves with an illegal instruction.
\<close>

definition demo_exits :: "guest_state exit_env" where
  "demo_exits = \<lparr>env_dispatch = Some, env_handler = (\<lambda>f d r s. Some (0, r, s)),
     env_away = (\<lambda>s. if pcpu_id s = 0 \<and> curr_obj (sched_ctl s 0) = demo_v then Some s else None)\<rparr>"

definition demo_vmrun :: "addr \<Rightarrow> guest_state \<Rightarrow> (int \<times> guest_state) option" where
  "demo_vmrun v s = Some (0, upd_vcpu v (set_ctx_word REG_CAUSE 2) s)"

lemma demo_exits_ok: "env_ok demo_home demo_nodes demo_v P demo_exits"
  by (auto simp: env_ok_def away_ok_def handler_ok_def demo_exits_def vm_off_def vm_run_def demo_homed demo_v_def split: if_splits)

lemma demo_vmrun_ok: "enter_ok demo_home demo_nodes demo_v P demo_vmrun" "quick_entry demo_vmrun demo_v"
  by (auto simp: enter_ok_def demo_vmrun_def intro!: local_run [OF _ local_base_steps(1)])
    (simp add: quick_entry_def demo_vmrun_def upd_vcpu_def)

lemma demo_quiet:
  "\<not> need_reschedule demo_guest c" "pending_req (vcpus demo_guest v) = 0" "pcpu_id demo_guest = 0"
  "curr_obj (sched_ctl demo_guest 0) = demo_v"
  by (simp_all add: demo_guest_def need_reschedule_def bitmap_test_def zero_vcpu_def)

lemma demo_round: "\<exists>s'. vcpu_thread demo_exits demo_vmrun 1 demo_v demo_guest = Some s'"
  using vcpu_round_returns [OF demo_exits_ok demo_vmrun_ok demo_vm_run [where P = "\<lambda>_. True"]]
  by (auto simp: demo_quiet)

text \<open>A timer of machine 2 is due on hart 0.\<close>

definition demo_due :: guest_state where
  "demo_due = demo_guest\<lparr>lnext := (lnext demo_guest)(3 := 10083, 10083 := 3), lprev := (lprev demo_guest)(3 := 10083, 10083 := 3),
     timers := (timers demo_guest)(10083 := (timers demo_guest 10083)\<lparr>timeout := 5\<rparr>)\<rparr>"

lemma demo_due_inv: "guest_timer_inv demo_home demo_nodes demo_due"
proof (rule timer_frame_guest)
  show "guest_timer_inv demo_home demo_nodes demo_guest" using demo_vm_run [where P = "\<lambda>_. True"] by (simp add: vm_run_def vm_sys_def)
  show "timer_frame demo_nodes demo_guest demo_due" by (auto simp: timer_frame_def demo_due_def demo_nodes_def)
qed

lemma demo_due_queue: "timer_queue demo_due (timer_list demo_due 0) [10083]" "set (timer_list demo_due 0 # [10083]) \<subseteq> demo_nodes"
  "mtime_at demo_due (mtime_reads demo_due) = 1000" "timeout_of demo_due 10083 = 5" "\<not> is_periodic demo_due 10083"
  "timer_cb demo_due 10083 = (VCLINT_TIMER_EXPIRED, demo_v)"
  by (simp_all add: timer_queue_def timer_armed_def timer_cb_def is_periodic_def dll_def demo_due_def demo_guest_def demo_nodes_def)

text \<open>A polled read of the vCPU of machine 2 at address \<open>0x1000\<close>.\<close>

definition demo_read :: guest_state where
  "demo_read = upd_vm 2 (\<lambda>m. m\<lparr>is_polling_ioreq := True\<rparr>) (upd_vcpu demo_v (\<lambda>c. c\<lparr>req := \<lparr>io_type = ACRN_IOREQ_TYPE_MMIO,
     reqs = \<lparr>direction = ACRN_IOREQ_DIR_READ, req_address = 0x1000, req_size = 8, req_value = 0\<rparr>\<rparr>\<rparr>) demo_guest)"

lemma demo_read_inv: "guest_inv demo_home demo_read"
  unfolding demo_read_def by (rule guest_frame_inv [OF guest_frame_trans [OF upd_vcpu_frame upd_vm_frame] demo_guest_inv])

lemma demo_read_fields:
  "vcpu_vm (vcpus demo_read demo_v) = 2" "vcpu_id (vcpus demo_read demo_v) = 0" "vstate (vcpus demo_read demo_v) = VCPU_RUNNING"
  "req (vcpus demo_read demo_v) = \<lparr>io_type = ACRN_IOREQ_TYPE_MMIO,
     reqs = \<lparr>direction = ACRN_IOREQ_DIR_READ, req_address = 0x1000, req_size = 8, req_value = 0\<rparr>\<rparr>"
  "vms demo_read 2 = (demo_machine 2)\<lparr>is_polling_ioreq := True\<rparr>" "load_order (vm_configs demo_read) = POST_LAUNCHED_VM"
  by (simp_all add: demo_read_def demo_guest_def upd_vm_def upd_vcpu_def zero_vcpu_def)

subsection \<open>Interrupts\<close>

definition demo_irqs :: irq_state where
  "demo_irqs = \<lparr>lnext = id, lprev = id, sstatus = 0, pcpu_id = 0, softirq_pending = \<lambda>_. 0, softirq_servicing = \<lambda>_. 0, softirq_handlers = \<lambda>_. 0,
     irq_alloc_bitmap = \<lambda>_. 0, irq_rsvd_bitmap = \<lambda>_. 0, irq_alloc_spinlock = spinlock_init,
     irq_desc_array = \<lambda>i. \<lparr>desc_irq = of_nat i, arch_data = Some i, irq_action = None, irq_priv = 0, irq_flags = 0, irq_lock = spinlock_init\<rparr>,
     irq_count = \<lambda>_ _. 0, riscv_irq_spinlock = spinlock_init,
     irq_data = \<lambda>_. \<lparr>irq_vector = 0, irq_status = 2, irq_type = 0, irqchip = None\<rparr>,
     riscv_irq_desc = \<lambda>i. \<lparr>desc_irq = of_nat i, arch_data = None, irq_action = None, irq_priv = 0, irq_flags = 0, irq_lock = spinlock_init\<rparr>,
     plic_lock = spinlock_init, plic_reg = \<lambda>_. 0, plic_claim = \<lambda>_. 0, plic_claims = 0\<rparr>"

end
