(* ===== verification/Examples.thy ===== *)
theory Examples
  imports Guest_Memory Timer
begin

text \<open>
  Concrete instances of the hypotheses of the development: a memory layout with
  the page arrays of the guests, two guests, and the tables of a guest that has
  no mapping yet.  They show that the conditions under which the operations are
  specified can be met.
\<close>

definition demo_env :: pt_env where
  "demo_env = \<lparr>phys_offset = 0, kern_start = 0x80000000, kern_end = 0x90000000\<rparr>"

definition demo_arrays :: vm_page_arrays where
  "demo_arrays = \<lparr>vm_vpn3_pages = 0x80000000, vm_vpn2_pages = 0x80010000, vm_vpn1_pages = 0x80020000,
     vm_vpn0_pages = 0x80100000\<rparr>"

definition demo_vm :: "u16 \<Rightarrow> s2_vm" where
  "demo_vm i = \<lparr>vm_id = i, s2ptp = vpn3_base (info (init_s2pt_mem_ops demo_arrays (unat i))),
     s2pt_satp = 0, s2pt_mem_ops = init_s2pt_mem_ops demo_arrays (unat i), s2pt_lock = spinlock_init\<rparr>"

definition demo_ptm :: pmem where
  "demo_ptm = clear_page (pbase (s2pt_pools demo_arrays 0) 3) (\<lambda>_. 0)"

definition demo_s2 :: s2_state where
  "demo_s2 = \<lparr>lnext = \<lambda>_. 0, lprev = \<lambda>_. 0, sstatus = 0, pcpu_id = 0, hgatp = 0, gtlb_flushes = [],
     ptm = demo_ptm, s2vm_inital_level = 0\<rparr>"

lemma demo_arrays_ok: "arrays_ok demo_env demo_arrays"
  by (auto simp: arrays_ok_def less_4_cases demo_env_def demo_arrays_def array_base_def array_end_def page_num_def
      CONFIG_MAX_VM_NUM_def)

lemma demo_guest_ok: "unat i < 6 \<Longrightarrow> guest_ok demo_arrays (demo_vm i)"
  by (simp add: guest_ok_def demo_vm_def CONFIG_MAX_VM_NUM_def)

lemma demo_vm_pools: "vm_pools demo_arrays (demo_vm 0) = s2pt_pools demo_arrays 0"
  by (simp add: demo_vm_def)

lemma demo_tables:
  "pt_inv demo_env (vm_pools demo_arrays (demo_vm 0)) (ptm demo_s2)"
  "a < 2 ^ 32 \<Longrightarrow> translate (vm_pools demo_arrays (demo_vm 0)) (ptm demo_s2) a = None"
proof -
  have L: "pool_layout demo_env (s2pt_pools demo_arrays 0)"
    by (rule s2pt_layout [OF demo_arrays_ok]) (simp add: CONFIG_MAX_VM_NUM_def)
  show "pt_inv demo_env (vm_pools demo_arrays (demo_vm 0)) (ptm demo_s2)"
    unfolding demo_vm_pools using cleared_root(1) [OF L] by (simp add: demo_s2_def demo_ptm_def)
  show "a < 2 ^ 32 \<Longrightarrow> translate (vm_pools demo_arrays (demo_vm 0)) (ptm demo_s2) a = None"
    unfolding demo_vm_pools using cleared_root(2) [OF L, of a] by (simp add: demo_s2_def demo_ptm_def)
qed

lemma demo_region: "region_ok demo_env 0xA0000000 0x80000000 0x200000"
  by (simp add: region_ok_def demo_env_def)

text \<open>A store in which page 0 of guest 0 is mapped by a 4K entry to frame \<open>0xA0000\<close>.\<close>

definition demo_4k :: pmem where
  "demo_4k = (\<lambda>_. 0)(0x80000000 := 0x20004001, 0x80010000 := 0x20008001, 0x80020000 := 0x20040001,
     0x80100000 := 0x2800001F)"

lemma demo_4k_lookup:
  "lookup_address demo_env (s2pt_mem_ops (demo_vm 0)) (s2ptp (demo_vm 0)) 0x234 demo_4k = Some (0x80100000, PTE_SIZE)"
  by (simp add: lookup_address_def vpn3_offset_def vpn2_offset_def vpn1_offset_def pte_offset_def vpn3_index_def
      vpn2_index_def vpn1_index_def pte_index_def vpn_to_vaddr_def hpa2hva_def is_kernel_def pgtable_get_mfn_def
      VPN1_PFN_MASK_def vpn_large_def PAGE_V_def PAGE_TYPE_MASK_def PAGE_TYPE_TABLE_def demo_4k_def demo_vm_def
      demo_env_def demo_arrays_def init_s2pt_mem_ops_def page_row_def s2pt_pgentry_present_def Let_def)

text \<open>Three bytes of the mapped page can be copied to a buffer at \<open>0x1000\<close>.\<close>

lemma demo_4k_page:
  assumes "i < 4096"
  shows "lookup_address demo_env (s2pt_mem_ops (demo_vm 0)) (s2ptp (demo_vm 0)) (of_nat i) demo_4k = Some (0x80100000, PTE_SIZE)"
  using same_page_lookup [OF in_page(2) [of 0 i]] same_page_lookup [of 0 "0x234"] demo_4k_lookup assms
  by (simp add: drop_bit_eq_div)

lemma demo_4k_hpa: "i < 4096 \<Longrightarrow> unat (gpa2hpa demo_env (demo_vm 0) (of_nat i) demo_4k) = 0x28000000 + i"
  using gpa2hpa_page [OF demo_4k_page [of i]] by (simp add: demo_4k_def pgtable_get_mfn_def unat_of_nat)

lemma demo_copy_ok: "copy_ok demo_env (demo_vm 0) demo_4k 0x1000 0x234 3"
  unfolding copy_ok_def Let_def
proof (intro conjI allI impI)
  fix i :: nat assume "i < 3"
  define j where "j = 0x234 + i"
  have j: "0x234 + of_nat i = (of_nat j :: u64)" "j < 4096" using \<open>i < 3\<close> by (simp_all add: j_def)
  note h = demo_4k_hpa [OF j(2)]
  show "\<exists>p. lookup_address demo_env (s2pt_mem_ops (demo_vm 0)) (s2ptp (demo_vm 0)) (0x234 + of_nat i) demo_4k = Some (p, PTE_SIZE)"
    unfolding j(1) using demo_4k_page [OF j(2)] by blast
  show "gpa2hpa demo_env (demo_vm 0) (0x234 + of_nat i) demo_4k \<noteq> INVALID_HPA"
    unfolding j(1) using h j(2) by (auto simp: INVALID_HPA_def)
  show "\<not> is_kernel demo_env (gpa2hpa demo_env (demo_vm 0) (0x234 + of_nat i) demo_4k - phys_offset demo_env)"
    unfolding j(1) using h j(2) by (simp add: is_kernel_def demo_env_def [THEN arg_cong [of _ _ kern_start]] demo_env_def [THEN arg_cong [of _ _ phys_offset]] word_le_nat_alt)
  show "0x1000 + 3 < unat (gpa2hpa demo_env (demo_vm 0) (0x234 + of_nat i) demo_4k)"
    unfolding j(1) h by simp
qed simp

text \<open>A hart with an empty timer queue and one armed timer.\<close>

definition demo_timers :: timer_state where
  "demo_timers = \<lparr>lnext = id, lprev = id, sstatus = 0, pcpu_id = 0,
     timers = \<lambda>_. \<lparr>timer_mode = TICK_MODE_ONESHOT, timeout = 1000, period_in_cycle = 0, timer_func = Some 1, priv_data = 0\<rparr>,
     timer_list = \<lambda>_. 5, mtimecmp = \<lambda>_. 0, mtime_at = of_nat, mtime_reads = 0, cpu_khz = 16777, boot_count = 0\<rparr>"

lemma demo_timer_queue: "timer_queue demo_timers (timer_list demo_timers 0) []"
  by (simp add: timer_queue_def demo_timers_def dll_def)

end
