(* ===== verification/Spec2Isabelle.thy ===== *)
theory Spec2Isabelle
  imports List_Head Bits Spinlock Timer Schedule Sched_Iorr Format_Text Sbuf S2vm Softirq Irq Hv_Main Hv_Live Guest_Memory Guest_Examples Examples
begin

text \<open>
  Verification of the RISC-V port of the ACRN hypervisor (\<open>src/hypervisor\<close>, the
  files that \<open>riscv.mk\<close> builds).

  The hypervisor multiplexes harts between virtual machines.  Its parts, and the
  theories that model them, build on each other in this order; file names are
  relative to \<open>src/hypervisor\<close>.

  Library code.
  \<^item> \<open>Prelude\<close>: integer types, collections of simplification rules, generic facts.
  \<^item> \<open>List_Head\<close>: the intrusive lists of \<open>include/lib/list.h\<close> at the pointer level.
    \<open>dll\<close> relates a ring of nodes to a HOL list; the locale \<open>linked_list\<close> is what
    users of lists rely on, and is interpreted on the operations.
  \<^item> \<open>Bits\<close>: \<open>asm/lib/bits.h\<close> and \<open>arch/riscv/lib/bits.c\<close>, with the \<open>int\<close> shift of
    the code; the searches find the first index with the property.
  \<^item> \<open>Spinlock\<close>: interrupt masking and the ticket lock.  Operations run by one hart
    return \<open>None\<close> when they would spin on a lock they hold; between harts the lock
    is a step relation on its atomic instructions, with mutual exclusion and
    service in the order of the tickets.
  \<^item> \<open>Memory\<close>, \<open>Strings\<close>, \<open>Sprintf\<close>, \<open>Format_Text\<close>: byte memory with
    \<open>arch/riscv/lib/memory.c\<close>, then \<open>lib/string.c\<close>, \<open>debug/string.c\<close>,
    \<open>lib/sprintf.c\<close>, \<open>debug/printf.c\<close>, \<open>debug/console.c\<close>, \<open>arch/riscv/uart.c\<close>.  The
    formatter is proved to emit the text of its format for every emitter that
    meets the locale \<open>text_sink\<close>; buffer and console are its interpretations.

  Services of the core.
  \<^item> \<open>Timer\<close>: \<open>arch/riscv/timer.c\<close> and \<open>common/ticks.c\<close>: the queue of each hart is
    sorted, and the handler serves what has expired.  The locale \<open>timer_client\<close> is
    what a callback may do.
  \<^item> \<open>Softirq\<close>, \<open>Irq\<close>, \<open>Sbuf\<close>: \<open>common/softirq.c\<close>; \<open>common/irq.c\<close>,
    \<open>arch/riscv/irq.c\<close> and \<open>plic.c\<close>; the shared ring buffer \<open>common/sbuf.c\<close>, which
    refines a bounded queue.
  \<^item> \<open>Schedule\<close>, \<open>Sched_Iorr\<close>, \<open>Event\<close>: \<open>common/schedule.c\<close>, the round-robin policy
    \<open>common/sched_iorr.c\<close>, and \<open>common/event.c\<close>.  The locale \<open>sched_policy\<close> is the
    contract between framework and policy; \<open>event_policy\<close> extends it, and both are
    interpreted on the policy the port is built with.

  Page tables.
  \<^item> \<open>Pgtable\<close>, \<open>Page_Map\<close>, \<open>Pager\<close>: \<open>arch/riscv/pgtable.c\<close> and \<open>pager.c\<close>.  \<open>Page_Map\<close>
    defines what tables translate and proves that \<open>mmu_add\<close> adds exactly the
    mapping it is asked for, from the contract \<open>page_alloc\<close> of the page
    allocators, which the host and the guest allocators meet.
  \<^item> \<open>S2vm\<close>: \<open>arch/riscv/guest/s2vm.c\<close>, the second stage of the guests: regions are
    mapped as asked, guests are apart, the walk visits every entry.
  \<^item> \<open>Guest_Memory\<close>: \<open>arch/riscv/guest/guest_memory.c\<close>, the copies from and to the
    memory of a guest, page by page, and the walk over the tables of the guest.

  Virtualisation.  A vCPU is the address of its thread, a machine its index.
  \<^item> \<open>Guest\<close>, \<open>Vcpu\<close>: the state of guests, and registers, requests and context
    switches (\<open>arch/riscv/guest/vcpu.c\<close>, \<open>vmcs.c\<close>, \<open>arch/riscv/clint.c\<close>).
  \<^item> \<open>Vclint\<close>, \<open>Virq\<close>, \<open>Io_Req\<close>: \<open>vclint.c\<close>, \<open>virq.c\<close>, \<open>dm/io_req.c\<close> and \<open>vio.c\<close>: timers and
    interrupts of a guest, exceptions, and the emulation of I/O by handlers of the
    hypervisor or by the service VM.
  \<^item> \<open>Vm\<close>, \<open>Vmexit\<close>, \<open>Hv_Main\<close>: the life of vCPUs and machines (\<open>vcpu.c\<close>, \<open>vm.c\<close>), the
    dispatch of exits with hypercalls and register emulation (\<open>vmexit.c\<close>,
    \<open>vmcall.c\<close>, \<open>vcsr.c\<close>), and the threads of \<open>common/hv_main.c\<close>.
  \<^item> \<open>Guest_Inv\<close>, \<open>Hv_Main\<close>, \<open>Hv_Live\<close>: the invariant of the system, that a vCPU thread
    keeps it whatever its guest does and leaves the saved registers of other vCPUs
    alone, and what is certain to happen: rounds return, started machines are
    queued, halted vCPUs wake up, requests are answered.
  \<^item> \<open>Examples\<close>, \<open>Guest_Examples\<close>: concrete layouts and systems that meet the
    hypotheses of the theorems.

  How the code is read.  A state record holds the variables of a component and
  extends the record of the component below.  Function pointers are numbers, run by
  a parameter; a null pointer is 0 or \<open>None\<close>, and calling or dereferencing one is the
  result \<open>None\<close>.  Machine integers have their width and wrap around.  Code outside
  the C sources is a parameter: the assembly that enters a guest (\<open>vmrun\<close>), what
  other threads and harts do while a thread waits (\<open>away\<close>), the clock, the linker's
  addresses.  Its hypotheses are named in \<open>env_ok\<close>, \<open>enter_ok\<close>, \<open>handler_ok\<close> and
  \<open>away_ok\<close>.

  Loops.  No fuel is used.  A loop that need not end is a partial function whose
  value is \<open>None\<close> when it does not return; the theorems state that it does return.
  The loops of the threads, which never end in the code, are run for any number of
  rounds (\<open>vcpu_thread\<close>).  The copies of guest memory end because each step copies
  at least one byte.

  Bounds are those of the configuration: \<open>NR_CPUS\<close> harts, \<open>CONFIG_MAX_VM_NUM\<close> machines,
  guest addresses below \<open>CONFIG_GUEST_ADDRESS_SPACE_SIZE\<close> for the second stage.

  Not modelled: assembly and start-up code, trap tables (\<open>trap.c\<close>, \<open>mtrap.c\<close>), calls
  between harts (\<open>notify.c\<close>), the shell and log messages, hash lists, and files
  that the RISC-V build leaves out (virtual PLIC, hypercall services, other
  scheduling policies, PCI and x86 devices, boot loaders, ACPI, cryptography).
  \<open>create_vm\<close> is modelled in its parts and not as a whole.  Memory ordering between
  harts is sequentially consistent.
\<close>


text \<open>
  C1. Adding a memory region to a guest: \<open>s2pt_add_mr\<close> returns, with the lock of
  the guest free again; the tables stay well formed; every address of the region
  that had no translation now translates to the memory behind it, every other
  address translates as before; and the TLB was flushed under the root table of
  this guest.
\<close>

theorem s2pt_add_mr_region:
  assumes "arrays_ok env arrays" and "guest_ok arrays vm" and "region_ok env hpa gpa len"
    and "pt_inv env (vm_pools arrays vm) (ptm s)"
  shows "\<exists>vm' s'. s2pt_add_mr env vm (s2ptp vm) hpa gpa len prot s = Some (vm', s')
    \<and> guest_ok arrays vm' \<and> pt_inv env (vm_pools arrays vm) (ptm s')
    \<and> (\<forall>a < 2 ^ 32. translate (vm_pools arrays vm) (ptm s') a =
        (if unat gpa \<le> a \<and> a < unat gpa + unat len \<and> translate (vm_pools arrays vm) (ptm s) a = None
         then Some (unat hpa + unat (phys_offset env) + (a - unat gpa))
         else translate (vm_pools arrays vm) (ptm s) a))
    \<and> hgatp s' = s2pt_satp vm \<and> gtlb_flushes s' = s2pt_satp vm # gtlb_flushes s"
proof -
  obtain lock m' where "s2pt_add_mr env vm (s2ptp vm) hpa gpa len prot s
      = Some (vm\<lparr>s2pt_lock := lock\<rparr>, s2pt_flush_guest vm (s\<lparr>ptm := m'\<rparr>))" "lock_free lock"
    "maps env (vm_pools arrays vm) 3 (unat gpa + unat len) (unat hpa) (unat gpa) (unat gpa + unat len) (ptm s) m'"
    using s2pt_add_mr_maps [OF assms] by blast
  thus ?thesis using assms(2) by (auto simp: s2pt_flush_guest_effect maps_def guest_ok_def)
qed

theorem s2pt_add_mr_region_witness:
  "\<exists>vm' s'. s2pt_add_mr demo_env (demo_vm 0) (s2ptp (demo_vm 0)) 0xA0000000 0x80000000 0x200000 0 demo_s2 = Some (vm', s')
    \<and> translate (vm_pools demo_arrays (demo_vm 0)) (ptm s') 0x80001234 = Some 0xA0001234"
proof -
  obtain vm' s' where s': "s2pt_add_mr demo_env (demo_vm 0) (s2ptp (demo_vm 0)) 0xA0000000 0x80000000 0x200000 0 demo_s2
      = Some (vm', s')"
    and t: "\<forall>a < 2 ^ 32. translate (vm_pools demo_arrays (demo_vm 0)) (ptm s') a =
        (if unat (0x80000000 :: u64) \<le> a \<and> a < unat (0x80000000 :: u64) + unat (0x200000 :: u64)
            \<and> translate (vm_pools demo_arrays (demo_vm 0)) (ptm demo_s2) a = None
         then Some (unat (0xA0000000 :: u64) + unat (phys_offset demo_env) + (a - unat (0x80000000 :: u64)))
         else translate (vm_pools demo_arrays (demo_vm 0)) (ptm demo_s2) a)"
    using s2pt_add_mr_region [OF demo_arrays_ok demo_guest_ok demo_region demo_tables(1), where prot = 0] by auto
  have "translate (vm_pools demo_arrays (demo_vm 0)) (ptm s') 0x80001234 = Some 0xA0001234"
    using spec [OF t, of "0x80001234"] demo_tables(2) [of "0x80001234"] by (simp add: demo_env_def del: walk.simps)
  thus ?thesis using s' by blast
qed

text \<open>
  C2. Guests are isolated: whatever region is added to one guest, no address of
  any other guest translates differently afterwards.
\<close>

theorem s2pt_add_mr_isolation:
  assumes "arrays_ok env arrays" and "guest_ok arrays vm" and "region_ok env hpa gpa len"
    and "pt_inv env (vm_pools arrays vm) (ptm s)"
    and "guest_ok arrays other" and "vm_id other \<noteq> vm_id vm"
  shows "\<exists>vm' s'. s2pt_add_mr env vm (s2ptp vm) hpa gpa len prot s = Some (vm', s')
    \<and> (\<forall>a < 2 ^ 32. translate (vm_pools arrays other) (ptm s') a = translate (vm_pools arrays other) (ptm s) a)"
proof -
  obtain lock m' where m': "s2pt_add_mr env vm (s2ptp vm) hpa gpa len prot s
      = Some (vm\<lparr>s2pt_lock := lock\<rparr>, s2pt_flush_guest vm (s\<lparr>ptm := m'\<rparr>))"
    "maps env (vm_pools arrays vm) 3 (unat gpa + unat len) (unat hpa) (unat gpa) (unat gpa + unat len) (ptm s) m'"
    using s2pt_add_mr_maps [OF assms(1-4)] by blast
  have "unat (vm_id vm) \<noteq> unat (vm_id other)" using assms(6) by (simp add: word_unat_eq_iff)
  hence "\<forall>a < 2 ^ 32. translate (vm_pools arrays other) m' a = translate (vm_pools arrays other) (ptm s) a"
    using maps_other_guest [OF assms(1) _ _ _ m'(2)] assms(2,5) by (simp add: guest_ok_def)
  thus ?thesis using m'(1) by (auto simp: s2pt_flush_guest_effect)
qed

theorem s2pt_add_mr_isolation_witness:
  "\<exists>vm' s'. s2pt_add_mr demo_env (demo_vm 0) (s2ptp (demo_vm 0)) 0xA0000000 0x80000000 0x200000 0 demo_s2 = Some (vm', s')
    \<and> translate (vm_pools demo_arrays (demo_vm 1)) (ptm s') 0x80001234
      = translate (vm_pools demo_arrays (demo_vm 1)) (ptm demo_s2) 0x80001234"
proof -
  have "vm_id (demo_vm 1) \<noteq> vm_id (demo_vm 0)" by (simp add: demo_vm_def)
  from s2pt_add_mr_isolation [OF demo_arrays_ok demo_guest_ok demo_region demo_tables(1) demo_guest_ok this, where prot = 0]
  obtain vm' s' where s': "s2pt_add_mr demo_env (demo_vm 0) (s2ptp (demo_vm 0)) 0xA0000000 0x80000000 0x200000 0 demo_s2
      = Some (vm', s')" "\<forall>a < 2 ^ 32. translate (vm_pools demo_arrays (demo_vm 1)) (ptm s') a
      = translate (vm_pools demo_arrays (demo_vm 1)) (ptm demo_s2) a" by auto
  have "(0x80001234 :: nat) < 2 ^ 32" by simp
  thus ?thesis using s' by blast
qed



text \<open>
  C4. vCPUs are isolated: the thread of one vCPU never writes the saved registers
  of another.  Any property of the registers of \<open>w\<close> that the rest of the system
  keeps holds after any number of rounds of \<open>v\<close>.
\<close>

theorem vcpu_thread_isolation:
  fixes s s' :: "'a guest_state_scheme" and Q :: "(nat \<Rightarrow> u64) \<Rightarrow> bool"
  assumes "w \<noteq> v" and "env_ok home N v (\<lambda>regs. Q (regs w)) env" and "enter_ok home N v (\<lambda>regs. Q (regs w)) vmrun"
    and "vm_run home N v (\<lambda>_. True) s" and "Q (contexts (vcpus s w))" and "vcpu_thread env vmrun n v s = Some s'"
  shows "Q (contexts (vcpus s' w))"
proof -
  have "vm_run home N v (\<lambda>regs. Q (regs w)) s" using assms(1,4,5) by (simp add: vm_run_def others_def)
  hence "vm_run home N v (\<lambda>regs. Q (regs w)) s'" using vcpu_thread_run [OF assms(2,3,6)] by blast
  thus ?thesis using assms(1) by (simp add: vm_run_def others_def)
qed

theorem vcpu_thread_isolation_witness:
  "\<exists>s'. vcpu_thread demo_exits demo_vmrun 1 demo_v demo_guest = Some s' \<and> contexts (vcpus s' demo_w) = (\<lambda>_. 0)"
proof -
  obtain s' where s': "vcpu_thread demo_exits demo_vmrun 1 demo_v demo_guest = Some s'" using demo_round by blast
  have "contexts (vcpus demo_guest demo_w) = (\<lambda>_. 0)" by (simp add: demo_guest_def demo_v_def demo_w_def zero_vcpu_def)
  moreover have "demo_w \<noteq> demo_v" by (simp add: demo_v_def demo_w_def)
  ultimately show ?thesis
    using vcpu_thread_isolation [where Q = "\<lambda>r. r = (\<lambda>_. 0)", OF _ demo_exits_ok demo_vmrun_ok(1) demo_vm_run _ s'] s' by simp
qed

text \<open>
  C5. The ticket lock excludes: in every state that any number of harts below
  \<open>2 ^ 64\<close> can reach by interleaving the atomic instructions of obtaining and
  releasing, at most one of them is inside, although the tickets wrap around.
\<close>

theorem spinlock_mutual_exclusion:
  assumes "lock_reach n (lock, pc)" and "n < 2 ^ 64" and "pc h = Inside" and "pc h' = Inside"
  shows "h = h'"
  using assms by (rule lock_mutual_exclusion)

theorem spinlock_mutual_exclusion_witness:
  "\<exists>lock pc. lock_reach 2 (lock, pc) \<and> pc 1 = Inside \<and> pc 0 = Spinning 1 \<and> (\<forall>h. pc h = Inside \<longrightarrow> h = 1)"
proof -
  define c1 where "c1 = (spinlock_init\<lparr>lock_head := 1\<rparr>, (\<lambda>_ :: nat. Outside)(1 := Spinning 0))"
  define c2 where "c2 = (spinlock_init\<lparr>lock_head := 2\<rparr>, (\<lambda>_ :: nat. Outside)(1 := Spinning 0, 0 := Spinning 1))"
  define c3 where "c3 = (spinlock_init\<lparr>lock_head := 2\<rparr>, (\<lambda>_ :: nat. Outside)(1 := Inside, 0 := Spinning 1))"
  have "lock_step 1 (spinlock_init, \<lambda>_. Outside) c1"
    using lock_step.draw [of "\<lambda>_. Outside" 1 spinlock_init] by (simp add: c1_def spinlock_init_def)
  hence 1: "lock_reach 2 c1" by (rule lock_reach.step [OF lock_reach.init, rotated]) simp
  have "lock_step 0 c1 c2"
    using lock_step.draw [of "(\<lambda>_. Outside)(1 := Spinning 0)" 0 "spinlock_init\<lparr>lock_head := 1\<rparr>"]
    by (simp add: c1_def c2_def spinlock_init_def)
  hence 2: "lock_reach 2 c2" by (rule lock_reach.step [OF 1, rotated]) simp
  have "lock_step 1 c2 c3"
    using lock_step.enter [of "(\<lambda>_. Outside)(1 := Spinning 0, 0 := Spinning 1)" 1 "spinlock_init\<lparr>lock_head := 2\<rparr>"]
    by (simp add: c2_def c3_def spinlock_init_def fun_upd_twist)
  hence 3: "lock_reach 2 (spinlock_init\<lparr>lock_head := 2\<rparr>, (\<lambda>_ :: nat. Outside)(1 := Inside, 0 := Spinning 1))"
    unfolding c3_def by (rule lock_reach.step [OF 2, rotated]) simp
  show ?thesis
    by (intro exI conjI, rule 3) (use spinlock_mutual_exclusion [OF 3, of _ 1] in auto)
qed

text \<open>
  C6. The ticket lock refines a queue and never gets stuck: in every reachable
  state the harts that have drawn a ticket form a queue, each step of a hart
  leaves it unchanged, appends the hart or removes it from the head, and the
  head of the queue is inside or enters with its next load.
\<close>

theorem spinlock_fifo:
  assumes "lock_reach n c" and "n < 2 ^ 64" and "h < n" and "lock_step h c c'"
  shows "\<exists>q q'. lock_queue n c q \<and> lock_queue n c' q' \<and> (q' = q \<or> q' = q @ [h] \<or> q = h # q')
    \<and> (q \<noteq> [] \<longrightarrow> snd c (hd q) = Inside \<or> lock_step (hd q) c (fst c, (snd c)(hd q := Inside)))"
proof -
  obtain q where q: "lock_queue n c q" using lock_reach_queue [OF assms(1,2)] by blast
  obtain lock pc where c: "c = (lock, pc)" by (cases c)
  have "\<exists>q'. lock_queue n c' q' \<and> (q' = q \<or> q' = q @ [h] \<or> q = h # q')"
    using lock_step_queue [OF q assms(2,3,4)] by (metis list.collapse)
  moreover have "pc (hd q) = Inside \<or> lock_step (hd q) (lock, pc) (lock, pc(hd q := Inside))" if "q \<noteq> []"
    using lock_queue_head_enabled [of n lock pc "hd q" "tl q"] q c that by auto
  ultimately show ?thesis using q c by auto
qed

theorem spinlock_fifo_witness:
  "\<exists>q q'. lock_queue 2 (spinlock_init, \<lambda>_. Outside) q
    \<and> lock_queue 2 (spinlock_init\<lparr>lock_head := 1\<rparr>, (\<lambda>_. Outside)(1 := Spinning 0)) q' \<and> (q' = q \<or> q' = q @ [1] \<or> q = 1 # q')"
  using spinlock_fifo [OF lock_reach.init, of 2 1] lock_step.draw [of "\<lambda>_. Outside" 1 spinlock_init]
  by (fastforce simp: spinlock_init_def)

text \<open>
  C7. A scheduling decision of the hypervisor: \<open>schedule\<close> returns; the current
  thread of the hart is then a running thread of its run queue, the idle thread
  only when the queue is empty; a thread that was about to block is blocked;
  no run queue changes, the request to reschedule is cleared, and the system
  invariant holds.
\<close>

theorem schedule_picks_runnable:
  assumes "guest_inv home s"
  shows "\<exists>s'. schedule sched_iorr guest_switch s = Some s' \<and> guest_inv home s' \<and> sstatus s' = sstatus s
    \<and> (\<forall>d. iorr_runq (homed home) d s' = iorr_runq (homed home) d s) \<and> \<not> need_reschedule s' (pcpu_id s)
    \<and> curr_obj (sched_ctl s' (pcpu_id s)) \<in> (if iorr_runq (homed home) (pcpu_id s) s = {} then {idle s (pcpu_id s)}
        else iorr_runq (homed home) (pcpu_id s) s)
    \<and> is_running s' (curr_obj (sched_ctl s' (pcpu_id s)))
    \<and> (be_blocking (threads s (curr_obj (sched_ctl s (pcpu_id s)))) \<longrightarrow> is_blocked s' (curr_obj (sched_ctl s (pcpu_id s))))"
  using guest_sched.schedule_ok [where home = home and s = s] schedule_guest [OF assms] assms
  by (fastforce simp: event_inv_def)

theorem schedule_picks_runnable_witness:
  "\<exists>s'. schedule sched_iorr guest_switch demo_guest = Some s' \<and> curr_obj (sched_ctl s' 0) = demo_v"
  using schedule_picks_runnable [OF demo_guest_inv] by (auto simp: demo_iorr_runq demo_quiet demo_v_def)







text \<open>
  C11. A halted vCPU continues when its timer expires: with nothing pending the exit
  handler for a halt waits; the expiry of the virtual timer, followed by a
  scheduling decision, makes it return with the vCPU in the run queue of its
  hart, an event request pending and the timer bit of the vCPU set.
\<close>

theorem halted_vcpu_timer_wakeup:
  assumes "guest_inv home s" and "v \<in> homed home (pcpu_id s)" and "curr_obj (sched_ctl s (pcpu_id s)) = v"
    and "pending_req (vcpus s v) = 0" and "\<not> vclint_has_pending_intr s v"
    and "\<not> ev_set (sched_events s (vcpu_event s v VCPU_EVENT_VIRTUAL_INTERRUPT))" and "vcpu_id (vcpus s v) < 31"
  shows "\<exists>s'. hlt_vmexit_handler (\<lambda>u. Option.bind (vclint_timer_expired v u) (schedule sched_iorr guest_switch)) v s = Some (0, s')
    \<and> guest_inv home s' \<and> v \<in> iorr_runq (homed home) (pcpu_id s) s'
    \<and> bit (pending_req (vcpus s' v)) ACRN_REQUEST_EVENT \<and> bit (mtip (vms s' (vcpu_vm (vcpus s' v)))) (vcpu_id (vcpus s' v))"
  by (rule halted_vcpu_wakes [OF assms])

theorem halted_vcpu_timer_wakeup_witness:
  "\<exists>s'. hlt_vmexit_handler (\<lambda>u. Option.bind (vclint_timer_expired demo_v u) (schedule sched_iorr guest_switch)) demo_v demo_guest
    = Some (0, s') \<and> bit (pending_req (vcpus s' demo_v)) ACRN_REQUEST_EVENT"
proof -
  have "\<not> vclint_has_pending_intr demo_guest demo_v" "\<not> ev_set (sched_events demo_guest e)" "vcpu_id (vcpus demo_guest demo_v) < 31" for e
    by (simp_all add: demo_guest_def vclint_has_pending_intr_def vcpu_vclint_def demo_machine_def zero_clint_def zero_vcpu_def)
  thus ?thesis using halted_vcpu_timer_wakeup [OF demo_guest_inv, of demo_v] by (auto simp: demo_quiet demo_homed demo_v_def)
qed

text \<open>
  C12. A round of the vCPU thread finishes: with no reschedule and no cache
  synchronisation pending, and a guest that leaves with a synchronous exception
  below 16 other than 5 (the load access fault), the round returns and the
  invariant holds again.
\<close>

theorem vcpu_round_progress:
  assumes "env_ok home N v P env" and "enter_ok home N v P vmrun" and "quick_entry vmrun v"
    and "vm_run home N v P s" and "\<not> need_reschedule s (pcpu_id s)"
    and "\<not> bit (pending_req (vcpus s v)) ACRN_REQUEST_WAIT_WBINVD"
  shows "\<exists>s'. vcpu_round env vmrun v s = Some s' \<and> vm_run home N v P s'"
  using vcpu_round_returns [OF assms] vcpu_round_run [OF assms(1,2) _ assms(4)] by blast

theorem vcpu_round_progress_witness: "\<exists>s'. vcpu_round demo_exits demo_vmrun demo_v demo_guest = Some s'"
  using vcpu_round_progress [OF demo_exits_ok demo_vmrun_ok demo_vm_run [where P = "\<lambda>_. True"]] by (auto simp: demo_quiet)

text \<open>
  C13. \<open>sbuf_put\<close> refines a bounded queue: on a ring of \<open>n\<close> slots it appends the
  element to the queue of at most \<open>n - 1\<close> elements; a full ring loses its oldest
  element when overwriting is enabled and stays as it is otherwise; the return
  value is the element size, or 0 when nothing was stored.
\<close>

theorem sbuf_put_queue:
  assumes "sbuf_at h n e i j" and "sbuf \<noteq> 0" "data \<noteq> 0"
    and "data + e < sbuf + SBUF_HEAD_SIZE \<or> sbuf + SBUF_HEAD_SIZE + n * e < data"
    and "sbuf_put sbuf data (h, m) = (ret, h', m')"
    and "queue_put (sflags h AND OVERWRITE_EN \<noteq> 0) (n - 1) (bytes m data e) (ring sbuf m n e i j) = (ok, q')"
  shows "\<exists>i' j'. sbuf_at h' n e i' j' \<and> ring sbuf m' n e i' j' = q' \<and> unat ret = (if ok then e else 0)"
  using assms by (rule sbuf_put_refines)

theorem sbuf_put_queue_witness:
  "\<exists>h' i' j'. sbuf_at h' 4 8 i' j' \<and> ring 4096 (snd (snd (sbuf_put 4096 100 (\<lparr>magic = 0, ele_num = 4, ele_size = 8, head = 0,
      tail = 0, sflags = 0, overrun_cnt = 0, sbsize = 32\<rparr>, \<lambda>a. of_nat a)))) 4 8 i' j' = [map of_nat [100..<108]]"
proof -
  define h where "h = \<lparr>magic = 0, ele_num = 4, ele_size = 8, head = 0, tail = 0, sflags = 0, overrun_cnt = 0, sbsize = 32\<rparr>"
  have at: "sbuf_at h 4 8 0 0" by (simp add: sbuf_at_def h_def)
  obtain r h' m' where p: "sbuf_put 4096 100 (h, \<lambda>a. of_nat a) = (r, h', m')" by (cases "sbuf_put 4096 100 (h, \<lambda>a. of_nat a)")
  have q: "queue_put (sflags h AND OVERWRITE_EN \<noteq> 0) (4 - 1) (bytes (\<lambda>a. of_nat a) 100 8) (ring 4096 (\<lambda>a. of_nat a) 4 8 0 0)
      = (True, [map of_nat [100..<108]])"
    by (simp add: queue_put_def ring_def ring_len_def bytes_def upt_rec)
  have "\<exists>i' j'. sbuf_at h' 4 8 i' j' \<and> ring 4096 m' 4 8 i' j' = [map of_nat [100..<108]] \<and> unat r = (if True then 8 else 0)"
    by (rule sbuf_put_queue [OF at _ _ _ p q]) (simp_all add: SBUF_HEAD_SIZE_def)
  thus ?thesis using p unfolding h_def by auto
qed



text \<open>
  C15. Starting a machine: \<open>start_vm\<close> returns with the machine running, every
  created vCPU in the run queue of its hart, no thread removed from any run
  queue, and the system invariant kept.
\<close>

theorem start_vm_runs_vcpus:
  assumes "guest_inv home s" and "\<forall>i < created_vcpus (vms s m). hw_vcpu s m i \<in> homed home (c i)"
  shows "\<exists>s'. start_vm m s = Some s' \<and> guest_inv home s' \<and> vm_st (vms s' m) = VM_RUNNING
    \<and> (\<forall>i < created_vcpus (vms s m). hw_vcpu s m i \<in> iorr_runq (homed home) (c i) s')
    \<and> (\<forall>d. iorr_runq (homed home) d s \<subseteq> iorr_runq (homed home) d s')"
proof -
  let ?u = "set_vm_state m VM_RUNNING s" and ?vs = "map (hw_vcpu s m) [0..<created_vcpus (vms s m)]"
  have f: "guest_frame s ?u" by (simp add: set_vm_state_def)
  have c: "the (home (hw_vcpu s m i)) = c i" if "i < created_vcpus (vms s m)" for i using assms(2) that by (simp add: homed_def)
  have h: "\<forall>v \<in> set ?vs. v \<in> homed home (the (home v))" using assms(2) c by auto
  obtain s' where s': "launch_vcpus ?vs ?u = Some s'" "guest_inv home s'" "\<forall>v \<in> set ?vs. v \<in> iorr_runq (homed home) (the (home v)) s'"
    "\<forall>d. iorr_runq (homed home) d ?u \<subseteq> iorr_runq (homed home) d s'" "vms s' = vms ?u"
    using launch_vcpus_runq [OF guest_frame_inv [OF f assms(1)] h] by blast
  have "start_vm m s = Some s'" using s'(1) by (simp add: start_vm_def set_vm_state_def upd_vm_def Let_def)
  thus ?thesis using s' c guest_frame_runq [OF f] by (auto simp: set_vm_state_def upd_vm_def)
qed

theorem start_vm_runs_vcpus_witness: "\<exists>s'. start_vm 0 demo_guest = Some s' \<and> demo_w \<in> iorr_runq (homed demo_home) 1 s'"
proof -
  have "created_vcpus (vms demo_guest 0) = 1" "hw_vcpu demo_guest 0 i = demo_w" for i
    by (simp_all add: demo_guest_def demo_machine_def)
  thus ?thesis using start_vm_runs_vcpus [OF demo_guest_inv, of 0 "\<lambda>_. 1"] by (auto simp: demo_homed demo_w_def)
qed

text \<open>
  C16. A context switch loses nothing: when a vCPU is switched out and later in
  again, with its saved state untouched in between, each of the nine virtual
  supervisor registers of the hart has the value it had.
\<close>

theorem context_switch_restores:
  assumes "r \<in> {VSSTATUS, VSEPC, VSIP, VSIE, VSTVEC, VSSCRATCH, VSTVAL, VSCAUSE, VSATP}"
    and "vcpus s' v = vcpus (context_switch_out v s) v"
  shows "csr (context_switch_in v s') r = csr s r"
proof -
  obtain i where "map_of vs_regs r = Some i" using assms(1) by (auto simp: vs_regs_def)
  thus ?thesis using switch_restores [OF _ assms(2)] by blast
qed

theorem context_switch_restores_witness:
  "csr (context_switch_in demo_v (cpu_csr_write VSEPC 7 (context_switch_out demo_v (cpu_csr_write VSEPC 5 demo_guest)))) VSEPC = 5"
  using context_switch_restores [of VSEPC "cpu_csr_write VSEPC 7 (context_switch_out demo_v (cpu_csr_write VSEPC 5 demo_guest))" demo_v
      "cpu_csr_write VSEPC 5 demo_guest"] by (simp add: cpu_csr_write_def)

text \<open>
  C17. Only the service VM has hypercalls: an environment call from any other
  machine changes no machine, no other vCPU and no saved register of the caller,
  and when it is a hypercall it queues an undefined-instruction exception in the
  caller.
\<close>

theorem guest_call_confined:
  assumes "\<not> is_service_vm (vcpu_vm (vcpus s v))"
  shows "\<exists>s'. vmcall_vmexit_handler v s = (0, s') \<and> vms s' = vms s
    \<and> (\<forall>w. w \<noteq> v \<longrightarrow> vcpus s' w = vcpus s w) \<and> contexts (vcpus s' v) = contexts (vcpus s v)
    \<and> (vcpu_get_gpreg s v CPU_REG_A7 = VMCALL_TYPE_HYPERCALL \<and> exc_vector (vcpus s v) = VECTOR_INVALID \<longrightarrow>
        exc_vector (vcpus s' v) = IDT_UD \<and> bit (pending_req (vcpus s' v)) ACRN_REQUEST_EXCP)"
proof (cases "vcpu_get_gpreg s v CPU_REG_A7 = VMCALL_TYPE_HYPERCALL")
  case True
  hence "vmcall_vmexit_handler v s = (0, vcpu_inject_ud v s)" using assms
    by (simp add: vmcall_vmexit_handler_def EACCES_def ENODEV_def Let_def)
  moreover have "exc_vector (vcpus s v) = VECTOR_INVALID \<longrightarrow> exc_vector (vcpus (vcpu_inject_ud v s) v) = IDT_UD
      \<and> bit (pending_req (vcpus (vcpu_inject_ud v s) v)) ACRN_REQUEST_EXCP"
    by (simp add: vcpu_inject_ud_def vcpu_queue_exception_def get_excep_class_def IDT_UD_def VECTOR_INVALID_def IDT_DF_def IDT_DE_def
        IDT_TS_def IDT_NP_def IDT_SS_def IDT_GP_def IDT_PF_def IDT_VE_def request_ids bit_bitmap_set_lock Let_def)
  ultimately show ?thesis by (simp add: vcpu_inject_ud_def queue_exception_frame)
next
  case False
  hence "vmcall_vmexit_handler v s = ecall_vmexit_handler v s" by (simp add: vmcall_vmexit_handler_def)
  moreover have "ecall_vmexit_handler v s = (0, s)"
    by (simp add: ecall_vmexit_handler_def vcpu_get_gpreg_def vcpu_set_gpreg_def upd_vcpu_def set_ctx_word_def ctx_word_def ctx_index_def Let_def)
  ultimately show ?thesis using False by simp
qed

theorem guest_call_confined_witness:
  "\<exists>s'. vmcall_vmexit_handler demo_v demo_guest = (0, s') \<and> vms s' = vms demo_guest"
proof -
  have "\<not> is_service_vm (vcpu_vm (vcpus demo_guest demo_v))" by (simp add: demo_guest_def is_service_vm_def SOS_VM_INDEX_def)
  thus ?thesis using guest_call_confined by blast
qed

text \<open>
  C18. A registered MMIO handler serves its region: after registration into a
  table with a free node and no overlapping region, an access that lies in the
  region is passed to this handler with its private data, its status is the
  status of the emulation and its result the new request, with the lock of the
  table free, whether or not the handler runs under the lock.
\<close>

theorem registered_mmio_handler_serves:
  assumes "mmio_free m start fin s" and "g \<noteq> MMIO_DEFAULT_HANDLER"
    and "start \<le> req_address r" and "req_address r < req_address r + req_size r" and "req_address r + req_size r \<le> fin"
    and "m = vcpu_vm (vcpus s v)" and "r = reqs (req (vcpus s v))"
  shows "\<exists>s1 s2. register_mmio_emulation_handler m (Some g) start fin data hold s = Some s1
    \<and> hv_emulate_mmio (\<lambda>f d r s. Some (fst (h f d r), snd (h f d r), s)) v s1 = Some (fst (h g data r), s2)
    \<and> reqs (req (vcpus s2 v)) = snd (h g data r) \<and> lock_free (emul_mmio_lock (vms s2 m))"
  by (rule registered_mmio_served [OF assms]) simp

theorem registered_mmio_handler_serves_witness:
  "\<exists>s1 s2. register_mmio_emulation_handler 2 (Some 9) 0x1000 0x2000 3 False demo_read = Some s1
    \<and> hv_emulate_mmio (\<lambda>f d r s. Some (fst (0, r\<lparr>req_value := of_nat d\<rparr>), snd (0, r\<lparr>req_value := of_nat d\<rparr>), s)) demo_v s1 = Some (0, s2)
    \<and> req_value (reqs (req (vcpus s2 demo_v))) = 3"
proof -
  have "mmio_free 2 0x1000 0x2000 demo_read"
    by (simp add: mmio_free_def demo_read_fields demo_machine_def find_match_mmio_node_def first_index_def zero_mmio_node_def
        CONFIG_MAX_EMULATED_MMIO_REGIONS_def upt_rec)
  moreover have "9 \<noteq> MMIO_DEFAULT_HANDLER" by (simp add: MMIO_DEFAULT_HANDLER_def)
  ultimately show ?thesis
    using registered_mmio_handler_serves [of 2 "0x1000" "0x2000" demo_read 9 "reqs (req (vcpus demo_read demo_v))" demo_v 3 False
      "\<lambda>f d r. (0, r\<lparr>req_value := of_nat d\<rparr>)"]
    by (fastforce simp: demo_read_fields)
qed

text \<open>
  C19. Unregistering undoes a registration: afterwards the table of regions is as it
  was before, except that the node that served, which was free, is zeroed; the
  lock is free.
\<close>

theorem unregister_mmio_roundtrip:
  assumes "mmio_free m start fin s" and "start < fin" and "find_match_mmio_node (vms s m) start fin = None"
  shows "\<exists>s1 s2 i. register_mmio_emulation_handler m (Some g) start fin data hold s = Some s1
    \<and> unregister_mmio_emulation_handler m start fin s1 = Some s2
    \<and> range_start (emul_mmio (vms s m) i) = 0 \<and> range_end (emul_mmio (vms s m) i) = 0
    \<and> emul_mmio (vms s2 m) = (emul_mmio (vms s m))(i := zero_mmio_node) \<and> lock_free (emul_mmio_lock (vms s2 m))"
  by (rule unregistered_mmio_gone [OF assms])

theorem unregister_mmio_roundtrip_witness:
  "\<exists>s1 s2. register_mmio_emulation_handler 2 (Some 9) 0x1000 0x2000 3 True demo_guest = Some s1
    \<and> unregister_mmio_emulation_handler 2 0x1000 0x2000 s1 = Some s2 \<and> emul_mmio (vms s2 2) = emul_mmio (vms demo_guest 2)"
proof -
  have e: "emul_mmio (vms demo_guest 2) = (\<lambda>_. zero_mmio_node)" by (simp add: demo_guest_def demo_machine_def)
  have "mmio_free 2 0x1000 0x2000 demo_guest" "find_match_mmio_node (vms demo_guest 2) 0x1000 0x2000 = None"
    by (simp_all add: mmio_free_def demo_guest_def demo_machine_def find_match_mmio_node_def first_index_def zero_mmio_node_def
        CONFIG_MAX_EMULATED_MMIO_REGIONS_def upt_rec)
  thus ?thesis using unregister_mmio_roundtrip [of 2 "0x1000" "0x2000" demo_guest 9 3 True] e by (fastforce simp: fun_eq_iff)
qed

text \<open>
  C20. \<open>do_softirq\<close> terminates and serves everything: with handlers that raise no
  soft interrupts of their own, every pending one is served exactly once, lowest
  number first, none is left, and the flag against re-entry is clear again.
\<close>

theorem do_softirq_all_served:
  assumes "handlers_quiet run" and "softirq_servicing s (get_pcpu_id s) = 0" and "cpu = get_pcpu_id s"
    and "s1 = s\<lparr>softirq_servicing := (softirq_servicing s)(cpu := 1)\<rparr>"
    and "s2 = fold (serve run cpu) (softirqs_due cpu s1) s1"
  shows "do_softirq run s = Some (s2\<lparr>softirq_servicing := (softirq_servicing s2)(cpu := 0)\<rparr>) \<and> softirqs_due cpu s2 = []"
  using do_softirq_serves [OF assms(1,2)] assms(3-5) by simp

theorem do_softirq_all_served_witness:
  "\<exists>s'. do_softirq (\<lambda>_ _ s. s) \<lparr>lnext = \<lambda>_. 0, lprev = \<lambda>_. 0, sstatus = 0, pcpu_id = 2, softirq_pending = \<lambda>_. 3,
      softirq_servicing = \<lambda>_. 0, softirq_handlers = \<lambda>_. 0\<rparr> = Some s'"
  using do_softirq_all_served [OF _ _ refl refl refl, of "\<lambda>_ _ s. s" "\<lparr>lnext = \<lambda>_. 0, lprev = \<lambda>_. 0, sstatus = 0, pcpu_id = 2,
      softirq_pending = \<lambda>_. 3, softirq_servicing = \<lambda>_. 0, softirq_handlers = \<lambda>_. 0\<rparr>"]
  by (simp add: handlers_quiet_def)





text \<open>
  C23. The walk over the tables of a guest visits exactly what a lookup can find:
  the entries with which \<open>walk_s2pt_table\<close> calls its handler are those that
  \<open>lookup_address\<close> returns for some guest address, with their page sizes.
\<close>

theorem walk_s2pt_table_complete:
  "set (snd (walk_s2pt_table env vm record_entry (m, [])))
    = {e. \<exists>a. lookup_address env (s2pt_mem_ops vm) (s2ptp vm) a m = Some e}"
  by (rule walk_s2pt_table_leaves)

text \<open>
  C24. \<open>lookup_address\<close> implements the translation: on well-formed tables of a
  guest it finds an entry exactly for the addresses that are mapped, and the
  frame of the entry with the offset inside the page is the translated address.
\<close>

theorem lookup_address_translates:
  assumes "arrays_ok env arrays" and "guest_ok arrays vm" and "pt_inv env (vm_pools arrays vm) m" and "unat a < 2 ^ 32"
  shows "translate (vm_pools arrays vm) m (unat a) = map_option (\<lambda>(p, len). entry_pa (m p) + unat a mod unat len)
    (lookup_address env (s2pt_mem_ops vm) (s2ptp vm) a m)"
  using s2pt.lookup_address_walk [of "vm_pools arrays vm" arrays "unat (vm_id vm)" env m a]
    s2pt_layout [OF assms(1), of "unat (vm_id vm)"] assms(2-4) pbase_root [OF assms(2)]
  by (simp add: guest_ok_def s2pt_pools_def CONFIG_GUEST_ADDRESS_SPACE_SIZE_def del: walk.simps)

theorem lookup_address_translates_witness:
  "lookup_address demo_env (s2pt_mem_ops (demo_vm 0)) (s2ptp (demo_vm 0)) 0x1000 demo_ptm = None"
proof -
  have m: "demo_ptm = ptm demo_s2" by (simp add: demo_s2_def)
  have "unat (0x1000 :: u64) < 2 ^ 32" by simp
  from lookup_address_translates [OF demo_arrays_ok demo_guest_ok demo_tables(1) this]
  show ?thesis using demo_tables(2) [of "unat (0x1000 :: u64)"] by (simp add: m del: walk.simps)
qed

text \<open>
  C25. What \<open>gpa2hpa\<close> returns: for an address mapped by a 4K page with frame
  number \<open>f\<close> the result lies in frame \<open>f div 4\<close>, because the entry is used as an
  address although its frame number starts at bit 10.
\<close>

theorem gpa2hpa_frame_shift:
  assumes "lookup_address env (s2pt_mem_ops vm) (s2ptp vm) gpa m = Some (p, PTE_SIZE)"
  shows "unat (gpa2hpa env vm gpa m) = unat (pgtable_get_mfn (m p)) div 4 mod 2 ^ 36 * 4096 + unat gpa mod 4096"
  using assms by (rule gpa2hpa_page)

theorem gpa2hpa_frame_shift_witness:
  "unat (gpa2hpa demo_env (demo_vm 0) 0x234 demo_4k) = 0x28000234 \<and> pgtable_get_mfn (demo_4k 0x80100000) = 0xA0000"
  using gpa2hpa_frame_shift [OF demo_4k_lookup] by (simp add: demo_4k_def pgtable_get_mfn_def)









text \<open>
  C30. Printing and parsing are inverse: for every signed 64-bit number, what
  \<open>snprintf\<close> writes for \<open>%ld\<close> into a buffer of at least 22 bytes is read back by
  \<open>strtol_deci\<close> as the same number.
\<close>

theorem snprintf_strtol_roundtrip:
  assumes "cstring m fmt [0x25, 0x6c, 0x64]" "fmt \<noteq> 0" "\<forall>i \<le> 3. fmt + i \<notin> {d..<d + n}" and "22 \<le> n" "n < 2 ^ 32"
  shows "\<exists>r m'. snprintf d n fmt [VA64 x] m = Some (r, m') \<and> strtol_deci m' d = Some x"
  using assms by (rule snprintf_ld_roundtrip)

theorem snprintf_strtol_roundtrip_witness:
  "\<exists>r m'. snprintf 200 32 100 [VA64 (- 5)] ((\<lambda>_. 0)(100 := 0x25, 101 := 0x6c, 102 := 0x64)) = Some (r, m')
    \<and> strtol_deci m' 200 = Some (- 5)"
  by (rule snprintf_strtol_roundtrip) simp_all

text \<open>
  C31. \<open>vsnprintf\<close> writes the text of the format string: when the text that the
  format and its arguments denote fits the buffer, the function returns its
  length, the buffer holds the text and a terminator, and no byte outside the
  buffer has changed.
\<close>

theorem vsnprintf_writes_text:
  assumes "format_text m fs args = Some t" "length t < n" "n < 2 ^ 32"
    and "cstring m fmt fs" "fmt \<noteq> 0" "length fs < 2 ^ 31" "\<forall>i \<le> length fs. fmt + i \<notin> {d..<d + n}"
    and "args_ok m {d..<d + n} args"
  shows "\<exists>m'. vsnprintf d n fmt args m = Some (of_nat (length t), m') \<and> bytes m' d (length t) = t \<and>
    m' (d + length t) = 0 \<and> (\<forall>a. a \<notin> {d..<d + n} \<longrightarrow> m' a = m a)"
  using assms by (rule vsnprintf_text)

theorem vsnprintf_writes_text_witness:
  "\<exists>m'. vsnprintf 200 32 100 [] ((\<lambda>_. 0)(100 := 0x61, 101 := 0x62)) = Some (2, m') \<and> bytes m' 200 2 = [0x61, 0x62]"
proof -
  define m :: mem where "m = (\<lambda>_. 0)(100 := 0x61, 101 := 0x62)"
  have "\<exists>m'. vsnprintf 200 32 100 [] m = Some (of_nat (length [0x61 :: u8, 0x62]), m')
      \<and> bytes m' 200 (length [0x61 :: u8, 0x62]) = [0x61, 0x62] \<and> m' (200 + length [0x61 :: u8, 0x62]) = 0
      \<and> (\<forall>a. a \<notin> {200..<200 + 32} \<longrightarrow> m' a = m a)"
    by (rule vsnprintf_writes_text [where fs = "[0x61, 0x62]"]) (simp_all add: m_def args_ok_def)
  thus ?thesis by (auto simp: m_def numeral_2_eq_2)
qed



text \<open>
  C33. The word-wise bitmap searches find the first bit: \<open>find_next_bit\<close> returns the
  first set bit at or behind the offset and \<open>find_next_zero_bit\<close> the first clear
  one, or the size of the bitmap when there is none.
\<close>

theorem find_next_bit_first:
  assumes "off \<le> n"
  shows "(let r = find_next_bit a n off in off \<le> r \<and> r \<le> n \<and> (\<forall>i \<in> {off..<r}. \<not> bit_at a i) \<and> (r < n \<longrightarrow> bit_at a r))
    \<and> (let r = find_next_zero_bit a n off in off \<le> r \<and> r \<le> n \<and> (\<forall>i \<in> {off..<r}. bit_at a i) \<and> (r < n \<longrightarrow> \<not> bit_at a r))"
  using next_index_spec [OF assms, where P = "bit_at a"] next_index_spec [OF assms, where P = "\<lambda>i. \<not> bit_at a i"]
  by (auto simp: Let_def find_next_bit_next [OF assms] find_next_zero_bit_next [OF assms])

theorem find_next_bit_first_witness:
  "let r = find_next_bit (\<lambda>_. 8) 128 4 in 4 \<le> r \<and> r \<le> 128 \<and> (r < 128 \<longrightarrow> bit_at (\<lambda>_. 8) r)"
  using find_next_bit_first [of 4 128 "\<lambda>_. 8"] by (simp add: Let_def)

text \<open>
  C34. \<open>strtol_deci\<close> reads spaces, an optional sign and a run of digits, and returns
  their value, limited to the range of a signed 64-bit integer.
\<close>

theorem strtol_deci_saturates:
  assumes "cstring m p (sp @ sg @ ds @ rest)" and "list_all is_space sp"
    and "sg \<in> {[], [0x2b], [0x2d]}" and "ds \<noteq> []" "list_all is_deci ds"
    and "rest = [] \<or> \<not> is_deci (hd rest)"
  shows "\<exists>r. strtol_deci m p = Some r \<and> sint r = (if sg = [0x2d] then - min (int (deci_value 0 ds)) (2 ^ 63)
      else min (int (deci_value 0 ds)) (2 ^ 63 - 1))"
  using assms by (rule strtol_deci_value)

theorem strtol_deci_saturates_witness:
  "\<exists>r. strtol_deci ((\<lambda>_. 0)(1 := 0x20, 2 := 0x2d, 3 := 0x34, 4 := 0x32, 5 := 0x78)) 1 = Some r \<and> sint r = - 42"
  using strtol_deci_saturates [of "(\<lambda>_. 0)(1 := 0x20, 2 := 0x2d, 3 := 0x34, 4 := 0x32, 5 := 0x78)" 1
      "[0x20]" "[0x2d]" "[0x34, 0x32]" "[0x78]"]
  by (simp add: is_space_def is_deci_def)

text \<open>
  C35. \<open>strcmp\<close> decides the lexicographic order of terminated strings: it returns
  0 exactly for equal strings and a negative number exactly when the first comes
  first.
\<close>

theorem strcmp_orders:
  assumes "cstring m p xs" and "cstring m q ys"
  shows "\<exists>r. strcmp m p q = Some r \<and> (r = 0 \<longleftrightarrow> xs = ys) \<and> (r < 0 \<longleftrightarrow> ord_class.lexordp xs ys)"
  using assms by (rule strcmp_cstring)

theorem strcmp_orders_witness:
  "\<exists>r. strcmp ((\<lambda>_. 0)(1 := 0x61, 3 := 0x62)) 1 3 = Some r \<and> r < 0"
  using strcmp_orders [of "(\<lambda>_. 0)(1 := 0x61, 3 := 0x62)" 1 "[0x61]" 3 "[0x62]"] by auto

text \<open>
  C36. \<open>strstr_s\<close> finds the first occurrence: it returns the address of the first
  place where the second string occurs in the first, or null exactly when it
  does not occur.
\<close>

theorem strstr_s_first:
  assumes "cstring m p xs" "length xs \<le> n1" and "cstring m q ys" "length ys \<le> n2"
    and "p \<noteq> 0" "q \<noteq> 0" "n1 \<noteq> 0" "n2 \<noteq> 0"
  shows "strstr_s m p n1 q n2 = (if sublist ys xs
    then p + (LEAST i. i + length ys \<le> length xs \<and> take (length ys) (drop i xs) = ys) else 0)"
  using assms by (rule strstr_s_cstring)

theorem strstr_s_first_witness:
  "strstr_s ((\<lambda>_. 0)(1 := 0x61, 3 := 0x62)) 1 1 3 1 = 0"
  using strstr_s_first [of "(\<lambda>_. 0)(1 := 0x61, 3 := 0x62)" 1 "[0x61]" 1 3 "[0x62]" 1] by (simp add: sublist_Cons_right)

text \<open>
  C37. A bound that \<open>strncpy_s\<close> does not keep: when the source string does not fit
  and the length argument is smaller than the buffer, the call reports success,
  fills the buffer, and writes the terminator one byte behind it.
\<close>

theorem strncpy_s_behind_buffer:
  assumes "cstring m s xs" "dmax \<le> length xs" "slen < dmax" and "d \<noteq> 0" "s \<noteq> 0" and "d > s + dmax \<or> s > d + dmax"
  shows "fst (strncpy_s d dmax s slen m) = 0 \<and> bytes (snd (strncpy_s d dmax s slen m)) d dmax = take dmax xs
    \<and> snd (strncpy_s d dmax s slen m) (d + dmax) = 0"
  using strncpy_s_overflow [OF assms] by simp

theorem strncpy_s_behind_buffer_witness:
  "snd (strncpy_s 50 2 1 1 ((\<lambda>_. 0)(1 := 0x61, 2 := 0x62, 3 := 0x63, 52 := 0xff))) 52 = 0"
  using strncpy_s_behind_buffer [of "(\<lambda>_. 0)(1 := 0x61, 2 := 0x62, 3 := 0x63, 52 := 0xff)" 1 "[0x61, 0x62, 0x63]" 2 1 50] by simp




text \<open>
  C40. What \<open>strtoul_hex\<close> returns: for every terminated string with zero bytes
  behind it the result is \<open>ULONG_MAX\<close>, because the loop also accumulates the
  value 255 of characters that are not digits and ends only on overflow.
\<close>

theorem strtoul_hex_always_max:
  assumes "cstring m p xs" and "\<forall>i < 16. m (p + length xs + i) = 0"
  shows "strtoul_hex m p = Some ULONG_MAX"
  using assms by (rule strtoul_hex_saturates)

theorem strtoul_hex_always_max_witness: "strtoul_hex ((\<lambda>_. 0)(1 := 0x31, 2 := 0x32)) 1 = Some ULONG_MAX"
  by (rule strtoul_hex_always_max [of _ _ "[0x31, 0x32]"]) simp_all

end
